(* ===== verification/Prelude.thy ===== *)
theory Prelude
  imports Main "HOL-Library.Word"
begin

text \<open>
  What the theories of the development share: the machine types of the 32-bit kernel, the error
  codes of \<^verbatim>\<open>kern/inc/common/errors.h\<close>, the collections of simplification rules and a few
  lemmas on lists and words that the component proofs use.
\<close>

unbundle bit_operations_syntax

section \<open>Machine types and error codes\<close>

type_synonym u8 = "8 word"
type_synonym u32 = "32 word"

abbreviation (input) ERR_FAILURE :: int where "ERR_FAILURE \<equiv> - 1"
abbreviation (input) ERR_INVAL :: int where "ERR_INVAL \<equiv> - 2"
abbreviation (input) ERR_BUSY :: int where "ERR_BUSY \<equiv> - 3"
abbreviation (input) ERR_NOMEM :: int where "ERR_NOMEM \<equiv> - 4"
abbreviation (input) ERR_NOTAVAIL :: int where "ERR_NOTAVAIL \<equiv> - 5"
abbreviation (input) ERR_BIG :: int where "ERR_BIG \<equiv> - 6"

section \<open>Lists\<close>

lemma distinct_split_mid:
  "distinct (as @ x # bs) \<longleftrightarrow> distinct (as @ bs) \<and> x \<notin> set as \<and> x \<notin> set bs"
  by auto

section \<open>Masks\<close>

lemma unat_and_mask: "unat (x AND mask n) = unat x mod 2 ^ n" for x :: "'a::len word"
  unfolding take_bit_eq_mask [symmetric] unsigned_take_bit_eq by (simp add: take_bit_eq_mod)

lemma and_not_minus: "x AND NOT m = x - (x AND m)" for x m :: "'a::len word"
proof -
  have "(x AND NOT m) + (x AND m) = (x AND NOT m) OR (x AND m)"
    by (rule disjunctive_add_eq_or) (simp add: bit_eq_iff bit_simps; blast)
  also have "\<dots> = x" by (simp add: bit_eq_iff bit_simps; blast)
  finally show ?thesis by (simp add: algebra_simps)
qed

lemma unat_and_not_mask: "unat (x AND NOT (mask n)) = unat x div 2 ^ n * 2 ^ n" for x :: "'a::len word"
proof -
  have "x AND mask n \<le> x" by (simp add: word_le_nat_alt unat_and_mask)
  then show ?thesis
    by (simp add: and_not_minus unat_sub unat_and_mask minus_mod_eq_div_mult)
qed

lemma unat_of_small: "j < 2 ^ 32 \<Longrightarrow> unat (of_nat j :: u32) = j"
  by (simp add: unat_of_nat)

lemma unat_u32: "unat (x :: u32) < 2 ^ 32"
  using unsigned_less [of x] by simp

lemma unat_add_less: "unat x + unat y < 2 ^ LENGTH('a) \<Longrightarrow> unat (x + y) = unat x + unat y"
  for x y :: "'a::len word"
  by (simp add: unat_add_lem)

section \<open>Transition systems\<close>

text \<open>
  The contract between a step relation and an invariant: it holds where the system starts and every
  step keeps it.  Then it holds in every reachable state, with everything it implies.
\<close>

locale invariant_system =
  fixes init :: "'c \<Rightarrow> bool" and step :: "'c \<Rightarrow> 'c \<Rightarrow> bool" and inv :: "'c \<Rightarrow> bool"
  assumes init_inv: "init c \<Longrightarrow> inv c"
    and step_inv: "inv c \<Longrightarrow> step c c' \<Longrightarrow> inv c'"
begin

lemma reachable_inv:
  assumes "init c" "step\<^sup>*\<^sup>* c c'"
  shows "inv c'"
  using assms(2) by (induction rule: rtranclp_induct) (auto intro: init_inv assms(1) step_inv)

lemma reachable_safe:
  assumes "init c" "step\<^sup>*\<^sup>* c c'" "\<And>d. inv d \<Longrightarrow> P d"
  shows "P c'"
  using reachable_inv [OF assms(1,2)] assms(3) by blast

end

end
