(* ===== verification/Link_List.thy ===== *)
theory Link_List
  imports Prelude
begin

text \<open>
  The circular doubly linked list of \<^verbatim>\<open>kern/list/list.c\<close>, at the level of its pointers.  A heap
  gives every \<^verbatim>\<open>list_head\<close> node its \<^verbatim>\<open>next\<close> and \<^verbatim>\<open>prev\<close> pointer; a pointer that may be
  \<^verbatim>\<open>NULL\<close> is an option.  The nodes are any type: the kernel instantiates it with the link fields
  of its structures.  \<open>dlist h q xs\<close> says that the ring of \<open>q\<close> holds exactly the nodes \<open>xs\<close>, in
  order; the operations are proved to refine the operations on \<open>xs\<close>.
\<close>

section \<open>The operations of list.c\<close>

record 'n link_heap =
  nxt :: "'n \<Rightarrow> 'n"
  prv :: "'n \<Rightarrow> 'n"

definition set_nxt :: "'n \<Rightarrow> 'n \<Rightarrow> 'n link_heap \<Rightarrow> 'n link_heap" where
  "set_nxt a b h = h\<lparr>nxt := (nxt h)(a := b)\<rparr>"

definition set_prv :: "'n \<Rightarrow> 'n \<Rightarrow> 'n link_heap \<Rightarrow> 'n link_heap" where
  "set_prv a b h = h\<lparr>prv := (prv h)(a := b)\<rparr>"

definition init_head :: "'n \<Rightarrow> 'n link_heap \<Rightarrow> 'n link_heap" where
  "init_head head h = set_prv head head (set_nxt head head h)"

definition add_to_list :: "'n \<Rightarrow> 'n \<Rightarrow> 'n \<Rightarrow> 'n link_heap \<Rightarrow> 'n link_heap" where
  "add_to_list new_node prev next h =
     (let h = set_nxt new_node next h;
          h = set_prv new_node prev h;
          h = set_nxt prev new_node h
      in set_prv next new_node h)"

definition add_to_tail :: "'n \<Rightarrow> 'n \<Rightarrow> 'n link_heap \<Rightarrow> 'n link_heap" where
  "add_to_tail new_node head h = add_to_list new_node (prv h head) head h"

definition add_to_head :: "'n \<Rightarrow> 'n \<Rightarrow> 'n link_heap \<Rightarrow> 'n link_heap" where
  "add_to_head new_node head h = add_to_list new_node head (nxt h head) h"

definition del_entry :: "'n \<Rightarrow> 'n link_heap \<Rightarrow> 'n link_heap" where
  "del_entry node h =
     (let h = set_nxt (prv h node) (nxt h node) h
      in set_prv (nxt h node) (prv h node) h)"

definition get_first :: "'n \<Rightarrow> 'n link_heap \<Rightarrow> 'n option" where
  "get_first head h = (if nxt h head = head then None else Some (nxt h head))"

definition get_last :: "'n \<Rightarrow> 'n link_heap \<Rightarrow> 'n option" where
  "get_last head h = (if prv h head = head then None else Some (prv h head))"

definition concat_lists :: "'n \<Rightarrow> 'n \<Rightarrow> 'n link_heap \<Rightarrow> 'n link_heap" where
  "concat_lists first_list_head second_list_head h =
     (let head_one = get_first first_list_head h;
          tail_one = get_last first_list_head h;
          head_two = get_first second_list_head h;
          tail_two = get_last second_list_head h
      in case (head_two, tail_two) of
           (Some h2, Some t2) \<Rightarrow>
             (case (head_one, tail_one) of
                (Some h1, Some t1) \<Rightarrow>
                  (let h = set_nxt t1 h2 h;
                       h = set_prv h2 t1 h;
                       h = set_nxt t2 first_list_head h
                   in set_prv first_list_head t2 h)
              | _ \<Rightarrow>
                  (let h = set_nxt first_list_head h2 h;
                       h = set_prv first_list_head t2 h;
                       h = set_prv h2 first_list_head h;
                       h = set_nxt t2 first_list_head h
                   in init_head second_list_head h))
         | _ \<Rightarrow> h)"

text \<open>
  The loop with which every client walks a ring: \<open>for (p = first; p != NULL && p != head; p =
  p->next)\<close>, leaving it early at the first node that satisfies a test.  \<open>None\<close> is a walk that never
  comes back to the head; \<open>Some None\<close> is a walk that reached the head.
\<close>

partial_function (option) walk_from :: "'n link_heap \<Rightarrow> ('n \<Rightarrow> bool) \<Rightarrow> 'n \<Rightarrow> 'n \<Rightarrow> 'n option option" where
  "walk_from h P head cur =
     (if cur = head then Some None
      else if P cur then Some (Some cur)
      else walk_from h P head (nxt h cur))"

definition walk :: "'n link_heap \<Rightarrow> ('n \<Rightarrow> bool) \<Rightarrow> 'n \<Rightarrow> 'n option option" where
  "walk h P head =
     (case get_first head h of None \<Rightarrow> Some None | Some n \<Rightarrow> walk_from h P head n)"

section \<open>Rings of nodes\<close>

fun ring_seg :: "'n link_heap \<Rightarrow> 'n \<Rightarrow> 'n list \<Rightarrow> 'n \<Rightarrow> bool" where
  "ring_seg h a [] b \<longleftrightarrow> nxt h a = b \<and> prv h b = a"
| "ring_seg h a (x # xs) b \<longleftrightarrow> nxt h a = x \<and> prv h x = a \<and> ring_seg h x xs b"

definition dlist :: "'n link_heap \<Rightarrow> 'n \<Rightarrow> 'n list \<Rightarrow> bool" where
  "dlist h q xs \<longleftrightarrow> distinct (q # xs) \<and> ring_seg h q xs q"

named_theorems link_defs \<open>the list operations unfolded to pointer updates\<close>

lemmas link_op_defs [link_defs] =
  set_nxt_def set_prv_def init_head_def add_to_list_def add_to_tail_def add_to_head_def
  del_entry_def get_first_def get_last_def Let_def

lemma ring_seg_append:
  "ring_seg h a (xs @ y # ys) b \<longleftrightarrow> ring_seg h a xs y \<and> ring_seg h y ys b"
  by (induction xs arbitrary: a) auto

lemma ring_seg_first: "ring_seg h a xs b \<Longrightarrow> nxt h a = (case xs of [] \<Rightarrow> b | x # _ \<Rightarrow> x)"
  by (cases xs) auto

lemma ring_seg_last: "ring_seg h a xs b \<Longrightarrow> prv h b = last (a # xs)"
  by (induction xs arbitrary: a) auto

lemma ring_seg_cong:
  assumes "ring_seg h a xs b"
    and "\<And>n. n \<in> set (a # xs) \<Longrightarrow> nxt h' n = nxt h n"
    and "\<And>n. n \<in> set (xs @ [b]) \<Longrightarrow> prv h' n = prv h n"
  shows "ring_seg h' a xs b"
  using assms by (induction xs arbitrary: a) auto

lemma dlist_frame:
  assumes "dlist h q xs"
    and "\<And>n. n \<in> set (q # xs) \<Longrightarrow> nxt h' n = nxt h n \<and> prv h' n = prv h n"
  shows "dlist h' q xs"
  using assms unfolding dlist_def by (auto intro!: ring_seg_cong [of h])

lemma dlist_first: "dlist h q xs \<Longrightarrow> get_first q h = (case xs of [] \<Rightarrow> None | x # _ \<Rightarrow> Some x)"
  by (cases xs) (auto simp: dlist_def get_first_def)

lemma dlist_last: "dlist h q xs \<Longrightarrow> get_last q h = (if xs = [] then None else Some (last xs))"
  by (auto simp: dlist_def get_last_def dest!: ring_seg_last split: if_splits)

lemma dlist_prv: "dlist h q xs \<Longrightarrow> prv h q = last (q # xs)"
  unfolding dlist_def by (metis ring_seg_last)

lemma ring_seg_unique:
  "ring_seg h a xs b \<Longrightarrow> ring_seg h a ys b \<Longrightarrow> b \<notin> set xs \<Longrightarrow> b \<notin> set ys \<Longrightarrow> xs = ys"
proof (induction xs arbitrary: a ys)
  case Nil
  then show ?case by (cases ys) auto
next
  case (Cons x xs)
  then show ?case by (cases ys) auto
qed

lemma dlist_unique: "dlist h q xs \<Longrightarrow> dlist h q ys \<Longrightarrow> xs = ys"
  by (auto simp: dlist_def intro: ring_seg_unique)

lemma dlist_nxt: "dlist h q xs \<Longrightarrow> nxt h q = hd (xs @ [q])"
  by (cases xs) (auto simp: dlist_def)

lemma dlist_distinct: "dlist h q xs \<Longrightarrow> distinct xs \<and> q \<notin> set xs"
  by (simp add: dlist_def)

text \<open>
  The three pointer surgeries on a segment: bending its end to another node, putting a node in,
  and taking one out.
\<close>

lemma ring_seg_bend:
  assumes "ring_seg h a xs b" "distinct (a # xs)"
    and "\<And>n. n \<in> set (a # xs) \<Longrightarrow> n \<noteq> last (a # xs) \<Longrightarrow> nxt h' n = nxt h n"
    and "\<And>n. n \<in> set xs \<Longrightarrow> prv h' n = prv h n"
    and "nxt h' (last (a # xs)) = c" "prv h' c = last (a # xs)"
  shows "ring_seg h' a xs c"
  using assms
proof (induction xs arbitrary: a)
  case Nil
  then show ?case by simp
next
  case (Cons x xs)
  have "a \<noteq> last (x # xs)" using Cons.prems(2) by (metis distinct.simps(2) last_in_set list.distinct(1))
  moreover have "ring_seg h' x xs c"
    by (rule Cons.IH) (use Cons.prems in \<open>auto split: if_splits\<close>)
  ultimately show ?case using Cons.prems by auto
qed

lemma add_to_list_ptrs:
  "nxt (add_to_list n p s h) = (nxt h)(n := s, p := n)"
  "prv (add_to_list n p s h) = (prv h)(n := p, s := n)"
  by (simp_all add: link_defs)

lemma del_entry_ptrs:
  "nxt (del_entry n h) = (nxt h)(prv h n := nxt h n)"
  "prv (del_entry n h) = (prv h)(nxt h n := prv h n)"
  by (simp_all add: link_defs)

lemma ring_seg_insert:
  assumes seg: "ring_seg h a (xs @ ys) b" and dist: "distinct (a # xs @ ys)"
    and n: "n \<notin> set (a # xs @ ys)" "n \<noteq> b" and b: "b \<notin> set (xs @ ys)"
  shows "ring_seg (add_to_list n (last (a # xs)) (hd (ys @ [b])) h) a (xs @ n # ys) b"
proof -
  let ?p = "last (a # xs)" and ?s = "hd (ys @ [b])"
  let ?h = "add_to_list n ?p ?s h"
  have pin: "?p \<in> set (a # xs)" by (rule last_in_set) simp
  have sin: "?s \<in> set (ys @ [b])" by (cases ys) auto
  have left: "ring_seg ?h a xs n"
  proof (rule ring_seg_bend)
    show "ring_seg h a xs ?s" using seg by (cases ys) (auto simp: ring_seg_append)
    show "distinct (a # xs)" using dist by simp
  qed (use n b dist pin sin in \<open>auto simp: add_to_list_ptrs\<close>)
  have right: "ring_seg ?h n ys b"
  proof (cases ys)
    case Nil
    with n b pin show ?thesis by (auto simp: add_to_list_ptrs)
  next
    case (Cons y ys')
    then have "ring_seg h y ys' b" using seg by (simp add: ring_seg_append)
    then have "ring_seg ?h y ys' b"
      by (rule ring_seg_cong) (use Cons n b dist pin in \<open>auto simp: add_to_list_ptrs\<close>)
    with Cons n pin dist show ?thesis by (auto simp: add_to_list_ptrs)
  qed
  from left right show ?thesis by (simp add: ring_seg_append)
qed

lemma ring_seg_remove:
  assumes seg: "ring_seg h a (xs @ n # ys) b" and dist: "distinct (a # xs @ n # ys)"
    and b: "b \<notin> set (xs @ n # ys)"
  shows "ring_seg (del_entry n h) a (xs @ ys) b"
proof -
  let ?p = "last (a # xs)" and ?s = "hd (ys @ [b])"
  let ?h = "del_entry n h"
  have l: "ring_seg h a xs n" and r: "ring_seg h n ys b"
    using seg by (auto simp: ring_seg_append)
  have p: "prv h n = ?p" using l by (rule ring_seg_last)
  have s: "nxt h n = ?s" using r by (cases ys) auto
  have pin: "?p \<in> set (a # xs)" by (rule last_in_set) simp
  have sin: "?s \<in> set (ys @ [b])" by (cases ys) auto
  have left: "ring_seg ?h a xs ?s"
    by (rule ring_seg_bend [OF l]) (use b dist pin sin in \<open>auto simp: del_entry_ptrs p s\<close>)
  show ?thesis
  proof (cases ys)
    case Nil
    with left show ?thesis by simp
  next
    case (Cons y ys')
    with r have "ring_seg h y ys' b" by simp
    then have "ring_seg ?h y ys' b"
      by (rule ring_seg_cong) (use Cons b dist pin in \<open>auto simp: del_entry_ptrs p s\<close>)
    with left Cons show ?thesis by (simp add: ring_seg_append)
  qed
qed

section \<open>The operations refine the operations on lists\<close>

lemma dlist_init: "dlist (init_head q h) q []"
  by (simp add: dlist_def link_defs)

lemma dlist_insert_before:
  assumes "dlist h q (xs @ ys)" "n \<notin> set (q # xs @ ys)"
  shows "dlist (add_to_list n (last (q # xs)) (hd (ys @ [q])) h) q (xs @ n # ys)"
proof -
  have "ring_seg (add_to_list n (last (q # xs)) (hd (ys @ [q])) h) q (xs @ n # ys) q"
    by (rule ring_seg_insert) (use assms in \<open>auto simp: dlist_def\<close>)
  then show ?thesis using assms by (auto simp: dlist_def)
qed

lemma dlist_add_to_tail:
  assumes "dlist h q xs" "n \<notin> set (q # xs)"
  shows "dlist (add_to_tail n q h) q (xs @ [n])"
  using dlist_insert_before [of h q xs "[]" n] assms by (simp add: add_to_tail_def dlist_prv)

lemma dlist_add_to_head:
  assumes "dlist h q xs" "n \<notin> set (q # xs)"
  shows "dlist (add_to_head n q h) q (n # xs)"
  using dlist_insert_before [of h q "[]" xs n] assms by (simp add: add_to_head_def dlist_nxt)

lemma dlist_del_entry:
  assumes "dlist h q (xs @ n # ys)"
  shows "dlist (del_entry n h) q (xs @ ys)"
  using assms ring_seg_remove [of h q xs n ys q] by (auto simp: dlist_def)

text \<open>What the operations leave alone: every ring that shares no node with the ones they touch.\<close>

lemma add_to_list_frame:
  assumes "dlist h r ys" "n \<notin> set (r # ys)" "p \<notin> set (r # ys)" "s \<notin> set (r # ys)"
  shows "dlist (add_to_list n p s h) r ys"
  by (rule dlist_frame [OF assms(1)]) (use assms in \<open>auto simp: add_to_list_ptrs\<close>)

lemma add_to_tail_frame:
  assumes "dlist h q xs" "dlist h r ys" "n \<notin> set (r # ys)" "set (q # xs) \<inter> set (r # ys) = {}"
  shows "dlist (add_to_tail n q h) r ys"
proof -
  have "last (q # xs) \<in> set (q # xs)" by (rule last_in_set) simp
  then show ?thesis unfolding add_to_tail_def dlist_prv [OF assms(1)]
    by (intro add_to_list_frame) (use assms in auto)
qed

lemma dlist_neighbours:
  assumes "dlist h q (xs @ n # ys)"
  shows "prv h n = last (q # xs)" "nxt h n = hd (ys @ [q])"
proof -
  have "ring_seg h q xs n" "ring_seg h n ys q" using assms by (auto simp: dlist_def ring_seg_append)
  then show "prv h n = last (q # xs)" "nxt h n = hd (ys @ [q])"
    by (auto dest: ring_seg_last) (cases ys; auto)
qed

lemma del_entry_frame:
  assumes "dlist h q (xs @ n # ys)" "dlist h r zs" "set (q # xs @ n # ys) \<inter> set (r # zs) = {}"
  shows "dlist (del_entry n h) r zs"
proof -
  have "last (q # xs) \<in> set (q # xs)" by (rule last_in_set) simp
  then have p: "prv h n \<notin> set (r # zs)"
    unfolding dlist_neighbours(1) [OF assms(1)] using assms(3) by auto
  have "hd (ys @ [q]) \<in> set (ys @ [q])" by (rule hd_in_set) simp
  then have s: "nxt h n \<notin> set (r # zs)"
    unfolding dlist_neighbours(2) [OF assms(1)] using assms(3) by auto
  show ?thesis
  proof (rule dlist_frame [OF assms(2)])
    fix m assume "m \<in> set (r # zs)"
    with p s have "m \<noteq> prv h n" "m \<noteq> nxt h n" by blast+
    then show "nxt (del_entry n h) m = nxt h m \<and> prv (del_entry n h) m = prv h m"
      by (simp add: del_entry_ptrs)
  qed
qed

text \<open>
  Concatenation.  The first ring gets the nodes of both.  The second head is reset only when the
  first ring was empty; otherwise it keeps pointing into the first ring.
\<close>

lemma dlist_concat_lists:
  assumes q: "dlist h q xs" and r: "dlist h r ys" and disj: "set (q # xs) \<inter> set (r # ys) = {}"
  shows "dlist (concat_lists q r h) q (xs @ ys)"
proof (cases ys)
  case Nil
  then have "concat_lists q r h = h"
    by (simp add: concat_lists_def dlist_first [OF r] dlist_last [OF r] Let_def)
  with q Nil show ?thesis by simp
next
  case (Cons y ys')
  let ?h = "concat_lists q r h"
  have sq: "ring_seg h q xs q" and sr: "ring_seg h y ys' r" and d: "distinct (q # xs)" "distinct (r # ys)"
    using q r Cons by (auto simp: dlist_def)
  define t where "t = last (y # ys')"
  define p where "p = last (q # xs)"
  have "t \<in> set (y # ys')" unfolding t_def by (rule last_in_set) simp
  then have t: "t \<in> set ys" using Cons by simp
  have pin: "p \<in> set (q # xs)" unfolding p_def by (rule last_in_set) simp
  have ne: "p \<noteq> t" "p \<noteq> r" "p \<noteq> y" "t \<noteq> r" "t \<noteq> q" "y \<noteq> q" "y \<noteq> r" "q \<noteq> r"
    using disj t pin Cons d by auto
  have ptr: "nxt ?h m = (if m = t then q else if m = p then y else nxt h m)"
    "prv ?h m = (if m = q then t else if m = y then p else prv h m)" if "m \<noteq> r" for m
    using Cons ne that unfolding p_def t_def by (cases xs;
      simp add: concat_lists_def dlist_first [OF q] dlist_first [OF r] dlist_last [OF q]
        dlist_last [OF r] Let_def set_nxt_def set_prv_def init_head_def)+
  have left: "ring_seg ?h q xs y"
  proof (rule ring_seg_bend [OF sq d(1), folded p_def])
    fix m assume m: "m \<in> set (q # xs)"
    then have "m \<noteq> r" "m \<noteq> t" "m \<noteq> y" using disj t Cons by auto
    then show "m \<noteq> p \<Longrightarrow> nxt ?h m = nxt h m" by (simp add: ptr)
  next
    fix m assume m: "m \<in> set xs"
    then have "m \<noteq> r" "m \<noteq> q" "m \<noteq> y" using disj d(1) Cons by auto
    then show "prv ?h m = prv h m" by (simp add: ptr)
  qed (use ne in \<open>simp_all add: ptr\<close>)
  have "distinct (y # ys')" using d(2) Cons by simp
  then have right: "ring_seg ?h y ys' q"
  proof (rule ring_seg_bend [OF sr, folded t_def])
    fix m assume m: "m \<in> set (y # ys')"
    then have "m \<noteq> r" "m \<noteq> p" using disj d(2) pin Cons by auto
    then show "m \<noteq> t \<Longrightarrow> nxt ?h m = nxt h m" by (simp add: ptr)
  next
    fix m assume m: "m \<in> set ys'"
    then have "m \<noteq> r" "m \<noteq> q" "m \<noteq> y" using disj d(2) Cons by auto
    then show "prv ?h m = prv h m" by (simp add: ptr)
  qed (use ne in \<open>simp_all add: ptr\<close>)
  from left right disj d Cons show ?thesis by (auto simp: dlist_def ring_seg_append)
qed

lemma concat_lists_second_head:
  assumes q: "dlist h q (x # xs)" and r: "dlist h r (y # ys)"
    and disj: "set (q # x # xs) \<inter> set (r # y # ys) = {}"
  shows "get_first r (concat_lists q r h) = Some y"
proof -
  have "last (y # ys) \<noteq> r" "last (x # xs) \<noteq> r" "y \<noteq> r"
    using disj r last_in_set [of "x # xs"] last_in_set [of "y # ys"] by (auto simp: dlist_def)
  moreover have "nxt h r = y" using r by (simp add: dlist_def)
  moreover have "concat_lists q r h = set_prv q (last (y # ys)) (set_nxt (last (y # ys)) q
      (set_prv y (last (x # xs)) (set_nxt (last (x # xs)) y h)))"
    by (simp add: concat_lists_def dlist_first [OF q] dlist_first [OF r] dlist_last [OF q]
        dlist_last [OF r] Let_def)
  ultimately show ?thesis by (auto simp: get_first_def set_nxt_def set_prv_def)
qed

section \<open>Walking a ring\<close>

text \<open>The walk of a well-formed ring returns, with the first node of the list that passes the test.\<close>

lemma walk_from_find:
  "ring_seg h a xs q \<Longrightarrow> q \<notin> set xs \<Longrightarrow> walk_from h P q (nxt h a) = Some (find P xs)"
proof (induction xs arbitrary: a)
  case Nil
  then show ?case by (simp add: walk_from.simps)
next
  case (Cons x xs)
  then have "walk_from h P q (nxt h x) = Some (find P xs)" by simp
  with Cons.prems show ?case by (auto simp: walk_from.simps [of h P q x])
qed

lemma walk_find: "dlist h q xs \<Longrightarrow> walk h P q = Some (find P xs)"
  using walk_from_find [of h q xs q P]
  by (cases xs) (auto simp: walk_def dlist_def get_first_def)

section \<open>The interface the rest of the kernel uses\<close>

text \<open>
  The kernel keeps its run queue, its wait queues and its task lists in such rings.  The contract
  its components rely on is stated once, over an abstract predicate \<open>ring h q xs\<close>, and discharged
  for the pointer operations.
\<close>

locale intrusive_list =
  fixes ring :: "'h \<Rightarrow> 'n \<Rightarrow> 'n list \<Rightarrow> bool"
    and push_back :: "'n \<Rightarrow> 'n \<Rightarrow> 'h \<Rightarrow> 'h"
    and unlink :: "'n \<Rightarrow> 'h \<Rightarrow> 'h"
    and front :: "'n \<Rightarrow> 'h \<Rightarrow> 'n option"
  assumes ring_distinct: "ring h q xs \<Longrightarrow> distinct (q # xs)"
    and ring_front: "ring h q xs \<Longrightarrow> front q h = (case xs of [] \<Rightarrow> None | x # _ \<Rightarrow> Some x)"
    and ring_push_back:
      "ring h q xs \<Longrightarrow> n \<notin> set (q # xs) \<Longrightarrow> ring (push_back n q h) q (xs @ [n])"
    and ring_push_back_frame:
      "ring h q xs \<Longrightarrow> ring h r ys \<Longrightarrow> n \<notin> set (r # ys) \<Longrightarrow> set (q # xs) \<inter> set (r # ys) = {}
        \<Longrightarrow> ring (push_back n q h) r ys"
    and ring_unlink: "ring h q (xs @ n # ys) \<Longrightarrow> ring (unlink n h) q (xs @ ys)"
    and ring_unlink_frame:
      "ring h q (xs @ n # ys) \<Longrightarrow> ring h r zs \<Longrightarrow> set (q # xs @ n # ys) \<inter> set (r # zs) = {}
        \<Longrightarrow> ring (unlink n h) r zs"
begin

lemma front_Some: "ring h q xs \<Longrightarrow> front q h = Some n \<longleftrightarrow> (\<exists>ys. xs = n # ys)"
  by (cases xs) (auto simp: ring_front)

lemma front_None: "ring h q xs \<Longrightarrow> front q h = None \<longleftrightarrow> xs = []"
  by (cases xs) (auto simp: ring_front)

lemma pop_front:
  assumes "ring h q xs" "front q h = Some n"
  obtains ys where "xs = n # ys" "ring (unlink n h) q ys" "n \<notin> set (q # ys)"
proof -
  from assms obtain ys where xs: "xs = n # ys" by (auto simp: front_Some)
  moreover have "ring (unlink n h) q ys" using ring_unlink [of h q "[]" n ys] assms(1) xs by simp
  moreover have "n \<notin> set (q # ys)" using ring_distinct [OF assms(1)] xs by auto
  ultimately show ?thesis by (rule that)
qed

text \<open>Taking the front node and queueing it again rotates the ring: the round-robin step.\<close>

lemma rotate_front:
  assumes "ring h q (x # xs)"
  shows "ring (push_back x q (unlink x h)) q (rotate1 (x # xs))"
proof -
  have "ring (unlink x h) q xs" using ring_unlink [of h q "[]" x xs] assms by simp
  moreover have "x \<notin> set (q # xs)" using ring_distinct [OF assms] by auto
  ultimately show ?thesis by (simp add: ring_push_back)
qed

end

interpretation klist: intrusive_list dlist add_to_tail del_entry get_first
proof unfold_locales
  show "distinct (q # xs)" if "dlist h q xs" for h :: "'a link_heap" and q xs
    using that by (simp add: dlist_def)
qed (fact dlist_first dlist_add_to_tail add_to_tail_frame dlist_del_entry del_entry_frame)+

end
