(* ===== verification/Kernel_State.thy ===== *)
theory Kernel_State
  imports Link_List
begin

text \<open>
  The state the scheduling core of the kernel works on: the structures of
  \<^verbatim>\<open>kern/inc/core/thread.h\<close>, \<^verbatim>\<open>kern/inc/core/task.h\<close> and \<^verbatim>\<open>kern/inc/sync\<close>, the static variables
  of \<^verbatim>\<open>scheduler.c\<close>, \<^verbatim>\<open>sleep.c\<close>, \<^verbatim>\<open>timer.c\<close>, \<^verbatim>\<open>task.c\<close> and \<^verbatim>\<open>mutex.c\<close>, and the processor
  registers they touch.  Kernel structures are addressed by 32-bit words, \<open>0\<close> being \<^verbatim>\<open>NULL\<close>.

  A \<^verbatim>\<open>list_head\<close> is embedded in a structure, so its address is the name of the member together
  with the address of the structure that contains it; \<open>get_entry\<close>, the \<^verbatim>\<open>offsetof\<close> arithmetic of
  \<^verbatim>\<open>list.h\<close>, forgets the member.  Static list heads are owned by address \<open>0\<close>.
\<close>

section \<open>Names of embedded structures\<close>

datatype cond_name = Exit_cond | Deschedule_cond | Readline_cond | Sem_cond

datatype mutex_name =
    Tid_mutex | Map_mutex | Sleep_list_mutex | Malloc_mutex | List_mut | Frame_lock
  | Readline_mutex | Child_list_mutex | Thread_list_mutex | Vanish_mutex | Fork_mutex | Exec_mutex
  | Deschedule_mutex | Sem_mutex | Queue_mutex cond_name

datatype link_name =
    Runnable_threads | Sleeping_threads | Thread_map
  | Thread_head | Child_task_head | Dead_child_head
  | Mutex_waiting mutex_name | Cond_waiting cond_name
  | Runq_link | Sleepq_link | Thread_map_link | Cond_wait_link | Mutex_link | Task_thread_link
  | Child_task_link | Dead_child_link | Null_list

type_synonym addr = u32
type_synonym cond_ptr = "cond_name \<times> addr"
type_synonym mutex_ptr = "mutex_name \<times> addr"
type_synonym link = "link_name \<times> addr"

definition get_entry :: "link \<Rightarrow> addr" where
  "get_entry ptr = snd ptr"

definition waiting_of_mutex :: "mutex_ptr \<Rightarrow> link" where
  "waiting_of_mutex mp = (Mutex_waiting (fst mp), snd mp)"

definition waiting_of_cond :: "cond_ptr \<Rightarrow> link" where
  "waiting_of_cond cv = (Cond_waiting (fst cv), snd cv)"

definition queue_mutex :: "cond_ptr \<Rightarrow> mutex_ptr" where
  "queue_mutex cv = (Queue_mutex (fst cv), snd cv)"

abbreviation runnable_threads :: link where
  "runnable_threads \<equiv> (Runnable_threads, 0)"

text \<open>A list operation on a NULL head works on the two words at address 0, which are mapped.\<close>

abbreviation null_list :: link where
  "null_list \<equiv> (Null_list, 0)"

abbreviation sleeping_head :: link where
  "sleeping_head \<equiv> (Sleeping_threads, 0)"

section \<open>Threads, tasks and the kernel state\<close>

datatype thread_status = RUNNING | RUNNABLE | WAITING | EXITED | DESCHEDULED

record thread_struct =
  thr_id :: int
  parent_task :: addr
  k_stack_base :: u32
  cur_esp :: u32
  cur_ebp :: u32
  status :: thread_status
  wake_time :: int

record task_struct =
  task_id :: int
  pdbr :: addr
  thr :: addr
  exit_status :: int
  parent :: addr
  swexn_eip :: u32
  swexn_args :: u32
  swexn_esp :: u32

record kstate =
  links :: "link link_heap"
  mutex_value :: "mutex_ptr \<Rightarrow> int"
  cond_status :: "cond_ptr \<Rightarrow> int"
  threads :: "addr \<Rightarrow> thread_struct"
  tasks :: "addr \<Rightarrow> task_struct"
  curr_thread :: addr
  sleeping_threads :: "link option"
  init_task :: addr
  idle_task :: addr
  next_tid :: int
  mutex_enable :: bool
  tick_counter :: u32
  int_flag :: bool
  cr3 :: u32
  esp0 :: u32
  esp :: u32
  ebp :: u32
  sem_count :: "addr \<Rightarrow> int"
  sem_valid :: "addr \<Rightarrow> bool"

definition disable_interrupts :: "'a kstate_scheme \<Rightarrow> 'a kstate_scheme" where
  "disable_interrupts s = s\<lparr>int_flag := False\<rparr>"

definition enable_interrupts :: "'a kstate_scheme \<Rightarrow> 'a kstate_scheme" where
  "enable_interrupts s = s\<lparr>int_flag := True\<rparr>"

definition set_cur_pd :: "addr \<Rightarrow> 'a kstate_scheme \<Rightarrow> 'a kstate_scheme" where
  "set_cur_pd pd_addr s = s\<lparr>cr3 := pd_addr\<rparr>"

definition set_esp0 :: "u32 \<Rightarrow> 'a kstate_scheme \<Rightarrow> 'a kstate_scheme" where
  "set_esp0 base s = s\<lparr>esp0 := base\<rparr>"

definition set_status :: "addr \<Rightarrow> thread_status \<Rightarrow> 'a kstate_scheme \<Rightarrow> 'a kstate_scheme" where
  "set_status t st s = s\<lparr>threads := (threads s)(t := (threads s t)\<lparr>status := st\<rparr>)\<rparr>"

definition upd_links :: "(link link_heap \<Rightarrow> link link_heap) \<Rightarrow> 'a kstate_scheme \<Rightarrow> 'a kstate_scheme" where
  "upd_links f s = s\<lparr>links := f (links s)\<rparr>"

named_theorems state_defs \<open>the elementary updates of the kernel state\<close>

lemmas state_update_defs [state_defs] =
  disable_interrupts_def enable_interrupts_def set_cur_pd_def set_esp0_def set_status_def
  upd_links_def

lemma interrupt_fields [simp]:
  "links (disable_interrupts s) = links s" "links (enable_interrupts s) = links s"
  "mutex_value (disable_interrupts s) = mutex_value s"
  "mutex_value (enable_interrupts s) = mutex_value s"
  "cond_status (disable_interrupts s) = cond_status s"
  "cond_status (enable_interrupts s) = cond_status s"
  "threads (disable_interrupts s) = threads s" "threads (enable_interrupts s) = threads s"
  "tasks (disable_interrupts s) = tasks s" "tasks (enable_interrupts s) = tasks s"
  "curr_thread (disable_interrupts s) = curr_thread s"
  "curr_thread (enable_interrupts s) = curr_thread s"
  "sleeping_threads (disable_interrupts s) = sleeping_threads s"
  "sleeping_threads (enable_interrupts s) = sleeping_threads s"
  "idle_task (disable_interrupts s) = idle_task s" "idle_task (enable_interrupts s) = idle_task s"
  "mutex_enable (disable_interrupts s) = mutex_enable s"
  "mutex_enable (enable_interrupts s) = mutex_enable s"
  "tick_counter (disable_interrupts s) = tick_counter s"
  "tick_counter (enable_interrupts s) = tick_counter s"
  "\<not> int_flag (disable_interrupts s)" "int_flag (enable_interrupts s)"
  by (simp_all add: state_defs)

lemma set_status_fields [simp]:
  "links (set_status t st s) = links s" "mutex_value (set_status t st s) = mutex_value s"
  "cond_status (set_status t st s) = cond_status s" "tasks (set_status t st s) = tasks s"
  "curr_thread (set_status t st s) = curr_thread s"
  "sleeping_threads (set_status t st s) = sleeping_threads s"
  "idle_task (set_status t st s) = idle_task s" "mutex_enable (set_status t st s) = mutex_enable s"
  "tick_counter (set_status t st s) = tick_counter s" "int_flag (set_status t st s) = int_flag s"
  "status (threads (set_status t st s) u) = (if u = t then st else status (threads s u))"
  "thr_id (threads (set_status t st s) u) = thr_id (threads s u)"
  "wake_time (threads (set_status t st s) u) = wake_time (threads s u)"
  "parent_task (threads (set_status t st s) u) = parent_task (threads s u)"
  by (simp_all add: state_defs)

section \<open>What a kernel operation can do\<close>

text \<open>
  A kernel routine runs to its end (\<open>Ok\<close>), or gives the processor away in the middle (\<open>Blocked\<close>):
  then the state is the one after the context switch, and the continuation says what the thread does
  when it is switched back to, in whatever state the others have left.  A thread may block for ever,
  so the type is a codatatype.  It stops for good when an assertion fails (\<^verbatim>\<open>thread_assert\<close> kills the
  thread, \<^verbatim>\<open>kernel_assert\<close> halts the machine), when it touches an address that is not mapped, when
  the thread leaves the kernel for ever, and when a loop never ends by itself.
\<close>

datatype 's stop = Panic_thread 's | Panic_kernel 's | Fault u32 's | Exited 's | Endless_loop

codatatype ('a, 's) outcome =
    Ok 'a 's
  | Blocked 's "'s \<Rightarrow> ('a, 's) outcome"
  | Stop "'s stop"

abbreviation Thread_panic :: "'s \<Rightarrow> ('a, 's) outcome" where
  "Thread_panic s \<equiv> Stop (Panic_thread s)"

abbreviation Kernel_panic :: "'s \<Rightarrow> ('a, 's) outcome" where
  "Kernel_panic s \<equiv> Stop (Panic_kernel s)"

abbreviation Page_fault :: "u32 \<Rightarrow> 's \<Rightarrow> ('a, 's) outcome" where
  "Page_fault a s \<equiv> Stop (Fault a s)"

abbreviation Gone :: "'s \<Rightarrow> ('a, 's) outcome" where
  "Gone s \<equiv> Stop (Exited s)"

abbreviation Diverges :: "('a, 's) outcome" where
  "Diverges \<equiv> Stop Endless_loop"

type_synonym ('a, 's) kop = "'s \<Rightarrow> ('a, 's) outcome"

primcorec obind :: "('a, 's) outcome \<Rightarrow> ('a \<Rightarrow> ('b, 's) kop) \<Rightarrow> ('b, 's) outcome" where
  "obind m f = (case m of
      Ok x s \<Rightarrow> f x s
    | Blocked s k \<Rightarrow> Blocked s (\<lambda>s'. obind (k s') f)
    | Stop e \<Rightarrow> Stop e)"

definition kret :: "'a \<Rightarrow> ('a, 's) kop" where
  "kret x = (\<lambda>s. Ok x s)"

definition kbind :: "('a, 's) kop \<Rightarrow> ('a \<Rightarrow> ('b, 's) kop) \<Rightarrow> ('b, 's) kop" where
  "kbind m f = (\<lambda>s. obind (m s) f)"

definition kmodify :: "('s \<Rightarrow> 's) \<Rightarrow> (unit, 's) kop" where
  "kmodify f = (\<lambda>s. Ok () (f s))"

definition kgets :: "('s \<Rightarrow> 'a) \<Rightarrow> ('a, 's) kop" where
  "kgets f = (\<lambda>s. Ok (f s) s)"

fun kseq :: "(unit, 's) kop list \<Rightarrow> (unit, 's) kop" where
  "kseq [] = kret ()"
| "kseq [m] = m"
| "kseq (m # n # ms) = kbind m (\<lambda>_. kseq (n # ms))"

definition thread_assert :: "bool \<Rightarrow> (unit, 's) kop" where
  "thread_assert e = (\<lambda>s. if e then Ok () s else Thread_panic s)"

definition kernel_assert :: "bool \<Rightarrow> (unit, 's) kop" where
  "kernel_assert e = (\<lambda>s. if e then Ok () s else Kernel_panic s)"

text \<open>\<open>kloop\<close> runs a loop that may not end, \<open>None\<close> being that case.\<close>

definition kloop :: "('s \<Rightarrow> ('a \<times> 's) option) \<Rightarrow> ('a, 's) kop" where
  "kloop f = (\<lambda>s. case f s of None \<Rightarrow> Diverges | Some (x, s') \<Rightarrow> Ok x s')"

text \<open>
  \<open>kwhile c b x\<close> is a \<^verbatim>\<open>while\<close> loop whose body may block: \<open>unroll\<close> runs the iterations that do not,
  up to the first one that does.
\<close>

partial_function (option) unroll ::
    "('x \<Rightarrow> 's \<Rightarrow> bool) \<Rightarrow> ('x \<Rightarrow> ('x, 's) kop) \<Rightarrow> ('x, 's) outcome \<Rightarrow> ('x, 's) outcome option" where
  "unroll c b m = (case m of
      Ok x s \<Rightarrow> if c x s then unroll c b (b x s) else Some m
    | Blocked s k \<Rightarrow> Some m
    | Stop e \<Rightarrow> Some m)"

primcorec kwhile_from ::
    "('x \<Rightarrow> 's \<Rightarrow> bool) \<Rightarrow> ('x \<Rightarrow> ('x, 's) kop) \<Rightarrow> ('x, 's) outcome \<Rightarrow> ('x, 's) outcome" where
  "kwhile_from c b m = (case unroll c b m of
      None \<Rightarrow> Diverges
    | Some m' \<Rightarrow> (case m' of
        Ok x s \<Rightarrow> Ok x s
      | Blocked s k \<Rightarrow> Blocked s (\<lambda>s'. kwhile_from c b (k s'))
      | Stop e \<Rightarrow> Stop e))"

definition kwhile :: "('x \<Rightarrow> 's \<Rightarrow> bool) \<Rightarrow> ('x \<Rightarrow> ('x, 's) kop) \<Rightarrow> 'x \<Rightarrow> ('x, 's) kop" where
  "kwhile c b x s = kwhile_from c b (Ok x s)"

text \<open>
  \<open>kfor\<close> runs an operation for every element of a list; \<open>kuntil\<close> stops at the first one that gives a
  result, an early \<^verbatim>\<open>return\<close> in the middle of a loop; \<open>kcheck\<close> goes on only with a successful call.
\<close>

fun kfor :: "'x list \<Rightarrow> ('x \<Rightarrow> (unit, 's) kop) \<Rightarrow> (unit, 's) kop" where
  "kfor [] f = kret ()"
| "kfor (x # xs) f = kbind (f x) (\<lambda>_. kfor xs f)"

fun kuntil :: "'x list \<Rightarrow> ('x \<Rightarrow> ('r option, 's) kop) \<Rightarrow> ('r option, 's) kop" where
  "kuntil [] f = kret None"
| "kuntil (x # xs) f = kbind (f x) (\<lambda>r. case r of None \<Rightarrow> kuntil xs f | Some y \<Rightarrow> kret (Some y))"

definition kcheck :: "(int, 's) kop \<Rightarrow> (int, 's) kop \<Rightarrow> (int, 's) kop" where
  "kcheck m n = kbind m (\<lambda>r. if r < 0 then kret r else n)"

definition kwhen :: "bool \<Rightarrow> (unit, 's) kop \<Rightarrow> (unit, 's) kop" where
  "kwhen b m = (if b then m else kret ())"

definition kthen :: "(unit, 's) kop \<Rightarrow> ('a, 's) kop \<Rightarrow> ('a, 's) kop" where
  "kthen m n = kbind m (\<lambda>_. n)"

text \<open>\<open>kswitch\<close> is a call of a routine that switches to another thread and returns much later.\<close>

definition kswitch :: "('s \<Rightarrow> 's) \<Rightarrow> (unit, 's) kop" where
  "kswitch f = (\<lambda>s. Blocked (f s) (\<lambda>s'. Ok () s'))"

lemma obind_simps [simp]:
  "obind (Ok x s) f = f x s"
  "obind (Blocked s k) f = Blocked s (\<lambda>s'. obind (k s') f)"
  "obind (Stop e) f = Stop e"
  subgoal by (subst obind.code) simp
  subgoal by (subst obind.code) simp
  subgoal by (subst obind.code) simp
  done

lemma obind_assoc: "obind (obind m f) g = obind m (\<lambda>x s. obind (f x s) g)"
proof (coinduction arbitrary: m rule: outcome.coinduct_strong)
  case Eq_outcome
  then show ?case by (cases m) (auto simp: rel_fun_def)
qed

named_theorems kop_defs \<open>the combinators of kernel operations\<close>

lemmas kop_combinator_defs [kop_defs] =
  kret_def kbind_def kmodify_def kgets_def thread_assert_def kernel_assert_def kswitch_def
  kloop_def kcheck_def kwhen_def kthen_def

lemma obind_Ok_iff:
  "obind m f = Ok y t \<longleftrightarrow> (\<exists>x s'. m = Ok x s' \<and> f x s' = Ok y t)"
  by (cases m) auto

lemma kbind_Ok_iff:
  "kbind m f s = Ok y t \<longleftrightarrow> (\<exists>x s'. m s = Ok x s' \<and> f x s' = Ok y t)"
  by (simp add: kbind_def obind_Ok_iff)

lemma kwhile_from_simps:
  "kwhile_from c b (Ok x s) = (if c x s then kwhile_from c b (b x s) else Ok x s)"
  "kwhile_from c b (Blocked s k) = Blocked s (\<lambda>s'. kwhile_from c b (k s'))"
  "kwhile_from c b (Stop e) = Stop e"
  subgoal by (subst (1 2) kwhile_from.code, subst unroll.simps) simp
  subgoal by (subst kwhile_from.code, subst unroll.simps) simp
  subgoal by (subst kwhile_from.code, subst unroll.simps) simp
  done

lemma kwhile_from_obind: "kwhile_from c b m = obind m (kwhile c b)"
proof (coinduction arbitrary: m rule: outcome.coinduct_strong)
  case Eq_outcome
  then show ?case
    by (cases m) (auto simp: kwhile_from_simps kwhile_def rel_fun_def)
qed

lemma kwhile_unfold:
  "kwhile c b x s = (if c x s then kbind (b x) (kwhile c b) s else Ok x s)"
  by (simp add: kwhile_def kwhile_from_simps kbind_def kwhile_from_obind [symmetric])

section \<open>Completion\<close>

text \<open>
  An operation that blocks is resumed in a state other threads have changed.  \<open>completes R m x s\<close> says that
  it can return \<open>x\<close> in the state \<open>s\<close> when every such change is in \<open>R\<close>.
\<close>

inductive completes :: "('s \<Rightarrow> 's \<Rightarrow> bool) \<Rightarrow> ('a, 's) outcome \<Rightarrow> 'a \<Rightarrow> 's \<Rightarrow> bool" for R where
  completes_Ok: "completes R (Ok x s) x s"
| completes_Blocked: "R s s' \<Longrightarrow> completes R (k s') x s'' \<Longrightarrow> completes R (Blocked s k) x s''"

lemma completes_obind:
  "completes R m x s \<Longrightarrow> completes R (f x s) y t \<Longrightarrow> completes R (obind m f) y t"
  by (induction rule: completes.induct) (auto intro: completes_Blocked)

section \<open>Rings of kernel structures\<close>

text \<open>
  The members of a ring are linked through the member the head is declared for: the run queue
  through \<^verbatim>\<open>runq_link\<close>, the waiters of a mutex through \<^verbatim>\<open>mutex_link\<close> and so on.  \<open>ring_of h q xs\<close>
  says that the ring with head \<open>q\<close> holds the structures \<open>xs\<close>, in order.
\<close>

fun is_head :: "link_name \<Rightarrow> bool" where
  "is_head Runnable_threads = True"
| "is_head Sleeping_threads = True"
| "is_head Thread_map = True"
| "is_head Thread_head = True"
| "is_head Child_task_head = True"
| "is_head Dead_child_head = True"
| "is_head (Mutex_waiting _) = True"
| "is_head (Cond_waiting _) = True"
| "is_head _ = False"

fun member_link :: "link_name \<Rightarrow> link_name" where
  "member_link Runnable_threads = Runq_link"
| "member_link Sleeping_threads = Sleepq_link"
| "member_link Thread_map = Thread_map_link"
| "member_link Thread_head = Task_thread_link"
| "member_link Child_task_head = Child_task_link"
| "member_link Dead_child_head = Dead_child_link"
| "member_link (Mutex_waiting _) = Mutex_link"
| "member_link (Cond_waiting _) = Cond_wait_link"
| "member_link _ = Runq_link"

abbreviation link_of :: "link \<Rightarrow> addr \<Rightarrow> link" where
  "link_of q x \<equiv> (member_link (fst q), x)"

definition ring_of :: "link link_heap \<Rightarrow> link \<Rightarrow> addr list \<Rightarrow> bool" where
  "ring_of h q xs \<longleftrightarrow> is_head (fst q) \<and> dlist h q (map (link_of q) xs)"

lemma member_link_not_head [simp]: "\<not> is_head (member_link nm)"
  by (cases nm) auto

lemma link_of_neq_head: "is_head (fst r) \<Longrightarrow> link_of q x \<noteq> r"
  by (cases r) (auto dest: arg_cong [of _ _ is_head])

lemma link_waiting [simp]:
  "is_head (fst (waiting_of_mutex mp))" "is_head (fst (waiting_of_cond cv))"
  "member_link (fst (waiting_of_mutex mp)) = Mutex_link"
  "member_link (fst (waiting_of_cond cv)) = Cond_wait_link"
  by (simp_all add: waiting_of_mutex_def waiting_of_cond_def)

lemma waiting_of_eq [simp]:
  "waiting_of_mutex mp = waiting_of_mutex mp' \<longleftrightarrow> mp = mp'"
  "waiting_of_cond cv = waiting_of_cond cv' \<longleftrightarrow> cv = cv'"
  "waiting_of_mutex mp \<noteq> waiting_of_cond cv" "waiting_of_cond cv \<noteq> waiting_of_mutex mp"
  "waiting_of_mutex mp \<noteq> runnable_threads" "waiting_of_cond cv \<noteq> runnable_threads"
  "waiting_of_mutex mp \<noteq> sleeping_head" "waiting_of_cond cv \<noteq> sleeping_head"
  "runnable_threads \<noteq> waiting_of_mutex mp" "runnable_threads \<noteq> waiting_of_cond cv"
  "sleeping_head \<noteq> waiting_of_mutex mp" "sleeping_head \<noteq> waiting_of_cond cv"
  by (auto simp: waiting_of_mutex_def waiting_of_cond_def prod_eq_iff)

lemma ring_of_distinct: "ring_of h q xs \<Longrightarrow> distinct xs"
  unfolding ring_of_def by (auto dest!: dlist_distinct simp: distinct_map)

lemma ring_of_first:
  "ring_of h q xs \<Longrightarrow> get_first q h = (case xs of [] \<Rightarrow> None | x # _ \<Rightarrow> Some (link_of q x))"
  unfolding ring_of_def by (cases xs) (auto dest!: dlist_first)

lemma ring_of_unique: "ring_of h q xs \<Longrightarrow> ring_of h q ys \<Longrightarrow> xs = ys"
  using dlist_unique [of h q "map (link_of q) xs" "map (link_of q) ys"]
  by (auto simp: ring_of_def comp_def dest: arg_cong [of _ _ "map snd"])

lemma ring_of_next:
  "ring_of h q (x # xs) \<Longrightarrow> nxt h (link_of q x) = (case xs of [] \<Rightarrow> q | y # _ \<Rightarrow> link_of q y)"
  by (cases xs) (auto simp: ring_of_def dlist_def)

lemma ring_of_init: "is_head (fst q) \<Longrightarrow> ring_of (init_head q h) q []"
  by (simp add: ring_of_def dlist_init)

lemma ring_of_init_frame:
  assumes "ring_of h r ys" "is_head (fst q)" "q \<noteq> r"
  shows "ring_of (init_head q h) r ys"
proof -
  have n: "q \<notin> set (r # map (link_of r) ys)"
    using assms link_of_neq_head by (auto simp: ring_of_def)
  have "dlist h r (map (link_of r) ys)" using assms by (simp add: ring_of_def)
  then have "dlist (init_head q h) r (map (link_of r) ys)"
    by (rule dlist_frame) (use n in \<open>auto simp: link_defs\<close>)
  then show ?thesis using assms(1) by (simp add: ring_of_def)
qed

lemma ring_of_add:
  assumes "ring_of h q xs" "x \<notin> set xs"
  shows "ring_of (add_to_tail (link_of q x) q h) q (xs @ [x])"
proof -
  have "link_of q x \<noteq> q" using assms link_of_neq_head by (simp add: ring_of_def)
  then have "dlist (add_to_tail (link_of q x) q h) q (map (link_of q) xs @ [link_of q x])"
    by (intro klist.ring_push_back) (use assms in \<open>auto simp: ring_of_def\<close>)
  then show ?thesis using assms by (simp add: ring_of_def)
qed

lemma ring_of_del:
  assumes "ring_of h q (xs @ x # ys)"
  shows "ring_of (del_entry (link_of q x) h) q (xs @ ys)"
  using assms klist.ring_unlink [of h q "map (link_of q) xs" "link_of q x" "map (link_of q) ys"]
  by (simp add: ring_of_def)

lemma ring_of_del_first:
  "ring_of h q (x # ys) \<Longrightarrow> ring_of (del_entry (link_of q x) h) q ys"
  using ring_of_del [of h q "[]" x ys] by simp

lemma ring_nodes_disjoint:
  assumes "is_head (fst q)" "is_head (fst r)" "q \<noteq> r"
    "member_link (fst q) = member_link (fst r) \<Longrightarrow> set xs \<inter> set ys = {}"
  shows "set (q # map (link_of q) xs) \<inter> set (r # map (link_of r) ys) = {}"
proof -
  have "link_of q x \<noteq> r" "link_of r y \<noteq> q" for x y
    using assms(1,2) link_of_neq_head by simp_all
  moreover have "link_of q x \<noteq> link_of r y" if "x \<in> set xs" "y \<in> set ys" for x y
    using assms(4) that by auto
  ultimately show ?thesis using assms(3) by auto
qed

lemma ring_of_add_frame:
  assumes q: "ring_of h q xs" and r: "ring_of h r ys" and "q \<noteq> r"
    and disj: "member_link (fst q) = member_link (fst r) \<Longrightarrow> set xs \<inter> set ys = {} \<and> x \<notin> set ys"
  shows "ring_of (add_to_tail (link_of q x) q h) r ys"
proof -
  have "dlist (add_to_tail (link_of q x) q h) r (map (link_of r) ys)"
  proof (rule klist.ring_push_back_frame)
    show "dlist h q (map (link_of q) xs)" "dlist h r (map (link_of r) ys)"
      using q r by (simp_all add: ring_of_def)
    have "link_of q x \<noteq> r" using r link_of_neq_head by (simp add: ring_of_def)
    then show "link_of q x \<notin> set (r # map (link_of r) ys)" using disj by auto
    show "set (q # map (link_of q) xs) \<inter> set (r # map (link_of r) ys) = {}"
      by (rule ring_nodes_disjoint) (use assms in \<open>auto simp: ring_of_def\<close>)
  qed
  then show ?thesis using r by (simp add: ring_of_def)
qed

lemma ring_of_del_frame:
  assumes q: "ring_of h q (xs @ x # zs)" and r: "ring_of h r ys" and "q \<noteq> r"
    and disj: "member_link (fst q) = member_link (fst r) \<Longrightarrow> set (xs @ x # zs) \<inter> set ys = {}"
  shows "ring_of (del_entry (link_of q x) h) r ys"
proof -
  have "set (q # map (link_of q) (xs @ x # zs)) \<inter> set (r # map (link_of r) ys) = {}"
    by (rule ring_nodes_disjoint) (use assms in \<open>auto simp: ring_of_def\<close>)
  then have "dlist (del_entry (link_of q x) h) r (map (link_of r) ys)"
    using klist.ring_unlink_frame [of h q "map (link_of q) xs" "link_of q x" "map (link_of q) zs" r
        "map (link_of r) ys"] q r
    by (simp add: ring_of_def)
  then show ?thesis using r by (simp add: ring_of_def)
qed

text \<open>
  An operation on the rings of one member leaves the rings of all other members alone; \<open>keeps N\<close>
  collects what is known about the members outside \<open>N\<close>.
\<close>

definition keeps_rings :: "link_name set \<Rightarrow> link link_heap \<Rightarrow> link link_heap \<Rightarrow> bool" where
  "keeps_rings N h h' \<longleftrightarrow>
     (\<forall>r ys. ring_of h r ys \<longrightarrow> member_link (fst r) \<notin> N \<longrightarrow> ring_of h' r ys)"

lemma keeps_rings_refl [simp]: "keeps_rings N h h"
  by (simp add: keeps_rings_def)

lemma keeps_rings_trans: "keeps_rings N h h' \<Longrightarrow> keeps_rings N h' h'' \<Longrightarrow> keeps_rings N h h''"
  by (simp add: keeps_rings_def)

lemma keeps_rings_mono: "keeps_rings N h h' \<Longrightarrow> N \<subseteq> M \<Longrightarrow> keeps_rings M h h'"
  by (auto simp: keeps_rings_def)

lemma keeps_ringsD:
  "keeps_rings N h h' \<Longrightarrow> ring_of h r ys \<Longrightarrow> member_link (fst r) \<notin> N \<Longrightarrow> ring_of h' r ys"
  unfolding keeps_rings_def by blast

lemma keeps_rings_add:
  "ring_of h q xs \<Longrightarrow> keeps_rings {member_link (fst q)} h (add_to_tail (link_of q x) q h)"
  unfolding keeps_rings_def by (intro allI impI, rule ring_of_add_frame) auto

lemma keeps_rings_del:
  "ring_of h q (xs @ x # zs) \<Longrightarrow> keeps_rings {member_link (fst q)} h (del_entry (link_of q x) h)"
  unfolding keeps_rings_def by (intro allI impI, rule ring_of_del_frame) auto

lemma keeps_rings_del_first:
  "ring_of h q (x # zs) \<Longrightarrow> keeps_rings {member_link (fst q)} h (del_entry (link_of q x) h)"
  using keeps_rings_del [of h q "[]" x zs] by simp

end
