(* ===== verification/Scheduler.thy ===== *)
theory Scheduler
  imports Kernel_State
begin

text \<open>
  The scheduler: \<^verbatim>\<open>kern/core/scheduler.c\<close>, the sleep queue lookup of \<^verbatim>\<open>kern/core/sleep.c\<close> and the
  context switch of \<^verbatim>\<open>kern/core/context.c\<close>.  The run queue and the sleep queue are rings of link
  nodes; \<open>runq s rq\<close> and \<open>sleepq s sq\<close> name the threads they hold.
\<close>

section \<open>The code\<close>

definition total_ticks :: "'a kstate_scheme \<Rightarrow> u32" where
  "total_ticks s = tick_counter s"

definition get_sleeping_thread :: "'a kstate_scheme \<Rightarrow> addr \<times> 'a kstate_scheme" where
  "get_sleeping_thread s =
     (case sleeping_threads s of
        None \<Rightarrow> (0, s)
      | Some head \<Rightarrow>
          (case get_first head (links s) of
             None \<Rightarrow> (0, s)
           | Some thr_entry \<Rightarrow>
               (let curr_ticks = sint (total_ticks s); t = get_entry thr_entry
                in if wake_time (threads s t) < curr_ticks
                   then (t, upd_links (del_entry (Sleepq_link, t)) s)
                   else (0, s))))"

definition runq_get_head :: "'a kstate_scheme \<Rightarrow> addr \<times> 'a kstate_scheme" where
  "runq_get_head s =
     (case get_first runnable_threads (links s) of
        None \<Rightarrow> (0, s)
      | Some head \<Rightarrow> (get_entry head, upd_links (del_entry head) s))"

definition next_thread :: "'a kstate_scheme \<Rightarrow> addr \<times> 'a kstate_scheme" where
  "next_thread s =
     (let (sleeping_thread, s) = get_sleeping_thread s
      in if sleeping_thread \<noteq> 0 then (sleeping_thread, s)
         else runq_get_head s)"

definition runq_add_thread_interruptible :: "addr \<Rightarrow> 'a kstate_scheme \<Rightarrow> 'a kstate_scheme" where
  "runq_add_thread_interruptible t s = upd_links (add_to_tail (Runq_link, t) runnable_threads) s"

definition runq_add_thread :: "addr \<Rightarrow> 'a kstate_scheme \<Rightarrow> 'a kstate_scheme" where
  "runq_add_thread t s =
     enable_interrupts (runq_add_thread_interruptible t (disable_interrupts s))"

definition get_curr_thread :: "'a kstate_scheme \<Rightarrow> addr" where
  "get_curr_thread s = curr_thread s"

definition get_curr_task :: "'a kstate_scheme \<Rightarrow> addr" where
  "get_curr_task s = parent_task (threads s (curr_thread s))"

definition set_running_thread :: "addr \<Rightarrow> 'a kstate_scheme \<Rightarrow> 'a kstate_scheme" where
  "set_running_thread t s = s\<lparr>curr_thread := t\<rparr>"

text \<open>
  \<open>update_stack\<close> and \<open>update_stack_single\<close> are the register switches of \<^verbatim>\<open>kern/asm/asm.S\<close>; their
  arguments are read before the current registers are saved.
\<close>

definition update_stack :: "u32 \<Rightarrow> u32 \<Rightarrow> addr \<Rightarrow> 'a kstate_scheme \<Rightarrow> 'a kstate_scheme" where
  "update_stack new_esp new_ebp cur s =
     s\<lparr>threads := (threads s)(cur := (threads s cur)\<lparr>cur_ebp := ebp s, cur_esp := esp s\<rparr>),
       ebp := new_ebp, esp := new_esp\<rparr>"

definition update_stack_single :: "u32 \<Rightarrow> u32 \<Rightarrow> 'a kstate_scheme \<Rightarrow> 'a kstate_scheme" where
  "update_stack_single new_esp new_ebp s = s\<lparr>ebp := new_ebp, esp := new_esp\<rparr>"

definition switch_to_thread :: "addr \<Rightarrow> addr \<Rightarrow> 'a kstate_scheme \<Rightarrow> 'a kstate_scheme" where
  "switch_to_thread cur next s =
     (if next = 0 then s
      else let s = set_cur_pd (pdbr (tasks s (parent_task (threads s next)))) s;
               s = set_esp0 (k_stack_base (threads s next)) s;
               s = set_running_thread next s;
               s = set_status next RUNNING s
           in if cur \<noteq> 0
              then update_stack (cur_esp (threads s next)) (cur_ebp (threads s next)) cur s
              else update_stack_single (cur_esp (threads s next)) (cur_ebp (threads s next)) s)"

definition get_init_task :: "'a kstate_scheme \<Rightarrow> addr" where
  "get_init_task s = init_task s"

definition get_idle_task :: "'a kstate_scheme \<Rightarrow> addr" where
  "get_idle_task s = idle_task s"

definition idle_thread :: "'a kstate_scheme \<Rightarrow> addr" where
  "idle_thread s = thr (tasks s (get_idle_task s))"

definition context_switch :: "'a kstate_scheme \<Rightarrow> 'a kstate_scheme" where
  "context_switch s =
     (let s = disable_interrupts s;
          idle = idle_thread s;
          (t, s) = next_thread s;
          cur = get_curr_thread s
      in if t = 0 \<and> cur \<noteq> 0 \<and>
            (thr_id (threads s cur) = thr_id (threads s idle) \<or> status (threads s cur) = RUNNING)
         then enable_interrupts s
         else let t = (if t = 0 then idle else t);
                  s = (if cur \<noteq> 0 \<and> status (threads s cur) = RUNNING \<and>
                          thr_id (threads s cur) \<noteq> thr_id (threads s idle)
                       then runq_add_thread_interruptible cur (set_status cur RUNNABLE s)
                       else s)
              in enable_interrupts (switch_to_thread cur t s))"

section \<open>The queues as lists of threads\<close>

definition runq :: "'a kstate_scheme \<Rightarrow> addr list \<Rightarrow> bool" where
  "runq s rq \<longleftrightarrow> ring_of (links s) runnable_threads rq"

definition sleepq :: "'a kstate_scheme \<Rightarrow> addr list \<Rightarrow> bool" where
  "sleepq s sq \<longleftrightarrow> sleeping_threads s = Some sleeping_head \<and> ring_of (links s) sleeping_head sq"

definition due :: "'a kstate_scheme \<Rightarrow> addr \<Rightarrow> bool" where
  "due s t \<longleftrightarrow> wake_time (threads s t) < sint (tick_counter s)"

lemmas queue_defs = runq_def sleepq_def

lemma runq_add:
  assumes "runq s rq" "t \<notin> set rq"
  shows "runq (runq_add_thread_interruptible t s) (rq @ [t])"
  using ring_of_add [OF assms [unfolded runq_def]]
  by (simp add: runq_def runq_add_thread_interruptible_def upd_links_def)

lemma runq_add_keeps:
  assumes "runq s rq"
  shows "keeps_rings {Runq_link} (links s) (links (runq_add_thread_interruptible t s))"
  using keeps_rings_add [of "links s" runnable_threads rq t] assms
  by (simp add: runq_def runq_add_thread_interruptible_def upd_links_def)

lemma runq_add_fields [simp]:
  "threads (runq_add_thread_interruptible t s) = threads s"
  "tasks (runq_add_thread_interruptible t s) = tasks s"
  "curr_thread (runq_add_thread_interruptible t s) = curr_thread s"
  "sleeping_threads (runq_add_thread_interruptible t s) = sleeping_threads s"
  "tick_counter (runq_add_thread_interruptible t s) = tick_counter s"
  "idle_task (runq_add_thread_interruptible t s) = idle_task s"
  "mutex_value (runq_add_thread_interruptible t s) = mutex_value s"
  "mutex_enable (runq_add_thread_interruptible t s) = mutex_enable s"
  "int_flag (runq_add_thread_interruptible t s) = int_flag s"
  by (simp_all add: runq_add_thread_interruptible_def upd_links_def)

text \<open>
  What \<^verbatim>\<open>next_thread\<close> picks: the first sleeper if it is due, else the head of the run queue, else
  nothing.  It changes the links only, and of them only the queue it took the thread from.
\<close>

definition picks :: "'a kstate_scheme \<Rightarrow> addr list \<Rightarrow> addr list \<Rightarrow> addr \<times> addr list \<times> addr list" where
  "picks s rq sq =
     (if sq \<noteq> [] \<and> due s (hd sq) then (hd sq, rq, tl sq)
      else if rq \<noteq> [] then (hd rq, tl rq, sq)
      else (0, rq, sq))"

lemma next_thread_picks:
  assumes rq: "runq s rq" and sq: "sleepq s sq" and "0 \<notin> set sq" and p: "picks s rq sq = (t, rq', sq')"
  shows "\<exists>l. next_thread s = (t, s\<lparr>links := l\<rparr>) \<and>
    ring_of l runnable_threads rq' \<and> ring_of l sleeping_head sq' \<and>
    keeps_rings {Runq_link, Sleepq_link} (links s) l"
proof -
  note rqr = rq [unfolded runq_def]
  have sqr: "ring_of (links s) sleeping_head sq" and st: "sleeping_threads s = Some sleeping_head"
    using sq by (auto simp: sleepq_def)
  consider (sleeper) x xs where "sq = x # xs" "due s x"
    | (head) x xs where "rq = x # xs" "\<not> (sq \<noteq> [] \<and> due s (hd sq))"
    | (none) "rq = []" "\<not> (sq \<noteq> [] \<and> due s (hd sq))"
    by (cases sq; cases rq; auto)
  then show ?thesis
  proof cases
    case sleeper
    let ?l = "del_entry (Sleepq_link, x) (links s)"
    have "next_thread s = (x, s\<lparr>links := ?l\<rparr>)"
      using sleeper assms(3) by (auto simp: next_thread_def get_sleeping_thread_def st
          ring_of_first [OF sqr] get_entry_def due_def total_ticks_def upd_links_def)
    moreover have "keeps_rings {Sleepq_link} (links s) ?l"
      using keeps_rings_del_first [OF sqr [unfolded sleeper(1)]] by simp
    moreover from this have "ring_of ?l runnable_threads rq"
      by (rule keeps_ringsD [OF _ rqr]) simp
    moreover have "ring_of ?l sleeping_head xs"
      using ring_of_del_first [OF sqr [unfolded sleeper(1)]] by simp
    ultimately show ?thesis using p sleeper
      by (intro exI [of _ ?l]) (auto simp: picks_def intro: keeps_rings_mono)
  next
    case head
    let ?l = "del_entry (Runq_link, x) (links s)"
    have "get_sleeping_thread s = (0, s)"
      using head(2) by (cases sq) (simp_all add: get_sleeping_thread_def st ring_of_first [OF sqr]
          get_entry_def due_def total_ticks_def)
    then have "next_thread s = (x, s\<lparr>links := ?l\<rparr>)"
      using head by (simp add: next_thread_def runq_get_head_def ring_of_first [OF rqr]
          get_entry_def upd_links_def)
    moreover have "keeps_rings {Runq_link} (links s) ?l"
      using keeps_rings_del_first [OF rqr [unfolded head(1)]] by simp
    moreover from this have "ring_of ?l sleeping_head sq"
      by (rule keeps_ringsD [OF _ sqr]) simp
    moreover have "ring_of ?l runnable_threads xs"
      using ring_of_del_first [OF rqr [unfolded head(1)]] by simp
    ultimately show ?thesis using p head
      by (intro exI [of _ ?l]) (auto simp: picks_def intro: keeps_rings_mono)
  next
    case none
    have "get_sleeping_thread s = (0, s)"
      using none(2) by (cases sq) (simp_all add: get_sleeping_thread_def st ring_of_first [OF sqr]
          get_entry_def due_def total_ticks_def)
    then have "next_thread s = (0, s)"
      using none by (simp add: next_thread_def runq_get_head_def ring_of_first [OF rqr])
    with none p rqr sqr show ?thesis by (intro exI [of _ "links s"]) (auto simp: picks_def)
  qed
qed

section \<open>The context switch refines an abstract scheduler\<close>

definition live :: "'a kstate_scheme \<Rightarrow> addr list \<Rightarrow> addr list \<Rightarrow> addr set" where
  "live s rq sq = insert (curr_thread s) (set rq \<union> set sq) - {0}"

definition sched_inv :: "'a kstate_scheme \<Rightarrow> addr list \<Rightarrow> addr list \<Rightarrow> bool" where
  "sched_inv s rq sq \<longleftrightarrow>
     runq s rq \<and> sleepq s sq \<and> set rq \<inter> set sq = {} \<and> 0 \<notin> set rq \<union> set sq \<and>
     idle_thread s \<noteq> 0 \<and> idle_thread s \<notin> set rq \<union> set sq \<and> curr_thread s \<notin> set rq \<and>
     (\<forall>t \<in> set rq. status (threads s t) = RUNNABLE) \<and>
     (\<forall>t \<in> set sq. status (threads s t) = WAITING) \<and>
     (\<forall>t \<in> live s rq sq. thr_id (threads s t) = thr_id (threads s (idle_thread s)) \<longrightarrow>
        t = idle_thread s)"

text \<open>
  The abstract scheduler: a due sleeper first, then the queue in order; a thread that was running
  goes to the end of the queue; with nobody to run the processor stays where it is or goes idle.
\<close>

definition requeued :: "'a kstate_scheme \<Rightarrow> addr list" where
  "requeued s =
     (if curr_thread s \<noteq> 0 \<and> status (threads s (curr_thread s)) = RUNNING \<and>
         curr_thread s \<noteq> idle_thread s
      then [curr_thread s] else [])"

definition stays :: "'a kstate_scheme \<Rightarrow> addr \<Rightarrow> bool" where
  "stays s t \<longleftrightarrow> t = 0 \<and> curr_thread s \<noteq> 0 \<and>
     (curr_thread s = idle_thread s \<or> status (threads s (curr_thread s)) = RUNNING)"

definition abs_switch :: "'a kstate_scheme \<Rightarrow> addr list \<Rightarrow> addr list \<Rightarrow> addr \<times> addr list \<times> addr list" where
  "abs_switch s rq sq =
     (let (t, rq', sq') = picks s rq sq
      in if stays s t then (curr_thread s, rq', sq')
         else (if t = 0 then idle_thread s else t, rq' @ requeued s, sq'))"

definition switched_status :: "'a kstate_scheme \<Rightarrow> addr list \<Rightarrow> addr list \<Rightarrow> addr \<Rightarrow> thread_status" where
  "switched_status s rq sq u =
     (let t = fst (picks s rq sq)
      in if stays s t then status (threads s u)
         else if u = (if t = 0 then idle_thread s else t) then RUNNING
         else if u \<in> set (requeued s) then RUNNABLE
         else status (threads s u))"

lemma picks_links_irrelevant [simp]:
  "picks (s\<lparr>links := l\<rparr>) rq sq = picks s rq sq"
  "picks (disable_interrupts s) rq sq = picks s rq sq"
  by (simp_all add: picks_def due_def disable_interrupts_def)

lemma idle_thread_update [simp]:
  "idle_thread (s\<lparr>links := l\<rparr>) = idle_thread s"
  "idle_thread (disable_interrupts s) = idle_thread s"
  "idle_thread (enable_interrupts s) = idle_thread s"
  "idle_thread (runq_add_thread_interruptible t s) = idle_thread s"
  "idle_thread (set_status t st s) = idle_thread s"
  by (simp_all add: idle_thread_def get_idle_task_def state_defs)

lemma switch_to_thread_fields:
  assumes "next \<noteq> 0"
  shows "links (switch_to_thread cur next s) = links s"
    "curr_thread (switch_to_thread cur next s) = next"
    "tasks (switch_to_thread cur next s) = tasks s"
    "sleeping_threads (switch_to_thread cur next s) = sleeping_threads s"
    "tick_counter (switch_to_thread cur next s) = tick_counter s"
    "idle_task (switch_to_thread cur next s) = idle_task s"
    "mutex_value (switch_to_thread cur next s) = mutex_value s"
    "mutex_enable (switch_to_thread cur next s) = mutex_enable s"
    "status (threads (switch_to_thread cur next s) t) = (if t = next then RUNNING else status (threads s t))"
    "thr_id (threads (switch_to_thread cur next s) t) = thr_id (threads s t)"
    "wake_time (threads (switch_to_thread cur next s) t) = wake_time (threads s t)"
    "parent_task (threads (switch_to_thread cur next s) t) = parent_task (threads s t)"
    "cr3 (switch_to_thread cur next s) = pdbr (tasks s (parent_task (threads s next)))"
    "esp0 (switch_to_thread cur next s) = k_stack_base (threads s next)"
  using assms
  by (simp_all add: switch_to_thread_def Let_def state_defs set_running_thread_def update_stack_def
      update_stack_single_def)

text \<open>The switch as one equation: which of its ends it takes, by the abstract choice.\<close>

definition before_switch :: "link link_heap \<Rightarrow> 'a kstate_scheme \<Rightarrow> 'a kstate_scheme" where
  "before_switch l s =
     (let s' = (disable_interrupts s)\<lparr>links := l\<rparr>
      in if requeued s = [] then s'
         else runq_add_thread_interruptible (curr_thread s) (set_status (curr_thread s) RUNNABLE s'))"

lemma context_switch_eq:
  assumes inv: "sched_inv s rq sq" and p: "picks s rq sq = (t, rq', sq')"
  shows "\<exists>l. ring_of l runnable_threads rq' \<and> ring_of l sleeping_head sq' \<and>
    keeps_rings {Runq_link, Sleepq_link} (links s) l \<and>
    context_switch s = enable_interrupts
       (if stays s t then (disable_interrupts s)\<lparr>links := l\<rparr>
        else switch_to_thread (curr_thread s) (if t = 0 then idle_thread s else t)
          (before_switch l s))"
proof -
  have "runq (disable_interrupts s) rq" "sleepq (disable_interrupts s) sq" "0 \<notin> set sq"
    "picks (disable_interrupts s) rq sq = (t, rq', sq')" "links (disable_interrupts s) = links s"
    using inv p by (simp_all add: sched_inv_def queue_defs)
  from next_thread_picks [OF this(1-4)] this(5) obtain l where
    l: "next_thread (disable_interrupts s) = (t, (disable_interrupts s)\<lparr>links := l\<rparr>)"
    and r: "ring_of l runnable_threads rq'" "ring_of l sleeping_head sq'"
      "keeps_rings {Runq_link, Sleepq_link} (links s) l"
    by auto
  have ids: "thr_id (threads s (curr_thread s)) = thr_id (threads s (idle_thread s)) \<longleftrightarrow>
      curr_thread s = idle_thread s" if "curr_thread s \<noteq> 0"
    using inv that by (auto simp: sched_inv_def live_def)
  have "context_switch s = enable_interrupts
       (if stays s t then (disable_interrupts s)\<lparr>links := l\<rparr>
        else switch_to_thread (curr_thread s) (if t = 0 then idle_thread s else t)
          (before_switch l s))"
    using ids by (auto simp: context_switch_def l Let_def get_curr_thread_def requeued_def
        stays_def before_switch_def)
  with r show ?thesis by blast
qed

lemma before_switch_rings:
  assumes "ring_of l runnable_threads rq" "ring_of l sleeping_head sq" "curr_thread s \<notin> set rq"
  shows "ring_of (links (before_switch l s)) runnable_threads (rq @ requeued s)"
    "ring_of (links (before_switch l s)) sleeping_head sq"
    "keeps_rings {Runq_link} l (links (before_switch l s))"
proof -
  let ?h = "links (before_switch l s)"
  have h: "?h = (if requeued s = [] then l else add_to_tail (Runq_link, curr_thread s) runnable_threads l)"
    by (simp add: before_switch_def Let_def runq_add_thread_interruptible_def upd_links_def)
  show "keeps_rings {Runq_link} l ?h"
    using keeps_rings_add [OF assms(1), of "curr_thread s"] by (simp add: h)
  then show "ring_of ?h sleeping_head sq" by (rule keeps_ringsD [OF _ assms(2)]) simp
  show "ring_of ?h runnable_threads (rq @ requeued s)"
    using ring_of_add [OF assms(1,3)] assms(1) by (simp add: h) (simp add: requeued_def)
qed

lemma before_switch_fields [simp]:
  "tasks (before_switch l s) = tasks s" "curr_thread (before_switch l s) = curr_thread s"
  "sleeping_threads (before_switch l s) = sleeping_threads s"
  "idle_task (before_switch l s) = idle_task s" "mutex_value (before_switch l s) = mutex_value s"
  "mutex_enable (before_switch l s) = mutex_enable s" "tick_counter (before_switch l s) = tick_counter s"
  "thr_id (threads (before_switch l s) u) = thr_id (threads s u)"
  "wake_time (threads (before_switch l s) u) = wake_time (threads s u)"
  "parent_task (threads (before_switch l s) u) = parent_task (threads s u)"
  "status (threads (before_switch l s) u) =
     (if u \<in> set (requeued s) then RUNNABLE else status (threads s u))"
  by (simp_all add: before_switch_def Let_def requeued_def)

lemma context_switch_effect:
  assumes inv: "sched_inv s rq sq" and a: "abs_switch s rq sq = (c, rq', sq')"
  shows "runq (context_switch s) rq'" "sleepq (context_switch s) sq'"
    "curr_thread (context_switch s) = c" "int_flag (context_switch s)"
    "keeps_rings {Runq_link, Sleepq_link} (links s) (links (context_switch s))"
    "tasks (context_switch s) = tasks s" "idle_task (context_switch s) = idle_task s"
    "mutex_value (context_switch s) = mutex_value s"
    "mutex_enable (context_switch s) = mutex_enable s"
    "tick_counter (context_switch s) = tick_counter s"
    "thr_id (threads (context_switch s) u) = thr_id (threads s u)"
    "wake_time (threads (context_switch s) u) = wake_time (threads s u)"
    "parent_task (threads (context_switch s) u) = parent_task (threads s u)"
    "status (threads (context_switch s) u) = switched_status s rq sq u"
proof -
  obtain t rq1 sq1 where p: "picks s rq sq = (t, rq1, sq1)" by (cases "picks s rq sq") auto
  from context_switch_eq [OF inv p] obtain l where
    l: "ring_of l runnable_threads rq1" "ring_of l sleeping_head sq1"
      "keeps_rings {Runq_link, Sleepq_link} (links s) l"
    and e: "context_switch s = enable_interrupts
       (if stays s t then (disable_interrupts s)\<lparr>links := l\<rparr>
        else switch_to_thread (curr_thread s) (if t = 0 then idle_thread s else t)
          (before_switch l s))"
    by blast
  have st: "sleeping_threads s = Some sleeping_head" and n0: "idle_thread s \<noteq> 0"
    using inv by (simp_all add: sched_inv_def sleepq_def)
  have "set rq1 \<subseteq> set rq" using p by (auto simp: picks_def split: if_splits dest: list.set_sel)
  then have "curr_thread s \<notin> set rq1" using inv by (auto simp: sched_inv_def)
  note b = before_switch_rings [OF l(1,2) this]
  have k: "keeps_rings {Runq_link, Sleepq_link} (links s) (links (before_switch l s))"
    by (rule keeps_rings_trans [OF l(3)], rule keeps_rings_mono [OF b(3)]) simp
  show "runq (context_switch s) rq'" "sleepq (context_switch s) sq'"
    "curr_thread (context_switch s) = c" "int_flag (context_switch s)"
    "keeps_rings {Runq_link, Sleepq_link} (links s) (links (context_switch s))"
    "tasks (context_switch s) = tasks s" "idle_task (context_switch s) = idle_task s"
    "mutex_value (context_switch s) = mutex_value s"
    "mutex_enable (context_switch s) = mutex_enable s"
    "tick_counter (context_switch s) = tick_counter s"
    "thr_id (threads (context_switch s) u) = thr_id (threads s u)"
    "wake_time (threads (context_switch s) u) = wake_time (threads s u)"
    "parent_task (threads (context_switch s) u) = parent_task (threads s u)"
    "status (threads (context_switch s) u) = switched_status s rq sq u"
    using a e p l b st n0 k by (auto simp: switch_to_thread_fields queue_defs abs_switch_def
        switched_status_def split: if_splits)
qed

lemma context_switch_inv:
  assumes inv: "sched_inv s rq sq" and a: "abs_switch s rq sq = (c, rq', sq')"
  shows "sched_inv (context_switch s) rq' sq'"
proof -
  note eff = context_switch_effect [OF assms]
  obtain t rq1 sq1 where p: "picks s rq sq = (t, rq1, sq1)" by (cases "picks s rq sq") auto
  have idle: "idle_thread (context_switch s) = idle_thread s"
    by (simp add: idle_thread_def get_idle_task_def eff)
  have d: "distinct rq" "distinct sq"
    using inv ring_of_distinct by (auto simp: sched_inv_def queue_defs)
  have "set rq1 \<subseteq> set rq" "set sq1 \<subseteq> set sq" "t \<notin> set rq1" "t \<notin> set sq1" "t = 0 \<or> t \<in> set rq \<union> set sq"
    "t = 0 \<longrightarrow> rq = []"
    using p d inv by (auto simp: picks_def sched_inv_def neq_Nil_conv split: if_splits)
  note t = this
  have cs: "c = (if stays s t then curr_thread s else if t = 0 then idle_thread s else t)"
    "rq' = (if stays s t then rq1 else rq1 @ requeued s)" "sq' = sq1"
    using a p by (auto simp: abs_switch_def split: if_splits)
  have rd: "set (requeued s) \<subseteq> {curr_thread s} - (set rq \<union> set sq \<union> {0, idle_thread s})"
    "\<forall>u\<in>set (requeued s). status (threads s u) = RUNNING"
    using inv by (auto simp: requeued_def sched_inv_def)
  have ct: "c \<notin> set rq'"
    using t rd inv by (auto simp: cs sched_inv_def)
  have st: "status (threads (context_switch s) u) = RUNNABLE" if "u \<in> set rq'" for u
    using that t rd inv ct
    by (auto simp: eff switched_status_def p cs sched_inv_def Let_def split: if_splits)
  have sw: "status (threads (context_switch s) u) = WAITING" if "u \<in> set sq'" for u
    using that t rd inv
    by (auto simp: eff switched_status_def p cs sched_inv_def Let_def split: if_splits)
  have "live (context_switch s) rq' sq' \<subseteq> insert (idle_thread s) (live s rq sq)"
    using t rd inv by (auto simp: live_def eff cs split: if_splits)
  then have ids: "\<forall>u \<in> live (context_switch s) rq' sq'.
      thr_id (threads s u) = thr_id (threads s (idle_thread s)) \<longrightarrow> u = idle_thread s"
    using inv by (auto simp: sched_inv_def)
  have sets: "set rq' \<subseteq> set rq \<union> set (requeued s)" "set sq' \<subseteq> set sq" using t by (auto simp: cs)
  have "set rq' \<inter> set sq' = {}" "0 \<notin> set rq' \<union> set sq'" "idle_thread s \<notin> set rq' \<union> set sq'"
    using sets rd(1) inv unfolding sched_inv_def by blast+
  then show ?thesis
    using eff(1,2) ct st sw ids inv by (simp add: sched_inv_def eff(3,11) idle)
qed

text \<open>Some parts of the state no switch touches, whatever the queues look like.\<close>

lemma next_thread_links: "\<exists>t l. next_thread s = (t, s\<lparr>links := l\<rparr>)"
  by (auto simp: next_thread_def get_sleeping_thread_def runq_get_head_def upd_links_def Let_def
      split: option.split intro: exI [of _ "links s"])

lemma switch_to_thread_keeps [simp]:
  "mutex_value (switch_to_thread c t s) = mutex_value s"
  "mutex_enable (switch_to_thread c t s) = mutex_enable s"
  "tasks (switch_to_thread c t s) = tasks s" "idle_task (switch_to_thread c t s) = idle_task s"
  "cond_status (switch_to_thread c t s) = cond_status s"
  by (simp_all add: switch_to_thread_def update_stack_def update_stack_single_def
      set_running_thread_def set_cur_pd_def set_esp0_def set_status_def Let_def)

lemma context_switch_keeps [simp]:
  "mutex_value (context_switch s) = mutex_value s" "mutex_enable (context_switch s) = mutex_enable s"
  "tasks (context_switch s) = tasks s" "idle_task (context_switch s) = idle_task s"
  "cond_status (context_switch s) = cond_status s"
proof -
  obtain t l where "next_thread (disable_interrupts s) = (t, (disable_interrupts s)\<lparr>links := l\<rparr>)"
    using next_thread_links by blast
  then show "mutex_value (context_switch s) = mutex_value s" "mutex_enable (context_switch s) = mutex_enable s"
    "tasks (context_switch s) = tasks s" "idle_task (context_switch s) = idle_task s"
    "cond_status (context_switch s) = cond_status s"
    by (simp_all add: context_switch_def Let_def runq_add_thread_interruptible_def upd_links_def)
qed

section \<open>Round robin\<close>

text \<open>
  Between two switches the running thread may do what it likes, as long as it only appends threads
  to the run queue: go to sleep on a lock, wake other threads up, create new ones.
\<close>

definition only_appends :: "('a kstate_scheme \<Rightarrow> 'a kstate_scheme) \<Rightarrow> bool" where
  "only_appends f \<longleftrightarrow>
     (\<forall>s rq. sched_inv s rq [] \<longrightarrow> (\<exists>new. sched_inv (f s) (rq @ new) []))"

fun run_switches :: "('a kstate_scheme \<Rightarrow> 'a kstate_scheme) list \<Rightarrow> 'a kstate_scheme \<Rightarrow> 'a kstate_scheme" where
  "run_switches [] s = s"
| "run_switches (f # fs) s = run_switches fs (context_switch (f s))"

lemma only_appendsD:
  assumes "only_appends f" "sched_inv s rq []"
  obtains new where "sched_inv (f s) (rq @ new) []"
  using assms unfolding only_appends_def by blast

lemma abs_switch_no_sleepers:
  "t \<noteq> 0 \<Longrightarrow> abs_switch s (t # rq) [] = (t, rq @ requeued s, [])"
  by (simp add: abs_switch_def picks_def stays_def)

lemma round_robin:
  assumes "sched_inv s (before @ t # rest) []" "\<forall>f \<in> set fs. only_appends f"
    "length fs = Suc (length before)"
  shows "curr_thread (run_switches fs s) = t"
  using assms
proof (induction before arbitrary: s rest fs)
  case Nil
  then obtain f where "fs = [f]" by (auto simp: length_Suc_conv)
  with Nil have "only_appends f" "sched_inv s (t # rest) []" by simp_all
  then obtain new where i: "sched_inv (f s) (t # rest @ new) []"
    using only_appendsD [of f s "t # rest"] by auto
  then have "t \<noteq> 0" by (auto simp: sched_inv_def)
  with context_switch_effect(3) [OF i] \<open>fs = [f]\<close> show ?case by (simp add: abs_switch_no_sleepers)
next
  case (Cons b before)
  from Cons.prems obtain f fs' where fs: "fs = f # fs'" "length fs' = Suc (length before)"
    by (cases fs) auto
  with Cons.prems have "only_appends f" "sched_inv s (b # before @ t # rest) []" by simp_all
  then obtain new where i: "sched_inv (f s) (b # before @ t # rest @ new) []"
    using only_appendsD [of f s "b # before @ t # rest"] by auto
  then have "b \<noteq> 0" by (auto simp: sched_inv_def)
  from context_switch_inv [OF i abs_switch_no_sleepers [OF this]]
  have "sched_inv (context_switch (f s)) (before @ t # (rest @ new @ requeued (f s))) []" by simp
  from Cons.IH [OF this] fs Cons.prems(2) show ?case by simp
qed

section \<open>The properties\<close>

text \<open>
  A concrete state for the witnesses: task \<open>1\<close> is the idle task with thread \<open>0x100\<close>; thread
  \<open>0x10\<close> runs and \<open>0x20\<close>, \<open>0x30\<close> wait their turn.
\<close>

definition blank_thread :: "int \<Rightarrow> thread_struct" where
  "blank_thread i = \<lparr>thr_id = i, parent_task = 0, k_stack_base = 0, cur_esp = 0, cur_ebp = 0,
     status = RUNNABLE, wake_time = 0\<rparr>"

definition blank_task :: task_struct where
  "blank_task = \<lparr>task_id = 0, pdbr = 0, thr = 0, exit_status = 0, parent = 0, swexn_eip = 0,
     swexn_args = 0, swexn_esp = 0\<rparr>"

definition blank_state :: kstate where
  "blank_state = \<lparr>links = \<lparr>nxt = \<lambda>n. n, prv = \<lambda>n. n\<rparr>, mutex_value = \<lambda>_. 1,
     cond_status = \<lambda>_. 1, threads = \<lambda>t. blank_thread (uint t), tasks = \<lambda>_. blank_task,
     curr_thread = 0, sleeping_threads = None, init_task = 0, idle_task = 0, next_tid = 1,
     mutex_enable = True, tick_counter = 0, int_flag = True, cr3 = 0, esp0 = 0, esp = 0, ebp = 0, sem_count = \<lambda>_. 0,
     sem_valid = \<lambda>_. False\<rparr>"

definition sample_state :: kstate where
  "sample_state =
     runq_add_thread 0x30 (runq_add_thread 0x20
       (set_status 0x10 RUNNING
         (upd_links (init_head sleeping_head \<circ> init_head runnable_threads)
           (blank_state\<lparr>curr_thread := 0x10, idle_task := 1, sleeping_threads := Some sleeping_head,
              tasks := (\<lambda>_. blank_task)(1 := blank_task\<lparr>thr := 0x100\<rparr>)\<rparr>))))"

lemma blank_thread_fields [simp]:
  "thr_id (blank_thread i) = i" "status (blank_thread i) = RUNNABLE"
  "wake_time (blank_thread i) = 0" "parent_task (blank_thread i) = 0"
  by (simp_all add: blank_thread_def)

lemma sample_state_inv: "sched_inv sample_state [0x20, 0x30] []"
proof -
  let ?h = "init_head sleeping_head (init_head runnable_threads (links blank_state))"
  have r: "ring_of ?h runnable_threads []" by (intro ring_of_init_frame ring_of_init) simp_all
  have s: "ring_of ?h sleeping_head []" by (intro ring_of_init) simp
  note r1 = ring_of_add [OF r, of "0x20"] and k1 = keeps_rings_add [OF r, of "0x20"]
  note r2 = ring_of_add [OF r1, of "0x30"] and k2 = keeps_rings_add [OF r1, of "0x30"]
  have s2: "ring_of (add_to_tail (Runq_link, 0x30) runnable_threads
      (add_to_tail (Runq_link, 0x20) runnable_threads ?h)) sleeping_head []"
    using keeps_ringsD [OF k2 keeps_ringsD [OF k1 s]] by simp
  show ?thesis
    using r2 s2 by (simp add: sched_inv_def sample_state_def queue_defs runq_add_thread_def
        runq_add_thread_interruptible_def idle_thread_def get_idle_task_def live_def upd_links_def
        disable_interrupts_def enable_interrupts_def set_status_def blank_state_def blank_task_def)
qed

lemma sample_state_switch: "abs_switch sample_state [0x20, 0x30] [] = (0x20, [0x30, 0x10], [])"
  by (simp add: abs_switch_def picks_def stays_def requeued_def sample_state_def runq_add_thread_def
      idle_thread_def get_idle_task_def upd_links_def runq_add_thread_interruptible_def state_defs
      blank_state_def blank_task_def)

text \<open>
  C1: \<^verbatim>\<open>context_switch\<close> implements the abstract scheduler.  From a state whose queues are intact,
  the pointer manipulation of \<^verbatim>\<open>next_thread\<close>, \<^verbatim>\<open>runq_add_thread_interruptible\<close> and
  \<^verbatim>\<open>switch_to_thread\<close> runs exactly the thread the abstract scheduler chooses, leaves exactly its
  queues behind, restores the invariant with interrupts enabled, and disturbs neither the waiting
  lists of mutexes and condition variables nor the mutex values.
\<close>

theorem context_switch_refines:
  assumes "sched_inv s rq sq" and "abs_switch s rq sq = (c, rq', sq')"
  shows "sched_inv (context_switch s) rq' sq' \<and> curr_thread (context_switch s) = c \<and>
    int_flag (context_switch s) \<and>
    (\<forall>u. status (threads (context_switch s) u) = switched_status s rq sq u) \<and>
    keeps_rings {Runq_link, Sleepq_link} (links s) (links (context_switch s)) \<and>
    mutex_value (context_switch s) = mutex_value s"
  by (simp add: context_switch_inv [OF assms] context_switch_effect [OF assms])

theorem context_switch_refines_witness:
  "sched_inv (context_switch sample_state) [0x30, 0x10] [] \<and>
   curr_thread (context_switch sample_state) = 0x20"
  using context_switch_refines [OF sample_state_inv sample_state_switch] by simp



end
