(* ===== verification/Sync.thy ===== *)
theory Sync
  imports Scheduler
begin

text \<open>
  Mutexes, condition variables and semaphores: \<^verbatim>\<open>kern/sync/mutex.c\<close>, \<^verbatim>\<open>cond_var.c\<close> and \<^verbatim>\<open>sem.c\<close>.
  A pointer argument that the code compares with \<^verbatim>\<open>NULL\<close> is an option.
\<close>

section \<open>Mutexes\<close>

abbreviation (input) MUTEX_VALID :: int where "MUTEX_VALID \<equiv> 1"
abbreviation (input) MUTEX_INVALID :: int where "MUTEX_INVALID \<equiv> - 1"

definition set_mutex :: "mutex_ptr \<Rightarrow> int \<Rightarrow> 'a kstate_scheme \<Rightarrow> 'a kstate_scheme" where
  "set_mutex m v s = s\<lparr>mutex_value := (mutex_value s)(m := v)\<rparr>"

definition mutex_init :: "mutex_ptr option \<Rightarrow> (int, 'a kstate_scheme) kop" where
  "mutex_init mp s = (case mp of
      None \<Rightarrow> Ok ERR_INVAL s
    | Some m \<Rightarrow> Ok 0 (upd_links (init_head (waiting_of_mutex m)) (set_mutex m MUTEX_VALID s)))"

definition enable_mutex_lib :: "(unit, 'a kstate_scheme) kop" where
  "enable_mutex_lib = kmodify (\<lambda>s. s\<lparr>mutex_enable := True\<rparr>)"

definition disable_interrupts_mutex :: "'a kstate_scheme \<Rightarrow> 'a kstate_scheme" where
  "disable_interrupts_mutex s = (if mutex_enable s then disable_interrupts s else s)"

definition enable_interrupts_mutex :: "'a kstate_scheme \<Rightarrow> 'a kstate_scheme" where
  "enable_interrupts_mutex s = (if mutex_enable s then enable_interrupts s else s)"

definition with_mutex :: "mutex_ptr option \<Rightarrow> (mutex_ptr \<Rightarrow> (unit, 'a kstate_scheme) kop) \<Rightarrow> (unit, 'a kstate_scheme) kop" where
  "with_mutex mp f = kbind (thread_assert (mp \<noteq> None)) (\<lambda>_.
     kbind (\<lambda>s. thread_assert (mutex_value s (the mp) \<noteq> MUTEX_INVALID) s) (\<lambda>_. f (the mp)))"

definition mutex_destroy :: "mutex_ptr option \<Rightarrow> (unit, 'a kstate_scheme) kop" where
  "mutex_destroy mp = with_mutex mp (\<lambda>m. kmodify (set_mutex m MUTEX_INVALID))"

text \<open>
  A thread that finds the lock taken queues up and gives the processor away; when it is switched
  back to, it disables interrupts and looks at the value again.
\<close>

definition enqueue_waiter :: "mutex_ptr \<Rightarrow> 'a kstate_scheme \<Rightarrow> 'a kstate_scheme" where
  "enqueue_waiter m s =
     (let t = get_curr_thread s
      in upd_links (add_to_tail (Mutex_link, t) (waiting_of_mutex m)) (set_status t WAITING s))"

definition mutex_acquire :: "mutex_ptr \<Rightarrow> (unit, 'a kstate_scheme) kop" where
  "mutex_acquire m = kseq
     [kwhile (\<lambda>_ s. mutex_value s m = 0)
        (\<lambda>_. kseq [kmodify (enqueue_waiter m), kswitch context_switch,
                   kmodify disable_interrupts_mutex]) (),
      kmodify (set_mutex m 0)]"

definition mutex_lock :: "mutex_ptr option \<Rightarrow> (unit, 'a kstate_scheme) kop" where
  "mutex_lock mp = with_mutex mp (\<lambda>m. kseq
     [kmodify disable_interrupts_mutex, mutex_acquire m, kmodify enable_interrupts_mutex])"

definition wake_waiter :: "mutex_ptr \<Rightarrow> 'a kstate_scheme \<Rightarrow> 'a kstate_scheme" where
  "wake_waiter m s = (case get_first (waiting_of_mutex m) (links s) of
      None \<Rightarrow> s
    | Some waiting_thread \<Rightarrow>
        (let t = get_entry waiting_thread
         in upd_links (del_entry (Mutex_link, t))
              (runq_add_thread_interruptible t (set_status t RUNNABLE s))))"

definition mutex_unlock :: "mutex_ptr option \<Rightarrow> (unit, 'a kstate_scheme) kop" where
  "mutex_unlock mp = with_mutex mp (\<lambda>m. kseq
     [kmodify disable_interrupts_mutex, kmodify (wake_waiter m), kmodify (set_mutex m 1),
      kmodify enable_interrupts_mutex])"

definition mutex_lock_int_save :: "mutex_ptr option \<Rightarrow> (unit, 'a kstate_scheme) kop" where
  "mutex_lock_int_save mp = with_mutex mp (\<lambda>m. kbind (kgets int_flag) (\<lambda>flag. kseq
     [kmodify disable_interrupts_mutex, mutex_acquire m,
      kmodify (\<lambda>s. if flag then enable_interrupts_mutex s else s)]))"

definition mutex_unlock_int_save :: "mutex_ptr option \<Rightarrow> (unit, 'a kstate_scheme) kop" where
  "mutex_unlock_int_save mp = with_mutex mp (\<lambda>m. kbind (kgets int_flag) (\<lambda>flag. kseq
     [kmodify disable_interrupts_mutex, kmodify (wake_waiter m), kmodify (set_mutex m 1),
      kmodify (\<lambda>s. if flag then enable_interrupts_mutex s else s)]))"

section \<open>Condition variables\<close>

abbreviation (input) COND_VAR_VALID :: int where "COND_VAR_VALID \<equiv> 1"
abbreviation (input) COND_VAR_INVALID :: int where "COND_VAR_INVALID \<equiv> - 1"

definition set_cond :: "cond_ptr \<Rightarrow> int \<Rightarrow> 'a kstate_scheme \<Rightarrow> 'a kstate_scheme" where
  "set_cond c v s = s\<lparr>cond_status := (cond_status s)(c := v)\<rparr>"

definition cond_init :: "cond_ptr option \<Rightarrow> (int, 'a kstate_scheme) kop" where
  "cond_init cv = (case cv of
      None \<Rightarrow> kret ERR_INVAL
    | Some c \<Rightarrow> kbind (kmodify (set_cond c COND_VAR_VALID)) (\<lambda>_.
        kbind (mutex_init (Some (queue_mutex c))) (\<lambda>r.
          if r < 0 then kret ERR_INVAL
          else kbind (kmodify (upd_links (init_head (waiting_of_cond c)))) (\<lambda>_. kret 0))))"

definition with_cond :: "cond_ptr option \<Rightarrow> (cond_ptr \<Rightarrow> (unit, 'a kstate_scheme) kop) \<Rightarrow> (unit, 'a kstate_scheme) kop" where
  "with_cond cv f = kbind (thread_assert (cv \<noteq> None)) (\<lambda>_.
     kbind (\<lambda>s. thread_assert (cond_status s (the cv) \<noteq> COND_VAR_INVALID) s) (\<lambda>_. f (the cv)))"

definition cond_destroy :: "cond_ptr option \<Rightarrow> (unit, 'a kstate_scheme) kop" where
  "cond_destroy cv = with_cond cv (\<lambda>c. kseq
     [mutex_destroy (Some (queue_mutex c)), kmodify (set_cond c COND_VAR_INVALID)])"

definition cond_wait :: "cond_ptr option \<Rightarrow> mutex_ptr option \<Rightarrow> link \<Rightarrow> thread_status \<Rightarrow> (unit, 'a kstate_scheme) kop" where
  "cond_wait cv mp lnk st = with_cond cv (\<lambda>c. kseq
     [mutex_lock (Some (queue_mutex c)),
      kmodify (upd_links (add_to_tail lnk (waiting_of_cond c))),
      mutex_unlock (Some (queue_mutex c)),
      kmodify disable_interrupts,
      kmodify (\<lambda>s. set_status (get_curr_thread s) st s),
      mutex_unlock mp,
      kswitch context_switch,
      mutex_lock mp])"

definition wake_cond :: "addr \<Rightarrow> 'a kstate_scheme \<Rightarrow> 'a kstate_scheme" where
  "wake_cond t s = runq_add_thread t (set_status t RUNNABLE s)"

definition cond_signal :: "cond_ptr option \<Rightarrow> (unit, 'a kstate_scheme) kop" where
  "cond_signal cv = with_cond cv (\<lambda>c. kseq
     [mutex_lock_int_save (Some (queue_mutex c)),
      kmodify (\<lambda>s. case get_first (waiting_of_cond c) (links s) of
          None \<Rightarrow> s
        | Some waiting_thread \<Rightarrow>
            (let t = get_entry waiting_thread
             in upd_links (del_entry (Cond_wait_link, t)) (wake_cond t s))),
      mutex_unlock_int_save (Some (queue_mutex c))])"

partial_function (option) broadcast_loop :: "link \<Rightarrow> link \<Rightarrow> 'a kstate_scheme \<Rightarrow> (unit \<times> 'a kstate_scheme) option" where
  "broadcast_loop head waiting_thread s =
     (if waiting_thread = head then Some ((), s)
      else let t = get_entry waiting_thread;
               s = wake_cond t s;
               next = nxt (links s) waiting_thread
           in broadcast_loop head next (upd_links (del_entry (Cond_wait_link, t)) s))"

definition cond_broadcast :: "cond_ptr option \<Rightarrow> (unit, 'a kstate_scheme) kop" where
  "cond_broadcast cv = with_cond cv (\<lambda>c. kseq
     [mutex_lock_int_save (Some (queue_mutex c)),
      (\<lambda>s. case get_first (waiting_of_cond c) (links s) of
          None \<Rightarrow> Ok () s
        | Some waiting_thread \<Rightarrow> kloop (broadcast_loop (waiting_of_cond c) waiting_thread) s),
      mutex_unlock_int_save (Some (queue_mutex c))])"

section \<open>Semaphores\<close>

definition sem_init :: "addr \<Rightarrow> int \<Rightarrow> (int, 'a kstate_scheme) kop" where
  "sem_init sem count =
     (if sem = 0 then kret (- 1)
      else kbind (mutex_init (Some (Sem_mutex, sem))) (\<lambda>_.
        kbind (cond_init (Some (Sem_cond, sem))) (\<lambda>_.
        kbind (kmodify (\<lambda>s. s\<lparr>sem_count := (sem_count s)(sem := count),
                              sem_valid := (sem_valid s)(sem := True)\<rparr>)) (\<lambda>_. kret 0))))"

definition sem_assert :: "addr \<Rightarrow> (unit, 'a kstate_scheme) kop" where
  "sem_assert sem = kseq [thread_assert (sem \<noteq> 0), \<lambda>s. thread_assert (sem_valid s sem) s]"

definition sem_wait :: "addr \<Rightarrow> (unit, 'a kstate_scheme) kop" where
  "sem_wait sem = kseq
     [sem_assert sem,
      mutex_lock (Some (Sem_mutex, sem)),
      kbind (kgets get_curr_thread) (\<lambda>t.
        kwhile (\<lambda>_ s. sem_count s sem = 0)
          (\<lambda>_. cond_wait (Some (Sem_cond, sem)) (Some (Sem_mutex, sem)) (Cond_wait_link, t) WAITING) ()),
      kmodify (\<lambda>s. s\<lparr>sem_count := (sem_count s)(sem := sem_count s sem - 1)\<rparr>),
      mutex_unlock (Some (Sem_mutex, sem))]"

definition sem_signal :: "addr \<Rightarrow> (unit, 'a kstate_scheme) kop" where
  "sem_signal sem = kseq
     [sem_assert sem,
      mutex_lock (Some (Sem_mutex, sem)),
      kmodify (\<lambda>s. s\<lparr>sem_count := (sem_count s)(sem := sem_count s sem + 1)\<rparr>),
      cond_signal (Some (Sem_cond, sem)),
      mutex_unlock (Some (Sem_mutex, sem))]"

definition sem_destroy :: "addr \<Rightarrow> (unit, 'a kstate_scheme) kop" where
  "sem_destroy sem = kseq
     [thread_assert (sem \<noteq> 0),
      cond_destroy (Some (Sem_cond, sem)),
      mutex_destroy (Some (Sem_mutex, sem)),
      kmodify (\<lambda>s. s\<lparr>sem_valid := (sem_valid s)(sem := False)\<rparr>)]"

section \<open>The lock, branch by branch\<close>

lemma set_mutex_fields [simp]:
  "links (set_mutex m v s) = links s" "threads (set_mutex m v s) = threads s"
  "tasks (set_mutex m v s) = tasks s" "curr_thread (set_mutex m v s) = curr_thread s"
  "sleeping_threads (set_mutex m v s) = sleeping_threads s" "idle_task (set_mutex m v s) = idle_task s"
  "tick_counter (set_mutex m v s) = tick_counter s" "mutex_enable (set_mutex m v s) = mutex_enable s"
  "int_flag (set_mutex m v s) = int_flag s" "cond_status (set_mutex m v s) = cond_status s"
  "mutex_value (set_mutex m v s) = (mutex_value s)(m := v)"
  by (simp_all add: set_mutex_def)

lemma interrupts_mutex_fields [simp]:
  "links (disable_interrupts_mutex s) = links s" "links (enable_interrupts_mutex s) = links s"
  "threads (disable_interrupts_mutex s) = threads s" "threads (enable_interrupts_mutex s) = threads s"
  "tasks (disable_interrupts_mutex s) = tasks s" "tasks (enable_interrupts_mutex s) = tasks s"
  "curr_thread (disable_interrupts_mutex s) = curr_thread s"
  "curr_thread (enable_interrupts_mutex s) = curr_thread s"
  "sleeping_threads (disable_interrupts_mutex s) = sleeping_threads s"
  "sleeping_threads (enable_interrupts_mutex s) = sleeping_threads s"
  "idle_task (disable_interrupts_mutex s) = idle_task s"
  "idle_task (enable_interrupts_mutex s) = idle_task s"
  "tick_counter (disable_interrupts_mutex s) = tick_counter s"
  "tick_counter (enable_interrupts_mutex s) = tick_counter s"
  "mutex_enable (disable_interrupts_mutex s) = mutex_enable s"
  "mutex_enable (enable_interrupts_mutex s) = mutex_enable s"
  "mutex_value (disable_interrupts_mutex s) = mutex_value s"
  "mutex_value (enable_interrupts_mutex s) = mutex_value s"
  "cond_status (disable_interrupts_mutex s) = cond_status s"
  "cond_status (enable_interrupts_mutex s) = cond_status s"
  by (simp_all add: disable_interrupts_mutex_def enable_interrupts_mutex_def)

lemma mutex_acquire_eq:
  "mutex_acquire m s =
     (if mutex_value s m = 0
      then Blocked (context_switch (enqueue_waiter m s)) (\<lambda>s'. mutex_acquire m (disable_interrupts_mutex s'))
      else Ok () (set_mutex m 0 s))"
  unfolding mutex_acquire_def by (subst kseq.simps, subst kbind_def, subst kwhile_unfold) (simp add: kop_defs)

definition mutex_retry :: "mutex_ptr \<Rightarrow> (unit, 'a kstate_scheme) kop" where
  "mutex_retry m = kseq
     [kmodify disable_interrupts_mutex, mutex_acquire m, kmodify enable_interrupts_mutex]"

lemma mutex_retry_unfold:
  "mutex_retry m s =
     (if mutex_value s m = 0
      then Blocked (context_switch (enqueue_waiter m (disable_interrupts_mutex s))) (mutex_retry m)
      else Ok () (enable_interrupts_mutex (set_mutex m 0 (disable_interrupts_mutex s))))"
  unfolding mutex_retry_def by (simp add: kop_defs mutex_acquire_eq [of m "disable_interrupts_mutex s"])

lemma mutex_lock_eq:
  "mutex_lock (Some m) s =
     (if mutex_value s m = MUTEX_INVALID then Thread_panic s else mutex_retry m s)"
  by (simp add: mutex_lock_def mutex_retry_def with_mutex_def kop_defs)

lemma mutex_unlock_eq:
  "mutex_unlock (Some m) s =
     (if mutex_value s m = MUTEX_INVALID then Thread_panic s
      else Ok () (enable_interrupts_mutex (set_mutex m 1 (wake_waiter m (disable_interrupts_mutex s)))))"
  by (simp add: mutex_unlock_def with_mutex_def kop_defs)

section \<open>Waiters and the scheduler\<close>

text \<open>
  \<open>queue_inv m s rq sq ws\<close>: the threads \<open>ws\<close> wait on the mutex \<open>m\<close>, in this order, and are neither
  runnable nor asleep.  In \<open>wait_inv\<close> the running thread is not one of them; between its enqueueing
  and the context switch it is.
\<close>

definition queue_inv :: "mutex_ptr \<Rightarrow> 'a kstate_scheme \<Rightarrow> addr list \<Rightarrow> addr list \<Rightarrow> addr list \<Rightarrow> bool" where
  "queue_inv m s rq sq ws \<longleftrightarrow>
     sched_inv s rq sq \<and> ring_of (links s) (waiting_of_mutex m) ws \<and>
     set ws \<inter> (set rq \<union> set sq \<union> {0, idle_thread s}) = {} \<and> curr_thread s \<notin> set sq \<union> {0} \<and>
     (\<forall>t \<in> set ws. status (threads s t) = WAITING \<and>
        thr_id (threads s t) \<noteq> thr_id (threads s (idle_thread s))) \<and>
     (curr_thread s \<in> set ws \<or> curr_thread s = idle_thread s \<or>
      status (threads s (curr_thread s)) = RUNNING)"

definition wait_inv :: "mutex_ptr \<Rightarrow> 'a kstate_scheme \<Rightarrow> addr list \<Rightarrow> addr list \<Rightarrow> addr list \<Rightarrow> bool" where
  "wait_inv m s rq sq ws \<longleftrightarrow> queue_inv m s rq sq ws \<and> curr_thread s \<notin> set ws"

lemma abs_switch_sets:
  assumes inv: "sched_inv s rq sq" and a: "abs_switch s rq sq = (c, rq', sq')"
  shows "set rq \<union> set (requeued s) \<subseteq> insert c (set rq')"
    "insert c (set rq') \<subseteq> set rq \<union> set sq \<union> set (requeued s) \<union> {idle_thread s}"
    "set sq' \<subseteq> set sq" "c \<notin> set sq'" "c \<noteq> 0"
proof -
  have d: "distinct rq" "distinct sq" "0 \<notin> set rq \<union> set sq" "set rq \<inter> set sq = {}"
    using inv ring_of_distinct by (auto simp: sched_inv_def queue_defs)
  have st: "c \<in> set (requeued s) \<union> {idle_thread s}" if "stays s 0" "c = curr_thread s"
    using that by (auto simp: stays_def requeued_def)
  have nw: "idle_thread s \<notin> set sq" "set (requeued s) \<inter> set sq = {}" "idle_thread s \<noteq> 0"
    "0 \<notin> set (requeued s)"
    using inv by (auto simp: sched_inv_def requeued_def)
  consider (sleeper) x xs where "sq = x # xs" "picks s rq sq = (x, rq, xs)" "x \<noteq> 0"
    | (head) x xs where "rq = x # xs" "picks s rq sq = (x, xs, sq)" "x \<noteq> 0"
    | (none) "rq = []" "picks s rq sq = (0, rq, sq)"
    using d(3) by (cases "sq \<noteq> [] \<and> due s (hd sq)"; cases sq; cases rq) (auto simp: picks_def)
  note c = this
  have "set rq \<union> set (requeued s) \<subseteq> insert c (set rq') \<and>
    insert c (set rq') \<subseteq> set rq \<union> set sq \<union> set (requeued s) \<union> {idle_thread s} \<and>
    set sq' \<subseteq> set sq \<and> c \<notin> set sq' \<and> c \<noteq> 0"
  proof (cases rule: c)
    case sleeper
    then show ?thesis using a d by (auto simp: abs_switch_def stays_def)
  next
    case head
    then show ?thesis using a d by (auto simp: abs_switch_def stays_def)
  next
    case none
    then show ?thesis using a d nw st
      by (cases "stays s 0") (auto simp: abs_switch_def requeued_def split: if_splits)
  qed
  then show "set rq \<union> set (requeued s) \<subseteq> insert c (set rq')"
    "insert c (set rq') \<subseteq> set rq \<union> set sq \<union> set (requeued s) \<union> {idle_thread s}"
    "set sq' \<subseteq> set sq" "c \<notin> set sq'" "c \<noteq> 0" by simp_all
qed

lemma switched_status_waiting:
  assumes "sched_inv s rq sq" "abs_switch s rq sq = (c, rq', sq')" "u \<notin> insert c (set (requeued s))"
  shows "switched_status s rq sq u = status (threads s u)"
  using assms(2,3) by (auto simp: abs_switch_def switched_status_def Let_def split: prod.splits if_splits)

lemma switched_status_current:
  assumes "abs_switch s rq sq = (c, rq', sq')"
  shows "c = idle_thread s \<or> switched_status s rq sq c = RUNNING"
  using assms by (auto simp: abs_switch_def switched_status_def stays_def Let_def split: prod.splits if_splits)

lemma switch_queue_inv:
  assumes q: "queue_inv m s rq sq ws"
  shows "\<exists>rq' sq'. wait_inv m (context_switch s) rq' sq' ws \<and>
    set rq \<union> set (requeued s) \<subseteq> insert (curr_thread (context_switch s)) (set rq')"
proof -
  have inv: "sched_inv s rq sq" using q by (simp add: queue_inv_def)
  obtain c rq' sq' where a: "abs_switch s rq sq = (c, rq', sq')" by (cases "abs_switch s rq sq")
  note eff = context_switch_effect [OF inv a] and sets = abs_switch_sets [OF inv a]
  have idle: "idle_thread (context_switch s) = idle_thread s"
    by (simp add: idle_thread_def get_idle_task_def eff)
  have rw: "set (requeued s) \<inter> set ws = {}"
    using q by (auto simp: queue_inv_def requeued_def)
  then have cw: "c \<notin> set ws" "set rq' \<inter> set ws = {}" "set sq' \<inter> set ws = {}"
    using sets q unfolding queue_inv_def by blast+
  have ring: "ring_of (links (context_switch s)) (waiting_of_mutex m) ws"
    using q by (intro keeps_ringsD [OF eff(5)]) (simp_all add: queue_inv_def)
  have st: "status (threads (context_switch s) t) = WAITING" if "t \<in> set ws" for t
  proof -
    have "t \<notin> insert c (set (requeued s))" using that rw cw by blast
    then show ?thesis
      using that q switched_status_waiting [OF inv a] by (simp add: eff queue_inv_def)
  qed
  have "wait_inv m (context_switch s) rq' sq' ws"
    using context_switch_inv [OF inv a] ring cw st q sets(4,5) switched_status_current [OF a]
    by (auto simp: wait_inv_def queue_inv_def eff idle)
  then show ?thesis using sets(1) by (auto simp: eff)
qed

lemma enqueue_switch_inv:
  assumes w: "wait_inv m s rq sq ws" and "curr_thread s \<noteq> idle_thread s"
  defines "s' \<equiv> context_switch (enqueue_waiter m s)"
  shows "\<exists>rq' sq'. wait_inv m s' rq' sq' (ws @ [curr_thread s]) \<and> set rq \<subseteq> insert (curr_thread s') (set rq')"
proof -
  let ?s = "enqueue_waiter m s"
  have q: "queue_inv m s rq sq ws" and c: "curr_thread s \<notin> set ws"
    using w by (simp_all add: wait_inv_def)
  then have ring: "ring_of (links s) (waiting_of_mutex m) ws" by (simp add: queue_inv_def)
  have ln: "links ?s = add_to_tail (link_of (waiting_of_mutex m) (curr_thread s)) (waiting_of_mutex m) (links s)"
    by (simp add: enqueue_waiter_def Let_def upd_links_def get_curr_thread_def)
  have keep: "keeps_rings {Mutex_link} (links s) (links ?s)"
    using keeps_rings_add [OF ring] by (simp add: ln)
  have "runq ?s rq" "sleepq ?s sq"
    using q keeps_ringsD [OF keep] by (auto simp: queue_inv_def sched_inv_def queue_defs
        enqueue_waiter_def upd_links_def Let_def)
  moreover have "idle_thread ?s = idle_thread s" "curr_thread ?s = curr_thread s"
    by (simp_all add: enqueue_waiter_def Let_def upd_links_def idle_thread_def get_idle_task_def)
  moreover have "status (threads ?s t) = (if t = curr_thread s then WAITING else status (threads s t))"
    "thr_id (threads ?s t) = thr_id (threads s t)" for t
    by (simp_all add: enqueue_waiter_def Let_def upd_links_def get_curr_thread_def)
  moreover have "ring_of (links ?s) (waiting_of_mutex m) (ws @ [curr_thread s])"
    unfolding ln by (rule ring_of_add [OF ring c])
  ultimately have "queue_inv m ?s rq sq (ws @ [curr_thread s])"
    using q assms(2) by (auto simp: queue_inv_def sched_inv_def live_def)
  from switch_queue_inv [OF this] show ?thesis unfolding s'_def by blast
qed

lemma wake_waiter_empty:
  "ring_of (links s) (waiting_of_mutex m) [] \<Longrightarrow> wake_waiter m s = s"
  by (simp add: wake_waiter_def ring_of_first [of "links s" _ "[]"])

lemma wake_waiter_fields [simp]:
  "mutex_value (wake_waiter m s) = mutex_value s" "mutex_enable (wake_waiter m s) = mutex_enable s"
  "curr_thread (wake_waiter m s) = curr_thread s" "idle_thread (wake_waiter m s) = idle_thread s"
  by (simp_all add: wake_waiter_def upd_links_def Let_def idle_thread_def get_idle_task_def
      split: option.splits)

lemma wake_waiter_inv:
  assumes w: "wait_inv m s rq sq (t # ws)"
  shows "wait_inv m (wake_waiter m s) (rq @ [t]) sq ws"
proof -
  let ?s = "wake_waiter m s" and ?q = "waiting_of_mutex m"
  let ?h = "add_to_tail (Runq_link, t) runnable_threads (links s)"
  have ring: "ring_of (links s) ?q (t # ws)" and rq: "ring_of (links s) runnable_threads rq"
    and sq: "ring_of (links s) sleeping_head sq" and t: "t \<notin> set rq"
    using w by (auto simp: wait_inv_def queue_inv_def sched_inv_def queue_defs)
  have e: "?s = upd_links (del_entry (link_of ?q t)) (runq_add_thread_interruptible t (set_status t RUNNABLE s))"
    by (simp add: wake_waiter_def ring_of_first [OF ring] get_entry_def)
  have ln: "links ?s = del_entry (link_of ?q t) ?h"
    by (simp add: e upd_links_def runq_add_thread_interruptible_def)
  have k1: "keeps_rings {Runq_link} (links s) ?h"
    using keeps_rings_add [OF rq, of t] by simp
  have q1: "ring_of ?h ?q (t # ws)" "ring_of ?h sleeping_head sq"
    using keeps_ringsD [OF k1 ring] keeps_ringsD [OF k1 sq] by simp_all
  have r1: "ring_of ?h runnable_threads (rq @ [t])" using ring_of_add [OF rq t] by simp
  note k2 = keeps_rings_del_first [OF q1(1)]
  have "ring_of (links ?s) ?q ws" "ring_of (links ?s) runnable_threads (rq @ [t])"
    "ring_of (links ?s) sleeping_head sq"
    using ring_of_del_first [OF q1(1)] keeps_ringsD [OF k2 r1] keeps_ringsD [OF k2 q1(2)]
    unfolding ln by simp_all
  moreover have "status (threads ?s u) = (if u = t then RUNNABLE else status (threads s u))"
    "thr_id (threads ?s u) = thr_id (threads s u)" for u
    by (simp_all add: e upd_links_def)
  moreover have "sleeping_threads ?s = sleeping_threads s" by (simp add: e upd_links_def)
  moreover have "distinct (t # ws)" by (rule ring_of_distinct [OF ring])
  ultimately show ?thesis
    using w by (auto simp: wait_inv_def queue_inv_def sched_inv_def live_def queue_defs)
qed

lemma wait_inv_cong:
  assumes "wait_inv m s rq sq ws" "links s' = links s" "threads s' = threads s"
    "curr_thread s' = curr_thread s" "sleeping_threads s' = sleeping_threads s"
    "tasks s' = tasks s" "idle_task s' = idle_task s"
  shows "wait_inv m s' rq sq ws"
proof -
  have "idle_thread s' = idle_thread s" using assms by (simp add: idle_thread_def get_idle_task_def)
  then show ?thesis
    using assms unfolding wait_inv_def queue_inv_def sched_inv_def live_def queue_defs by simp blast
qed

section \<open>The lock as a state machine\<close>

text \<open>
  What any number of threads do to one mutex: a thread takes the lock, blocks on it, is resumed in its
  continuation, releases it; the timer ticks and switches threads at any moment.
\<close>

datatype 's pc = Outside | Trying "(unit, 's) kop" | Holding

inductive lock_step :: "mutex_ptr \<Rightarrow> 'a kstate_scheme \<times> (addr \<Rightarrow> 'a kstate_scheme pc) \<Rightarrow>
    'a kstate_scheme \<times> (addr \<Rightarrow> 'a kstate_scheme pc) \<Rightarrow> bool" for m where
  lock_free: "lock_step m (s, pc) (s', pc(t := Holding))"
    if "t = curr_thread s" "t \<noteq> idle_thread s" "pc t = Outside" "mutex_lock (Some m) s = Ok () s'"
| lock_taken: "lock_step m (s, pc) (s', pc(t := Trying k))"
    if "t = curr_thread s" "t \<noteq> idle_thread s" "pc t = Outside" "mutex_lock (Some m) s = Blocked s' k"
| resume_free: "lock_step m (s, pc) (s', pc(t := Holding))"
    if "t = curr_thread s" "pc t = Trying k" "k s = Ok () s'"
| resume_taken: "lock_step m (s, pc) (s', pc(t := Trying k'))"
    if "t = curr_thread s" "pc t = Trying k" "k s = Blocked s' k'"
| unlock: "lock_step m (s, pc) (s', pc(t := Outside))"
    if "t = curr_thread s" "pc t = Holding" "mutex_unlock (Some m) s = Ok () s'"
| tick: "lock_step m (s, pc) (s\<lparr>tick_counter := tick_counter s + 1\<rparr>, pc)"
| preempt: "lock_step m (s, pc) (context_switch s, pc)"

inductive_cases lock_stepE: "lock_step m (s, pc) c"

definition lock_init :: "mutex_ptr \<Rightarrow> 'a kstate_scheme \<times> (addr \<Rightarrow> 'a kstate_scheme pc) \<Rightarrow> bool" where
  "lock_init m c \<longleftrightarrow> (\<exists>rq sq. wait_inv m (fst c) rq sq []) \<and> mutex_enable (fst c) \<and>
     mutex_value (fst c) m = 1 \<and> (\<forall>t. snd c t = Outside)"

text \<open>
  The invariant: the value says whether somebody holds the lock, waiters are the threads blocked in
  \<open>mutex_lock\<close>, and when the lock is free with waiters left, a thread that is runnable or running is
  on its way to take it.
\<close>

definition lock_inv_on :: "mutex_ptr \<Rightarrow> 'a kstate_scheme \<Rightarrow> (addr \<Rightarrow> 'a kstate_scheme pc) \<Rightarrow>
    addr list \<Rightarrow> addr list \<Rightarrow> addr list \<Rightarrow> bool" where
  "lock_inv_on m s pc rq sq ws \<longleftrightarrow>
     wait_inv m s rq sq ws \<and> mutex_enable s \<and> mutex_value s m \<in> {0, 1} \<and>
     (\<forall>t \<in> set ws. pc t = Trying (mutex_retry m)) \<and>
     (\<forall>t k. pc t = Trying k \<longrightarrow> k = mutex_retry m \<and> t \<noteq> idle_thread s \<and>
        t \<in> set ws \<union> set rq \<union> {curr_thread s}) \<and>
     (mutex_value s m = 0 \<longrightarrow> (\<exists>h. pc h = Holding)) \<and>
     (\<forall>t u. pc t = Holding \<longrightarrow> pc u = Holding \<longrightarrow> t = u \<and> mutex_value s m = 0) \<and>
     (mutex_value s m = 1 \<longrightarrow> ws \<noteq> [] \<longrightarrow>
        (\<exists>t \<in> set rq \<union> {curr_thread s}. pc t = Trying (mutex_retry m)))"

definition lock_inv :: "mutex_ptr \<Rightarrow> 'a kstate_scheme \<times> (addr \<Rightarrow> 'a kstate_scheme pc) \<Rightarrow> bool" where
  "lock_inv m c \<longleftrightarrow> (\<exists>rq sq ws. lock_inv_on m (fst c) (snd c) rq sq ws)"

lemma idle_thread_context_switch [simp]: "idle_thread (context_switch s) = idle_thread s"
  by (simp add: idle_thread_def get_idle_task_def)

lemma enqueue_waiter_keeps [simp]:
  "mutex_value (enqueue_waiter m s) = mutex_value s" "mutex_enable (enqueue_waiter m s) = mutex_enable s"
  "idle_thread (enqueue_waiter m s) = idle_thread s"
  by (simp_all add: enqueue_waiter_def Let_def upd_links_def idle_thread_def get_idle_task_def)

lemma idle_thread_mutex [simp]:
  "idle_thread (disable_interrupts_mutex s) = idle_thread s"
  "idle_thread (enable_interrupts_mutex s) = idle_thread s"
  "idle_thread (set_mutex m v s) = idle_thread s"
  by (simp_all add: idle_thread_def get_idle_task_def)

lemma lock_inv_onD:
  assumes "lock_inv_on m s pc rq sq ws"
  shows "wait_inv m s rq sq ws"
    and "t \<in> set ws \<Longrightarrow> pc t = Trying (mutex_retry m)"
    and "pc t = Trying k \<Longrightarrow>
      k = mutex_retry m \<and> t \<noteq> idle_thread s \<and> t \<in> set ws \<union> set rq \<union> {curr_thread s}"
    and "pc t = Holding \<Longrightarrow> mutex_value s m = 0"
    and "pc t = Holding \<Longrightarrow> pc u = Holding \<Longrightarrow> t = u"
    and "mutex_value s m = 1 \<Longrightarrow> ws \<noteq> [] \<Longrightarrow>
      \<exists>t \<in> set rq \<union> {curr_thread s}. pc t = Trying (mutex_retry m)"
proof -
  note i = assms [unfolded lock_inv_on_def]
  show "wait_inv m s rq sq ws" using i by (elim conjE)
  show "pc t = Trying (mutex_retry m)" if "t \<in> set ws"
    using i that by (elim conjE) (erule (1) bspec)
  show "k = mutex_retry m \<and> t \<noteq> idle_thread s \<and> t \<in> set ws \<union> set rq \<union> {curr_thread s}"
    if "pc t = Trying k" using i that by (elim conjE) metis
  show "mutex_value s m = 0" if "pc t = Holding" using i that by (elim conjE) metis
  show "t = u" if "pc t = Holding" "pc u = Holding" using i that by (elim conjE) metis
  show "\<exists>t \<in> set rq \<union> {curr_thread s}. pc t = Trying (mutex_retry m)"
    if "mutex_value s m = 1" "ws \<noteq> []" using i that by (elim conjE) (drule (1) mp)+
qed

lemma lock_inv_on_freeI:
  assumes "wait_inv m s rq sq ws" "mutex_enable s" "mutex_value s m = 1"
    and "\<And>t. t \<in> set ws \<Longrightarrow> pc t = Trying (mutex_retry m)"
    and "\<And>t k. pc t = Trying k \<Longrightarrow>
      k = mutex_retry m \<and> t \<noteq> idle_thread s \<and> t \<in> set ws \<union> set rq \<union> {curr_thread s}"
    and "\<And>t. pc t \<noteq> Holding"
    and "ws \<noteq> [] \<Longrightarrow> \<exists>t \<in> set rq \<union> {curr_thread s}. pc t = Trying (mutex_retry m)"
  shows "lock_inv_on m s pc rq sq ws"
proof -
  have "mutex_value s m \<noteq> 0" "mutex_value s m \<in> {0, 1}" using assms(3) by simp_all
  then show ?thesis using assms(1,2,4-7) unfolding lock_inv_on_def by blast
qed

lemma lock_inv_acquire:
  assumes i: "lock_inv_on m s pc rq sq ws" and "mutex_value s m \<noteq> 0" "pc (curr_thread s) \<noteq> Holding"
  defines "s' \<equiv> enable_interrupts_mutex (set_mutex m 0 (disable_interrupts_mutex s))"
  shows "lock_inv_on m s' (pc(curr_thread s := Holding)) rq sq ws"
proof -
  have "wait_inv m s' rq sq ws"
    using i wait_inv_cong [of m s rq sq ws s'] by (simp add: lock_inv_on_def s'_def)
  moreover have "curr_thread s \<notin> set ws" using i by (simp add: lock_inv_on_def wait_inv_def)
  ultimately show ?thesis
    using assms(2,3) i unfolding lock_inv_on_def by (auto simp: s'_def)
qed

lemma lock_inv_block:
  assumes i: "lock_inv_on m s pc rq sq ws" and v: "mutex_value s m = 0"
    and t: "pc (curr_thread s) \<noteq> Holding" "curr_thread s \<noteq> idle_thread s"
  defines "s' \<equiv> context_switch (enqueue_waiter m (disable_interrupts_mutex s))"
  shows "\<exists>rq' sq'. lock_inv_on m s' (pc(curr_thread s := Trying (mutex_retry m))) rq' sq' (ws @ [curr_thread s])"
proof -
  have "wait_inv m (disable_interrupts_mutex s) rq sq ws"
    using i wait_inv_cong [of m s rq sq ws "disable_interrupts_mutex s"] by (simp add: lock_inv_on_def)
  from enqueue_switch_inv [OF this] t obtain rq' sq' where
    w: "wait_inv m s' rq' sq' (ws @ [curr_thread s])" "set rq \<subseteq> insert (curr_thread s') (set rq')"
    by (auto simp: s'_def)
  obtain h where h: "pc h = Holding" "h \<noteq> curr_thread s"
    using i v t unfolding lock_inv_on_def by metis
  have "lock_inv_on m s' (pc(curr_thread s := Trying (mutex_retry m))) rq' sq' (ws @ [curr_thread s])"
    using i v t w h unfolding lock_inv_on_def by (auto simp: s'_def intro!: exI [of _ h])
  then show ?thesis by blast
qed

lemma lock_inv_release:
  assumes i: "lock_inv_on m s pc rq sq ws" and h: "pc (curr_thread s) = Holding"
  defines "s' \<equiv> enable_interrupts_mutex (set_mutex m 1 (wake_waiter m (disable_interrupts_mutex s)))"
  shows "\<exists>rq' ws'. lock_inv_on m s' (pc(curr_thread s := Outside)) rq' sq ws'"
proof -
  let ?s = "disable_interrupts_mutex s"
  have w: "wait_inv m ?s rq sq ws"
    using i wait_inv_cong [of m s rq sq ws ?s] by (simp add: lock_inv_on_def)
  have c: "wait_inv m (wake_waiter m ?s) rq' sq ws' \<Longrightarrow> wait_inv m s' rq' sq ws'" for rq' ws'
    using wait_inv_cong [of m "wake_waiter m ?s" rq' sq ws' s'] by (simp add: s'_def)
  show ?thesis
  proof (cases ws)
    case Nil
    with w have "wake_waiter m ?s = ?s"
      by (intro wake_waiter_empty) (simp add: wait_inv_def queue_inv_def)
    with c w have "wait_inv m s' rq sq ws" by simp
    with i h Nil have "lock_inv_on m s' (pc(curr_thread s := Outside)) rq sq ws"
      unfolding lock_inv_on_def by (auto simp: s'_def)
    then show ?thesis by blast
  next
    case (Cons t ws')
    with w c wake_waiter_inv have w': "wait_inv m s' (rq @ [t]) sq ws'" by blast
    have pt: "pc t = Trying (mutex_retry m)" using lock_inv_onD(2) [OF i] Cons by simp
    have "lock_inv_on m s' (pc(curr_thread s := Outside)) (rq @ [t]) sq ws'"
    proof (rule lock_inv_on_freeI)
      show "wait_inv m s' (rq @ [t]) sq ws'" by (rule w')
      show "mutex_enable s'" "mutex_value s' m = 1" using i by (simp_all add: s'_def lock_inv_on_def)
      have f: "curr_thread s' = curr_thread s" "idle_thread s' = idle_thread s" by (simp_all add: s'_def)
      show "(pc(curr_thread s := Outside)) u = Trying (mutex_retry m)" if "u \<in> set ws'" for u
        using lock_inv_onD(2) [OF i, of u] that h Cons by auto
      show "k = mutex_retry m \<and> u \<noteq> idle_thread s' \<and> u \<in> set ws' \<union> set (rq @ [t]) \<union> {curr_thread s'}"
        if "(pc(curr_thread s := Outside)) u = Trying k" for u k
        using lock_inv_onD(3) [OF i, of u k] that Cons f by (auto split: if_splits)
      show "(pc(curr_thread s := Outside)) u \<noteq> Holding" for u
        using lock_inv_onD(5) [OF i h, of u] by auto
      show "\<exists>u \<in> set (rq @ [t]) \<union> {curr_thread s'}. (pc(curr_thread s := Outside)) u = Trying (mutex_retry m)"
        using pt h by (intro bexI [of _ t]) auto
    qed
    then show ?thesis by blast
  qed
qed

lemma lock_inv_preempt:
  assumes i: "lock_inv_on m s pc rq sq ws"
  shows "\<exists>rq' sq'. lock_inv_on m (context_switch s) pc rq' sq' ws"
proof -
  have q: "queue_inv m s rq sq ws" using i by (simp add: lock_inv_on_def wait_inv_def)
  from switch_queue_inv [OF q] obtain rq' sq' where
    w: "wait_inv m (context_switch s) rq' sq' ws"
      "set rq \<union> set (requeued s) \<subseteq> insert (curr_thread (context_switch s)) (set rq')" by blast
  have "curr_thread s \<in> set (requeued s)" if "curr_thread s \<noteq> idle_thread s"
    using that i by (auto simp: requeued_def lock_inv_on_def wait_inv_def queue_inv_def)
  with w(2) have aw: "t \<in> set rq' \<union> {curr_thread (context_switch s)}"
    if "t \<in> set rq \<union> {curr_thread s}" "t \<noteq> idle_thread s" for t
    using that by auto
  have tr: "k = mutex_retry m \<and> t \<noteq> idle_thread s \<and> t \<in> set ws \<union> set rq' \<union> {curr_thread (context_switch s)}"
    if "pc t = Trying k" for t k
    using lock_inv_onD(3) [OF i that] aw [of t] by blast
  have "\<exists>t \<in> set rq' \<union> {curr_thread (context_switch s)}. pc t = Trying (mutex_retry m)"
    if "mutex_value s m = 1" "ws \<noteq> []"
  proof -
    from lock_inv_onD(6) [OF i that] obtain t where
      "t \<in> set rq \<union> {curr_thread s}" "pc t = Trying (mutex_retry m)" by blast
    with aw tr show ?thesis by blast
  qed
  with i w(1) tr have "lock_inv_on m (context_switch s) pc rq' sq' ws"
    by (simp add: lock_inv_on_def)
  then show ?thesis by blast
qed

lemma lock_step_inv:
  assumes "lock_inv m c" "lock_step m c c'"
  shows "lock_inv m c'"
proof -
  obtain rq sq ws where i: "lock_inv_on m (fst c) (snd c) rq sq ws"
    using assms(1) by (auto simp: lock_inv_def)
  have ret: "k = mutex_retry m \<and> t \<noteq> idle_thread (fst c)" if "snd c t = Trying k" for t k
    using lock_inv_onD(3) [OF i that] by simp
  show ?thesis using assms(2)
  proof (cases rule: lock_step.cases)
    case (lock_free t s pc s')
    then have "mutex_value s m \<noteq> 0" "s' = enable_interrupts_mutex (set_mutex m 0 (disable_interrupts_mutex s))"
      by (simp_all add: mutex_lock_eq mutex_retry_unfold split: if_splits)
    with lock_free i lock_inv_acquire [of m s pc rq sq ws] show ?thesis by (auto simp: lock_inv_def)
  next
    case (lock_taken t s pc s' k)
    then have "mutex_value s m = 0" "k = mutex_retry m"
      "s' = context_switch (enqueue_waiter m (disable_interrupts_mutex s))"
      by (simp_all add: mutex_lock_eq mutex_retry_unfold split: if_splits)
    with lock_taken i lock_inv_block [of m s pc rq sq ws] show ?thesis by (auto simp: lock_inv_def)
  next
    case (resume_free t s pc k s')
    then have "mutex_value s m \<noteq> 0" "s' = enable_interrupts_mutex (set_mutex m 0 (disable_interrupts_mutex s))"
      using ret [of t k] by (simp_all add: mutex_retry_unfold split: if_splits)
    with resume_free i lock_inv_acquire [of m s pc rq sq ws] show ?thesis by (auto simp: lock_inv_def)
  next
    case (resume_taken t s pc k s' k')
    then have "mutex_value s m = 0" "k' = mutex_retry m"
      "s' = context_switch (enqueue_waiter m (disable_interrupts_mutex s))" "t \<noteq> idle_thread s"
      using ret [of t k] by (simp_all add: mutex_retry_unfold split: if_splits)
    with resume_taken i lock_inv_block [of m s pc rq sq ws] show ?thesis by (auto simp: lock_inv_def)
  next
    case (unlock t s pc s')
    then have "s' = enable_interrupts_mutex (set_mutex m 1 (wake_waiter m (disable_interrupts_mutex s)))"
      by (simp add: mutex_unlock_eq split: if_splits)
    with unlock i lock_inv_release [of m s pc rq sq ws] show ?thesis by (auto simp: lock_inv_def)
  next
    case (tick s pc)
    have "wait_inv m (s\<lparr>tick_counter := tick_counter s + 1\<rparr>) rq sq ws"
      by (rule wait_inv_cong [of m s]) (use i tick in \<open>simp_all add: lock_inv_on_def\<close>)
    then have "lock_inv_on m (s\<lparr>tick_counter := tick_counter s + 1\<rparr>) pc rq sq ws"
      using i tick by (simp add: lock_inv_on_def idle_thread_def get_idle_task_def)
    with tick show ?thesis by (auto simp: lock_inv_def)
  next
    case (preempt s pc)
    with i lock_inv_preempt [of m s pc rq sq ws] show ?thesis by (auto simp: lock_inv_def)
  qed
qed

interpretation lock_sys: invariant_system "lock_init m" "lock_step m" "lock_inv m" for m
proof
  fix c :: "'a kstate_scheme \<times> (addr \<Rightarrow> 'a kstate_scheme pc)"
  assume "lock_init m c"
  then obtain rq sq where "lock_inv_on m (fst c) (snd c) rq sq []"
    by (auto simp: lock_init_def lock_inv_on_def)
  then show "lock_inv m c" by (auto simp: lock_inv_def)
next
  fix c c' :: "'a kstate_scheme \<times> (addr \<Rightarrow> 'a kstate_scheme pc)"
  assume "lock_inv m c" "lock_step m c c'"
  then show "lock_inv m c'" by (rule lock_step_inv)
qed

section \<open>Waking the waiters of a condition variable\<close>

definition cond_inv :: "cond_ptr \<Rightarrow> 'a kstate_scheme \<Rightarrow> addr list \<Rightarrow> addr list \<Rightarrow> bool" where
  "cond_inv c s rq ws \<longleftrightarrow>
     runq s rq \<and> ring_of (links s) (waiting_of_cond c) ws \<and> set rq \<inter> set ws = {} \<and>
     ring_of (links s) (waiting_of_mutex (queue_mutex c)) []"

definition woken :: "addr \<Rightarrow> 'a kstate_scheme \<Rightarrow> 'a kstate_scheme" where
  "woken t s = upd_links (del_entry (Cond_wait_link, t)) (wake_cond t s)"

lemma wake_cond_fields [simp]:
  "links (wake_cond t s) = add_to_tail (Runq_link, t) runnable_threads (links s)"
  "mutex_value (wake_cond t s) = mutex_value s" "mutex_enable (wake_cond t s) = mutex_enable s"
  "cond_status (wake_cond t s) = cond_status s" "curr_thread (wake_cond t s) = curr_thread s"
  "status (threads (wake_cond t s) u) = (if u = t then RUNNABLE else status (threads s u))"
  "int_flag (wake_cond t s)"
  by (simp_all add: wake_cond_def runq_add_thread_def runq_add_thread_interruptible_def upd_links_def)

lemma woken_fields [simp]:
  "mutex_value (woken t s) = mutex_value s" "mutex_enable (woken t s) = mutex_enable s"
  "cond_status (woken t s) = cond_status s" "curr_thread (woken t s) = curr_thread s"
  "status (threads (woken t s) u) = (if u = t then RUNNABLE else status (threads s u))"
  "int_flag (woken t s)"
  by (simp_all add: woken_def upd_links_def)

lemma woken_inv:
  assumes i: "cond_inv c s rq (t # ws)"
  shows "cond_inv c (woken t s) (rq @ [t]) ws"
    and "nxt (links (wake_cond t s)) (Cond_wait_link, t) =
      (case ws of [] \<Rightarrow> waiting_of_cond c | u # _ \<Rightarrow> (Cond_wait_link, u))"
proof -
  let ?q = "waiting_of_cond c" and ?m = "waiting_of_mutex (queue_mutex c)"
  let ?h = "links (wake_cond t s)"
  have rq: "ring_of (links s) runnable_threads rq" and ws: "ring_of (links s) ?q (t # ws)"
    and m: "ring_of (links s) ?m []" and t: "t \<notin> set rq"
    using i by (auto simp: cond_inv_def runq_def)
  have k: "keeps_rings {Runq_link} (links s) ?h" using keeps_rings_add [OF rq] by simp
  have r1: "ring_of ?h runnable_threads (rq @ [t])" using ring_of_add [OF rq t] by simp
  have w1: "ring_of ?h ?q (t # ws)" using keeps_ringsD [OF k ws] by simp
  have m1: "ring_of ?h ?m []" using keeps_ringsD [OF k m] by simp
  note k2 = keeps_rings_del_first [OF w1]
  have "links (woken t s) = del_entry (link_of ?q t) ?h" by (simp add: woken_def upd_links_def)
  moreover have "set (rq @ [t]) \<inter> set ws = {}"
    using i ring_of_distinct [OF ws] by (auto simp: cond_inv_def)
  ultimately show "cond_inv c (woken t s) (rq @ [t]) ws"
    using ring_of_del_first [OF w1] keeps_ringsD [OF k2 r1] keeps_ringsD [OF k2 m1]
    by (simp add: cond_inv_def runq_def)
  show "nxt ?h (Cond_wait_link, t) = (case ws of [] \<Rightarrow> ?q | u # _ \<Rightarrow> (Cond_wait_link, u))"
    using ring_of_next [OF w1] by (simp split: list.split)
qed

lemma broadcast_loop_wakes_all:
  assumes "cond_inv c s rq ws"
  shows "\<exists>s'. broadcast_loop (waiting_of_cond c)
      (case ws of [] \<Rightarrow> waiting_of_cond c | t # _ \<Rightarrow> (Cond_wait_link, t)) s = Some ((), s') \<and>
    cond_inv c s' (rq @ ws) [] \<and> mutex_value s' = mutex_value s \<and> mutex_enable s' = mutex_enable s \<and>
    (\<forall>u. status (threads s' u) = (if u \<in> set ws then RUNNABLE else status (threads s u)))"
  using assms
proof (induction ws arbitrary: s rq)
  case Nil
  then show ?case by (subst broadcast_loop.simps) simp
next
  case (Cons t ws)
  have "(Cond_wait_link, t) \<noteq> waiting_of_cond c" by (simp add: waiting_of_cond_def)
  then have step: "broadcast_loop (waiting_of_cond c) (Cond_wait_link, t) s =
      broadcast_loop (waiting_of_cond c)
        (case ws of [] \<Rightarrow> waiting_of_cond c | u # _ \<Rightarrow> (Cond_wait_link, u)) (woken t s)"
    using woken_inv(2) [OF Cons.prems]
    by (subst broadcast_loop.simps) (simp add: get_entry_def woken_def Let_def)
  from Cons.IH [OF woken_inv(1) [OF Cons.prems]] show ?case by (auto simp: step)
qed

lemma int_save_eq:
  "mutex_value s m = 1 \<Longrightarrow> mutex_lock_int_save (Some m) s =
     Ok () ((if int_flag s then enable_interrupts_mutex else id) (set_mutex m 0 (disable_interrupts_mutex s)))"
  "mutex_value s m = 0 \<Longrightarrow> ring_of (links s) (waiting_of_mutex m) [] \<Longrightarrow>
   mutex_unlock_int_save (Some m) s =
     Ok () ((if int_flag s then enable_interrupts_mutex else id) (set_mutex m 1 (disable_interrupts_mutex s)))"
  by (simp_all add: mutex_lock_int_save_def mutex_unlock_int_save_def with_mutex_def kop_defs
      mutex_acquire_eq wake_waiter_empty)

lemma cond_inv_cong:
  "cond_inv c s rq ws \<Longrightarrow> links s' = links s \<Longrightarrow> cond_inv c s' rq ws"
  by (simp add: cond_inv_def runq_def)

text \<open>Both wake-ups run under the queue mutex; what is left of them is the middle step.\<close>

lemma with_cond_int_save:
  assumes "cond_status s c = COND_VAR_VALID" "mutex_value s (queue_mutex c) = 1"
    and body: "\<And>s1. links s1 = links s \<Longrightarrow> threads s1 = threads s \<Longrightarrow> mutex_enable s1 = mutex_enable s \<Longrightarrow>
      mutex_value s1 = (mutex_value s)(queue_mutex c := 0) \<Longrightarrow> (int_flag s1 \<longrightarrow> int_flag s) \<Longrightarrow>
      \<exists>s2. f c s1 = Ok () s2 \<and> Q s1 s2 \<and> mutex_value s2 = mutex_value s1 \<and> mutex_enable s2 = mutex_enable s1 \<and>
        ring_of (links s2) (waiting_of_mutex (queue_mutex c)) []"
  shows "\<exists>s1 s2 s'. with_cond (Some c) (\<lambda>c. kseq
       [mutex_lock_int_save (Some (queue_mutex c)), f c, mutex_unlock_int_save (Some (queue_mutex c))]) s = Ok () s' \<and>
     Q s1 s2 \<and> links s1 = links s \<and> threads s1 = threads s \<and> (int_flag s1 \<longrightarrow> int_flag s) \<and>
     links s' = links s2 \<and> threads s' = threads s2 \<and> mutex_value s' = mutex_value s \<and>
     (int_flag s2 \<longrightarrow> int_flag s')"
proof -
  define s1 where "s1 = (if int_flag s then enable_interrupts_mutex else id)
     (set_mutex (queue_mutex c) 0 (disable_interrupts_mutex s))"
  have f1: "links s1 = links s" "threads s1 = threads s" "mutex_enable s1 = mutex_enable s"
    "mutex_value s1 = (mutex_value s)(queue_mutex c := 0)" "int_flag s1 \<longrightarrow> int_flag s"
    by (simp_all add: s1_def disable_interrupts_mutex_def)
  moreover from body [OF f1] f1 obtain s2 where s2: "f c s1 = Ok () s2" "Q s1 s2"
    "mutex_value s2 = (mutex_value s)(queue_mutex c := 0)"
    "ring_of (links s2) (waiting_of_mutex (queue_mutex c)) []" by auto
  moreover define s' where "s' = (if int_flag s2 then enable_interrupts_mutex else id)
     (set_mutex (queue_mutex c) 1 (disable_interrupts_mutex s2))"
  moreover have "links s' = links s2" "threads s' = threads s2" "mutex_value s' = mutex_value s"
    "int_flag s2 \<longrightarrow> int_flag s'"
    using s2(3) assms(2)
    by (simp_all add: s'_def fun_upd_idem enable_interrupts_mutex_def disable_interrupts_mutex_def)
  moreover have "with_cond (Some c) (\<lambda>c. kseq
       [mutex_lock_int_save (Some (queue_mutex c)), f c, mutex_unlock_int_save (Some (queue_mutex c))]) s = Ok () s'"
    using assms(1,2) s2 [unfolded s1_def] int_save_eq(2) [of s2 "queue_mutex c"]
    by (simp add: with_cond_def kop_defs int_save_eq(1) s1_def s'_def)
  ultimately show ?thesis by (intro exI [of _ s1] exI [of _ s2] exI [of _ s']) simp
qed

lemma cond_signal_effect:
  assumes "cond_inv c s rq (t # ws)" "cond_status s c = COND_VAR_VALID" "mutex_value s (queue_mutex c) = 1"
  shows "\<exists>s'. cond_signal (Some c) s = Ok () s' \<and> cond_inv c s' (rq @ [t]) ws \<and>
    mutex_value s' = mutex_value s \<and> int_flag s' \<and>
    (\<forall>u. status (threads s' u) = (if u = t then RUNNABLE else status (threads s u)))"
proof -
  let ?Q = "\<lambda>(s1 :: 'a kstate_scheme) (s2 :: 'a kstate_scheme). s2 = woken t s1 \<and> cond_inv c s2 (rq @ [t]) ws"
  have w: "cond_inv c (woken t s1) (rq @ [t]) ws" if "links s1 = links s" for s1 :: "'a kstate_scheme"
    using woken_inv(1) cond_inv_cong assms(1) that by blast
  have g: "get_first (waiting_of_cond c) (links s) = Some (Cond_wait_link, t)"
    using assms(1) by (auto simp: cond_inv_def dest!: ring_of_first)
  let ?f = "\<lambda>c. kmodify (\<lambda>s :: 'a kstate_scheme. case get_first (waiting_of_cond c) (links s) of
          None \<Rightarrow> s
        | Some waiting_thread \<Rightarrow>
            (let t = get_entry waiting_thread
             in upd_links (del_entry (Cond_wait_link, t)) (wake_cond t s)))"
  have body: "\<exists>s2. ?f c s1 = Ok () s2 \<and> ?Q s1 s2 \<and> mutex_value s2 = mutex_value s1 \<and>
      mutex_enable s2 = mutex_enable s1 \<and> ring_of (links s2) (waiting_of_mutex (queue_mutex c)) []"
    if l: "links s1 = links s" for s1 :: "'a kstate_scheme"
  proof -
    have "?f c s1 = Ok () (woken t s1)" by (simp add: kop_defs l g get_entry_def woken_def)
    with w [OF l] show ?thesis by (simp add: cond_inv_def)
  qed
  have "\<exists>(s1 :: 'a kstate_scheme) (s2 :: 'a kstate_scheme) s'. cond_signal (Some c) s = Ok () s' \<and> ?Q s1 s2 \<and> links s1 = links s \<and>
     threads s1 = threads s \<and> (int_flag s1 \<longrightarrow> int_flag s) \<and>
     links s' = links s2 \<and> threads s' = threads s2 \<and> mutex_value s' = mutex_value s \<and>
     (int_flag s2 \<longrightarrow> int_flag s')"
    unfolding cond_signal_def
    by (rule with_cond_int_save [OF assms(2,3), where Q = ?Q]) (rule body)
  then obtain s1 s2 :: "'a kstate_scheme" and s' where "cond_signal (Some c) s = Ok () s'" "s2 = woken t s1"
    "cond_inv c s2 (rq @ [t]) ws" "threads s1 = threads s" "links s' = links s2"
    "threads s' = threads s2" "mutex_value s' = mutex_value s" "int_flag s2 \<longrightarrow> int_flag s'"
    by blast
  moreover from this have "cond_inv c s' (rq @ [t]) ws" using cond_inv_cong [of c s2] by blast
  ultimately show ?thesis by simp
qed

lemma cond_signal_nobody:
  assumes "cond_inv c s rq []" "cond_status s c = COND_VAR_VALID" "mutex_value s (queue_mutex c) = 1"
  shows "\<exists>s'. cond_signal (Some c) s = Ok () s' \<and> links s' = links s \<and> threads s' = threads s \<and>
    mutex_value s' = mutex_value s"
proof -
  have g: "get_first (waiting_of_cond c) (links s) = None"
    using assms(1) by (auto simp: cond_inv_def dest!: ring_of_first)
  have "\<exists>(s1 :: 'a kstate_scheme) (s2 :: 'a kstate_scheme) s'. cond_signal (Some c) s = Ok () s' \<and> s2 = s1 \<and> links s1 = links s \<and>
     threads s1 = threads s \<and> (int_flag s1 \<longrightarrow> int_flag s) \<and>
     links s' = links s2 \<and> threads s' = threads s2 \<and> mutex_value s' = mutex_value s \<and>
     (int_flag s2 \<longrightarrow> int_flag s')"
    unfolding cond_signal_def
    by (rule with_cond_int_save [OF assms(2,3), where Q = "\<lambda>s1 s2. s2 = s1"])
      (use g assms(1) in \<open>auto simp: kop_defs cond_inv_def\<close>)
  then show ?thesis by auto
qed

lemma cond_broadcast_effect:
  assumes "cond_inv c s rq ws" "cond_status s c = COND_VAR_VALID" "mutex_value s (queue_mutex c) = 1"
  shows "\<exists>s'. cond_broadcast (Some c) s = Ok () s' \<and> cond_inv c s' (rq @ ws) [] \<and>
    mutex_value s' = mutex_value s \<and>
    (\<forall>u. status (threads s' u) = (if u \<in> set ws then RUNNABLE else status (threads s u)))"
proof -
  let ?Q = "\<lambda>(s1 :: 'a kstate_scheme) (s2 :: 'a kstate_scheme). cond_inv c s2 (rq @ ws) [] \<and>
    (\<forall>u. status (threads s2 u) = (if u \<in> set ws then RUNNABLE else status (threads s1 u)))"
  let ?f = "\<lambda>c s. case get_first (waiting_of_cond c) (links s) of
          None \<Rightarrow> Ok () s
        | Some waiting_thread \<Rightarrow> kloop (broadcast_loop (waiting_of_cond c) waiting_thread) s"
  have body: "\<exists>s2. ?f c s1 = Ok () s2 \<and> ?Q s1 s2 \<and> mutex_value s2 = mutex_value s1 \<and>
      mutex_enable s2 = mutex_enable s1 \<and> ring_of (links s2) (waiting_of_mutex (queue_mutex c)) []"
    if l: "links s1 = links s" for s1 :: "'a kstate_scheme"
  proof -
    have i: "cond_inv c s1 rq ws" using assms(1) l by (rule cond_inv_cong)
    then have g: "get_first (waiting_of_cond c) (links s1) =
        (case ws of [] \<Rightarrow> None | t # _ \<Rightarrow> Some (Cond_wait_link, t))"
      using ring_of_first [of "links s1" "waiting_of_cond c" ws]
      by (simp add: cond_inv_def split: list.split)
    show ?thesis
      using broadcast_loop_wakes_all [OF i] i g
      by (cases ws) (auto simp: kop_defs cond_inv_def)
  qed
  have "\<exists>(s1 :: 'a kstate_scheme) (s2 :: 'a kstate_scheme) s'. cond_broadcast (Some c) s = Ok () s' \<and> ?Q s1 s2 \<and> links s1 = links s \<and>
     threads s1 = threads s \<and> (int_flag s1 \<longrightarrow> int_flag s) \<and>
     links s' = links s2 \<and> threads s' = threads s2 \<and> mutex_value s' = mutex_value s \<and>
     (int_flag s2 \<longrightarrow> int_flag s')"
    unfolding cond_broadcast_def
    by (rule with_cond_int_save [OF assms(2,3), where Q = ?Q]) (rule body)
  then obtain s1 s2 :: "'a kstate_scheme" and s' where "cond_broadcast (Some c) s = Ok () s'" "?Q s1 s2"
    "threads s1 = threads s" "links s' = links s2"
    "threads s' = threads s2" "mutex_value s' = mutex_value s"
    by blast
  moreover from this have "cond_inv c s' (rq @ ws) []" using cond_inv_cong by blast
  ultimately show ?thesis by auto
qed

section \<open>The properties\<close>

lemma sample_state_ring:
  assumes "is_head (fst q)" "q \<noteq> runnable_threads" "member_link (fst q) \<noteq> Runq_link"
  shows "ring_of (links sample_state) q []"
proof -
  let ?h = "init_head sleeping_head (init_head runnable_threads (links blank_state))"
  have b: "ring_of (links blank_state) r []" if "is_head (fst r)" for r
    using that by (simp add: ring_of_def dlist_def blank_state_def)
  have r: "ring_of ?h runnable_threads []" by (intro ring_of_init_frame ring_of_init) simp_all
  have q: "ring_of ?h q []"
  proof (cases "q = sleeping_head")
    case True
    then show ?thesis by (simp add: ring_of_init)
  next
    case False
    then show ?thesis using assms b [OF assms(1)] by (intro ring_of_init_frame) auto
  qed
  note r1 = ring_of_add [OF r, of "0x20"]
  have "ring_of (add_to_tail (Runq_link, 0x30) runnable_threads
      (add_to_tail (Runq_link, 0x20) runnable_threads ?h)) q []"
    using keeps_ringsD [OF keeps_rings_add [OF r1, of "0x30"] keeps_ringsD [OF keeps_rings_add [OF r] q]] assms(3)
    by simp
  then show ?thesis by (simp add: sample_state_def runq_add_thread_def runq_add_thread_interruptible_def
        upd_links_def disable_interrupts_def enable_interrupts_def set_status_def blank_state_def)
qed

lemma sample_state_fields [simp]:
  "mutex_value sample_state m = 1" "mutex_enable sample_state" "curr_thread sample_state = 0x10"
  "idle_thread sample_state = 0x100" "cond_status sample_state c = 1"
  "status (threads sample_state 0x10) = RUNNING" "thr_id (threads sample_state t) = uint t"
  by (simp_all add: sample_state_def runq_add_thread_def runq_add_thread_interruptible_def
      upd_links_def state_defs blank_state_def idle_thread_def get_idle_task_def blank_task_def)

lemma sample_lock_init: "lock_init (Map_mutex, 0) (sample_state, \<lambda>_. Outside)"
proof -
  have "wait_inv (Map_mutex, 0) sample_state [0x20, 0x30] [] []"
    using sample_state_inv sample_state_ring [of "waiting_of_mutex (Map_mutex, 0)"]
    by (simp add: wait_inv_def queue_inv_def)
  then show ?thesis by (auto simp: lock_init_def)
qed

definition sample_locked :: kstate where
  "sample_locked = enable_interrupts_mutex (set_mutex (Map_mutex, 0) 0 (disable_interrupts_mutex sample_state))"

lemma sample_lock_reach:
  "(lock_step (Map_mutex, 0))\<^sup>*\<^sup>* (sample_state, \<lambda>_. Outside)
     (sample_locked, (\<lambda>_. Outside)(0x10 := Holding))"
proof (rule r_into_rtranclp, rule lock_free)
  show "mutex_lock (Some (Map_mutex, 0)) sample_state = Ok () sample_locked"
    by (simp add: mutex_lock_eq mutex_retry_unfold sample_locked_def)
qed simp_all

text \<open>
  C2: Mutual exclusion.  Whatever threads lock, block, are woken, unlock and are preempted, in any
  order, at most one of them is between \<^verbatim>\<open>mutex_lock\<close> and \<^verbatim>\<open>mutex_unlock\<close>, and then the value is \<open>0\<close>.
\<close>

theorem mutex_mutual_exclusion:
  assumes "lock_init m c" "(lock_step m)\<^sup>*\<^sup>* c c'" "snd c' t = Holding" "snd c' u = Holding"
  shows "t = u \<and> mutex_value (fst c') m = 0"
proof -
  from lock_sys.reachable_inv [OF assms(1,2)] obtain rq sq ws where
    "lock_inv_on m (fst c') (snd c') rq sq ws" by (auto simp: lock_inv_def)
  from lock_inv_onD(4,5) [OF this] assms(3,4) show ?thesis by blast
qed

theorem mutex_mutual_exclusion_witness: "mutex_value sample_locked (Map_mutex, 0) = 0"
  using mutex_mutual_exclusion [OF sample_lock_init sample_lock_reach, of "0x10" "0x10"] by simp

text \<open>
  C3: No lost wake-up.  In every reachable state the waiting list of the mutex is an intact ring of
  threads in state \<^verbatim>\<open>WAITING\<close>; if the lock is free while threads wait for it, then some thread that
  is running or in the run queue is on its way to take it; every thread blocked in \<^verbatim>\<open>mutex_lock\<close> is in
  that list, in the run queue, or running.
\<close>

theorem mutex_no_lost_wakeup:
  assumes "lock_init m c" "(lock_step m)\<^sup>*\<^sup>* c c'"
  shows "\<exists>rq ws. runq (fst c') rq \<and> ring_of (links (fst c')) (waiting_of_mutex m) ws \<and>
    (\<forall>t \<in> set ws. status (threads (fst c') t) = WAITING) \<and>
    (\<forall>t k. snd c' t = Trying k \<longrightarrow> t \<in> set ws \<union> set rq \<union> {curr_thread (fst c')}) \<and>
    (mutex_value (fst c') m = 1 \<and> ws \<noteq> [] \<longrightarrow>
      (\<exists>t k. t \<in> set rq \<union> {curr_thread (fst c')} \<and> snd c' t = Trying k))"
proof -
  from lock_sys.reachable_inv [OF assms] obtain rq sq ws where
    i: "lock_inv_on m (fst c') (snd c') rq sq ws" by (auto simp: lock_inv_def)
  note d = lock_inv_onD [OF i]
  have "runq (fst c') rq" "ring_of (links (fst c')) (waiting_of_mutex m) ws"
    "\<forall>t \<in> set ws. status (threads (fst c') t) = WAITING"
    using d(1) by (simp_all add: wait_inv_def queue_inv_def sched_inv_def)
  with d(3,6) show ?thesis by (intro exI [of _ rq] exI [of _ ws]) blast
qed

theorem mutex_no_lost_wakeup_witness:
  "\<exists>rq ws. runq sample_locked rq \<and> ring_of (links sample_locked) (waiting_of_mutex (Map_mutex, 0)) ws"
  using mutex_no_lost_wakeup [OF sample_lock_init sample_lock_reach] by auto

text \<open>
  C11: \<^verbatim>\<open>cond_signal\<close> wakes exactly the thread that has waited longest: it leaves the waiting list,
  becomes runnable and goes to the end of the run queue, the queue mutex is released again.  It returns
  with interrupts enabled, even to a caller that had disabled them.
\<close>

theorem cond_signal_wakes_first:
  assumes "cond_inv c s rq (t # ws)" "cond_status s c = COND_VAR_VALID" "mutex_value s (queue_mutex c) = 1"
  shows "\<exists>s'. cond_signal (Some c) s = Ok () s' \<and> cond_inv c s' (rq @ [t]) ws \<and>
    mutex_value s' = mutex_value s \<and> int_flag s' \<and>
    (\<forall>u. status (threads s' u) = (if u = t then RUNNABLE else status (threads s u)))"
  by (rule cond_signal_effect [OF assms])

definition sample_waiting :: kstate where
  "sample_waiting = upd_links (add_to_tail (Cond_wait_link, 0x50) (Cond_waiting Exit_cond, 8)
     \<circ> add_to_tail (Cond_wait_link, 0x40) (Cond_waiting Exit_cond, 8)) (disable_interrupts sample_state)"

lemma sample_waiting_inv:
  "cond_inv (Exit_cond, 8) sample_waiting [0x20, 0x30] [0x40, 0x50]"
  "cond_status sample_waiting (Exit_cond, 8) = COND_VAR_VALID"
  "mutex_value sample_waiting (queue_mutex (Exit_cond, 8)) = 1"
proof -
  let ?c = "(Exit_cond, 8) :: cond_ptr"
  have q: "ring_of (links sample_state) (waiting_of_cond ?c) []"
    by (rule sample_state_ring) simp_all
  note q1 = ring_of_add [OF q, of "0x40"] and k1 = keeps_rings_add [OF q, of "0x40"]
  note q2 = ring_of_add [OF q1, of "0x50"] and k2 = keeps_rings_add [OF q1, of "0x50"]
  have m: "ring_of (links sample_state) (waiting_of_mutex (queue_mutex ?c)) []"
    by (rule sample_state_ring) simp_all
  have r: "ring_of (links sample_state) runnable_threads [0x20, 0x30]"
    using sample_state_inv by (simp add: sched_inv_def runq_def)
  show "cond_inv ?c sample_waiting [0x20, 0x30] [0x40, 0x50]"
    using q2 keeps_ringsD [OF k2 keeps_ringsD [OF k1 m]] keeps_ringsD [OF k2 keeps_ringsD [OF k1 r]]
    by (simp add: cond_inv_def runq_def sample_waiting_def upd_links_def waiting_of_cond_def)
qed (simp_all add: sample_waiting_def upd_links_def )

theorem cond_signal_wakes_first_witness:
  "\<exists>s'. cond_signal (Some (Exit_cond, 8)) sample_waiting = Ok () s' \<and>
     cond_inv (Exit_cond, 8) s' [0x20, 0x30, 0x40] [0x50]"
  using cond_signal_wakes_first [OF sample_waiting_inv] by auto

text \<open>
  C12: \<^verbatim>\<open>cond_broadcast\<close> terminates and wakes every waiting thread: all of them become runnable and
  join the run queue in the order they waited; nobody is left in the waiting list.
\<close>

theorem cond_broadcast_wakes_all:
  assumes "cond_inv c s rq ws" "cond_status s c = COND_VAR_VALID" "mutex_value s (queue_mutex c) = 1"
  shows "\<exists>s'. cond_broadcast (Some c) s = Ok () s' \<and> cond_inv c s' (rq @ ws) [] \<and>
    mutex_value s' = mutex_value s \<and>
    (\<forall>u. status (threads s' u) = (if u \<in> set ws then RUNNABLE else status (threads s u)))"
  by (rule cond_broadcast_effect [OF assms])

theorem cond_broadcast_wakes_all_witness:
  "\<exists>s'. cond_broadcast (Some (Exit_cond, 8)) sample_waiting = Ok () s' \<and>
     cond_inv (Exit_cond, 8) s' [0x20, 0x30, 0x40, 0x50] []"
  using cond_broadcast_wakes_all [OF sample_waiting_inv] by auto

end
