(* ===== verification/Lmm.thy ===== *)
theory Lmm
  imports Prelude
begin

text \<open>
  The list memory manager \<^verbatim>\<open>410kern/lmm\<close>, the allocator under the kernel's \<^verbatim>\<open>malloc\<close>.  A region keeps
  its free blocks in an ascending linked list whose nodes sit in the free memory itself; the model
  has them as a list of address and size.  An operation that fails an \<^verbatim>\<open>assert\<close> returns \<open>None\<close>.
\<close>

section \<open>The code\<close>

record lmm_region =
  reg_nodes :: "(u32 \<times> u32) list"
  reg_min :: u32
  reg_max :: u32
  reg_flags :: u32
  reg_pri :: u32
  reg_free :: u32

type_synonym lmm = "lmm_region list"

abbreviation ALIGN_MASK :: u32 where "ALIGN_MASK \<equiv> mask 3"

definition lmm_init :: lmm where
  "lmm_init = []"

definition region_size :: "lmm_region \<Rightarrow> u32" where
  "region_size r = reg_max r - reg_min r"

fun insert_region :: "lmm_region \<Rightarrow> lmm \<Rightarrow> lmm option" where
  "insert_region reg [] = Some [reg]"
| "insert_region reg (r # rs) =
     (if reg_pri r > reg_pri reg \<or> (reg_pri r = reg_pri reg \<and> region_size r > region_size reg)
      then if reg_max reg \<le> reg_min r \<or> reg_min reg \<ge> reg_max r
           then map_option ((#) r) (insert_region reg rs)
           else None
      else Some (reg # r # rs))"

definition lmm_add_region :: "u32 \<Rightarrow> u32 \<Rightarrow> u32 \<Rightarrow> u32 \<Rightarrow> lmm \<Rightarrow> lmm option" where
  "lmm_add_region addr sz flags pri lmm =
     (let mn = (addr + ALIGN_MASK) AND NOT ALIGN_MASK;
          mx = (addr + sz) AND NOT ALIGN_MASK
      in if mx \<le> mn then Some lmm
         else insert_region \<lparr>reg_nodes = [], reg_min = mn, reg_max = mx, reg_flags = flags,
                reg_pri = pri, reg_free = 0\<rparr> lmm)"

definition head_ok :: "lmm_region \<Rightarrow> bool" where
  "head_ok r \<longleftrightarrow> (case reg_nodes r of [] \<Rightarrow> reg_free r = 0 \<or> reg_min r = 0 | (a, _) # _ \<Rightarrow> a \<ge> reg_min r)"

definition region_ok :: "lmm_region \<Rightarrow> bool" where
  "region_ok r \<longleftrightarrow> head_ok r \<and> reg_free r \<le> region_size r"

definition node_ok :: "u32 \<Rightarrow> u32 \<times> u32 \<Rightarrow> (u32 \<times> u32) list \<Rightarrow> bool" where
  "node_ok mx node rest \<longleftrightarrow>
     fst node AND ALIGN_MASK = 0 \<and> snd node AND ALIGN_MASK = 0 \<and>
     (rest = [] \<or> fst (hd rest) > fst node) \<and> fst node < mx"

fun alloc_nodes :: "u32 \<Rightarrow> u32 \<Rightarrow> (u32 \<times> u32) list \<Rightarrow> (u32 option \<times> (u32 \<times> u32) list) option" where
  "alloc_nodes sz mx [] = Some (None, [])"
| "alloc_nodes sz mx ((a, n) # ns) =
     (if \<not> node_ok mx (a, n) ns then None
      else if n \<ge> sz
      then Some (Some a, if n > sz then (a + sz, n - sz) # ns else ns)
      else map_option (\<lambda>(r, ns'). (r, (a, n) # ns')) (alloc_nodes sz mx ns))"

fun alloc_regions :: "u32 \<Rightarrow> u32 \<Rightarrow> lmm \<Rightarrow> (u32 \<times> lmm) option" where
  "alloc_regions sz flags [] = Some (0, [])"
| "alloc_regions sz flags (r # rs) =
     (if \<not> region_ok r then None
      else if flags AND NOT (reg_flags r) \<noteq> 0
      then map_option (\<lambda>(p, rs'). (p, r # rs')) (alloc_regions sz flags rs)
      else (case alloc_nodes sz (reg_max r) (reg_nodes r) of
          None \<Rightarrow> None
        | Some (None, _) \<Rightarrow> map_option (\<lambda>(p, rs'). (p, r # rs')) (alloc_regions sz flags rs)
        | Some (Some a, ns) \<Rightarrow>
            if reg_free r \<ge> sz
            then Some (a, r\<lparr>reg_nodes := ns, reg_free := reg_free r - sz\<rparr> # rs)
            else None))"

definition lmm_alloc :: "u32 \<Rightarrow> u32 \<Rightarrow> lmm \<Rightarrow> (u32 \<times> lmm) option" where
  "lmm_alloc sz flags lmm =
     (if sz = 0 then None
      else alloc_regions ((sz + ALIGN_MASK) AND NOT ALIGN_MASK) flags lmm)"

definition align_addr :: "nat \<Rightarrow> u32 \<Rightarrow> u32 \<Rightarrow> u32" where
  "align_addr align_bits align_ofs addr =
     fold (\<lambda>i addr. if (addr XOR align_ofs) AND push_bit i 1 \<noteq> 0 then addr + push_bit i 1 else addr)
       [0..<align_bits] addr"

definition cut_node :: "u32 \<Rightarrow> u32 \<Rightarrow> u32 \<times> u32 \<Rightarrow> (u32 \<times> u32) list \<Rightarrow> ((u32 \<times> u32) \<times> (u32 \<times> u32) list) option" where
  "cut_node addr sz node ns =
     (let anode = addr AND NOT ALIGN_MASK;
          split_size = anode - fst node;
          asize = snd node - split_size;
          sz' = ((addr AND ALIGN_MASK) + sz + ALIGN_MASK) AND NOT ALIGN_MASK;
          before = (if anode > fst node then [(fst node, split_size)] else []);
          after = (if asize > sz' then (anode + sz', asize - sz') # ns else ns)
      in if anode \<ge> fst node \<and> (anode > fst node \<longrightarrow> split_size AND ALIGN_MASK = 0)
         then Some ((addr, sz'), before @ after)
         else None)"

fun gen_nodes :: "u32 \<Rightarrow> nat \<Rightarrow> u32 \<Rightarrow> u32 \<Rightarrow> u32 \<Rightarrow> u32 \<Rightarrow> (u32 \<times> u32) list \<Rightarrow>
    ((u32 \<times> u32) option \<times> (u32 \<times> u32) list) option" where
  "gen_nodes sz ab ao in_min in_max mx [] = Some (None, [])"
| "gen_nodes sz ab ao in_min in_max mx ((a, n) # ns) =
     (let addr = align_addr ab ao (max a in_min);
          continue = map_option (\<lambda>(r, ns'). (r, (a, n) # ns')) (gen_nodes sz ab ao in_min in_max mx ns)
      in if \<not> node_ok mx (a, n) ns then None
         else if n < sz then continue
         else if addr - a + sz > n then continue
         else if addr + sz > in_max then Some (None, (a, n) # ns)
         else map_option (\<lambda>(r, ns'). (Some r, ns')) (cut_node addr sz (a, n) ns))"

fun gen_regions :: "u32 \<Rightarrow> u32 \<Rightarrow> nat \<Rightarrow> u32 \<Rightarrow> u32 \<Rightarrow> u32 \<Rightarrow> lmm \<Rightarrow> (u32 \<times> lmm) option" where
  "gen_regions sz flags ab ao in_min in_max [] = Some (0, [])"
| "gen_regions sz flags ab ao in_min in_max (r # rs) =
     (let continue = map_option (\<lambda>(p, rs'). (p, r # rs')) (gen_regions sz flags ab ao in_min in_max rs)
      in if \<not> region_ok r then None
         else if flags AND NOT (reg_flags r) \<noteq> 0 \<or> reg_min r \<ge> in_max \<or> reg_max r \<le> in_min then continue
         else (case gen_nodes sz ab ao in_min in_max (reg_max r) (reg_nodes r) of
             None \<Rightarrow> None
           | Some (None, _) \<Rightarrow> continue
           | Some (Some (addr, sz'), ns) \<Rightarrow>
               if reg_free r \<ge> sz'
               then Some (addr, r\<lparr>reg_nodes := ns, reg_free := reg_free r - sz'\<rparr> # rs)
               else None))"

definition lmm_alloc_gen :: "u32 \<Rightarrow> u32 \<Rightarrow> nat \<Rightarrow> u32 \<Rightarrow> u32 \<Rightarrow> u32 \<Rightarrow> lmm \<Rightarrow> (u32 \<times> lmm) option" where
  "lmm_alloc_gen sz flags align_bits align_ofs in_min in_size lmm =
     (if sz = 0 then None
      else gen_regions sz flags align_bits align_ofs in_min (in_min + in_size) lmm)"

definition lmm_alloc_aligned :: "u32 \<Rightarrow> u32 \<Rightarrow> nat \<Rightarrow> u32 \<Rightarrow> lmm \<Rightarrow> (u32 \<times> lmm) option" where
  "lmm_alloc_aligned sz flags align_bits align_ofs lmm =
     lmm_alloc_gen sz flags align_bits align_ofs 0 (- 1) lmm"

definition lmm_alloc_page :: "u32 \<Rightarrow> lmm \<Rightarrow> (u32 \<times> lmm) option" where
  "lmm_alloc_page flags lmm = lmm_alloc_gen 0x1000 flags 12 0 0 (- 1) lmm"

text \<open>
  Freeing: \<open>before\<close> are the nodes the search walks over, so its last one is \<^verbatim>\<open>prevnode\<close> and the first of
  the others is \<^verbatim>\<open>nextnode\<close>.
\<close>

definition free_nodes :: "u32 \<Rightarrow> u32 \<Rightarrow> (u32 \<times> u32) list \<Rightarrow> (u32 \<times> u32) list option" where
  "free_nodes node sz nodes =
     (let before = takeWhile (\<lambda>(a, n). a < node) nodes;
          after = dropWhile (\<lambda>(a, n). a < node) nodes;
          (pa, pn) = last before;
          (na, nn) = hd after
      in if before \<noteq> [] \<and> pa + pn \<ge> node
         then if pa + pn \<noteq> node then None
              else if after \<noteq> [] \<and> node + sz \<ge> na
              then if node + sz \<noteq> na then None
                   else Some (butlast before @ (pa, pn + (sz + nn)) # tl after)
              else Some (butlast before @ (pa, pn + sz) # after)
         else if after \<noteq> [] \<and> node + sz \<ge> na
         then Some (before @ (node, sz + nn) # tl after)
         else Some (before @ (node, sz) # after))"

fun free_regions :: "u32 \<Rightarrow> u32 \<Rightarrow> lmm \<Rightarrow> lmm option" where
  "free_regions node sz [] = None"
| "free_regions node sz (r # rs) =
     (if \<not> head_ok r then None
      else if node \<ge> reg_min r \<and> node < reg_max r
      then if reg_free r + sz \<le> region_size r
           then map_option (\<lambda>ns. r\<lparr>reg_nodes := ns, reg_free := reg_free r + sz\<rparr> # rs)
                  (free_nodes node sz (reg_nodes r))
           else None
      else map_option ((#) r) (free_regions node sz rs))"

definition lmm_free :: "u32 \<Rightarrow> u32 \<Rightarrow> lmm \<Rightarrow> lmm option" where
  "lmm_free block sz lmm =
     (if block = 0 \<or> sz = 0 then None
      else free_regions (block AND NOT ALIGN_MASK)
             (((block AND ALIGN_MASK) + sz + ALIGN_MASK) AND NOT ALIGN_MASK) lmm)"

definition lmm_free_page :: "u32 \<Rightarrow> lmm \<Rightarrow> lmm option" where
  "lmm_free_page page lmm = lmm_free page 0x1000 lmm"

text \<open>\<^verbatim>\<open>lmm_add_free\<close> walks the regions it started with; freeing changes only the free lists.\<close>

fun add_free_regions :: "u32 \<Rightarrow> u32 \<Rightarrow> lmm \<Rightarrow> lmm \<Rightarrow> lmm option" where
  "add_free_regions mn mx [] lmm = Some lmm"
| "add_free_regions mn mx (r # rs) lmm =
     (if \<not> (reg_min r < reg_max r \<and> reg_min r AND ALIGN_MASK = 0 \<and> reg_max r AND ALIGN_MASK = 0) then None
      else if mx > reg_min r \<and> mn < reg_max r
      then let new_min = max mn (reg_min r); new_max = min mx (reg_max r)
           in if new_max > new_min
              then Option.bind (lmm_free new_min (new_max - new_min) lmm) (add_free_regions mn mx rs)
              else None
      else add_free_regions mn mx rs lmm)"

definition lmm_add_free :: "u32 \<Rightarrow> u32 \<Rightarrow> lmm \<Rightarrow> lmm option" where
  "lmm_add_free block sz lmm =
     (let mn = (block + ALIGN_MASK) AND NOT ALIGN_MASK; mx = (block + sz) AND NOT ALIGN_MASK
      in if mx < mn then None
         else if mx = mn then Some lmm
         else add_free_regions mn mx lmm lmm)"

fun lmm_avail :: "u32 \<Rightarrow> lmm \<Rightarrow> u32 option" where
  "lmm_avail flags [] = Some 0"
| "lmm_avail flags (r # rs) =
     (let a = (case reg_nodes r of [] \<Rightarrow> 0 | (a, _) # _ \<Rightarrow> a)
      in if a \<ge> reg_min r \<and> a < reg_max r \<and> reg_free r \<le> region_size r
         then if flags AND NOT (reg_flags r) \<noteq> 0 then lmm_avail flags rs
              else map_option ((+) (reg_free r)) (lmm_avail flags rs)
         else None)"

section \<open>Well-formed free lists\<close>

text \<open>
  A free list is well formed when its blocks are aligned, ascending, inside the region and not even
  adjacent: neighbouring free blocks are always merged.
\<close>

fun nodes_wf :: "nat \<Rightarrow> u32 \<Rightarrow> (u32 \<times> u32) list \<Rightarrow> bool" where
  "nodes_wf lo mx [] = True"
| "nodes_wf lo mx ((a, n) # ns) \<longleftrightarrow>
     lo \<le> unat a \<and> 8 dvd unat a \<and> 8 dvd unat n \<and> 0 < unat n \<and> unat a + unat n \<le> unat mx \<and>
     nodes_wf (unat a + unat n + 1) mx ns"

definition block :: "u32 \<Rightarrow> u32 \<Rightarrow> nat set" where
  "block a n = {unat a ..< unat a + unat n}"

definition free_bytes :: "(u32 \<times> u32) list \<Rightarrow> nat set" where
  "free_bytes ns = (\<Union>(a, n) \<in> set ns. block a n)"

definition free_total :: "(u32 \<times> u32) list \<Rightarrow> nat" where
  "free_total ns = (\<Sum>(a, n) \<leftarrow> ns. unat n)"

lemma free_bytes_simps [simp]:
  "free_bytes [] = {}" "free_bytes ((a, n) # ns) = block a n \<union> free_bytes ns"
  "free_bytes (xs @ ys) = free_bytes xs \<union> free_bytes ys"
  by (auto simp: free_bytes_def)

lemma free_total_simps [simp]:
  "free_total [] = 0" "free_total ((a, n) # ns) = unat n + free_total ns"
  "free_total (xs @ ys) = free_total xs + free_total ys"
  by (simp_all add: free_total_def)

lemma nodes_wf_mono: "nodes_wf lo mx ns \<Longrightarrow> lo' \<le> lo \<Longrightarrow> nodes_wf lo' mx ns"
  by (cases ns) auto

lemma nodes_wf_bytes: "nodes_wf lo mx ns \<Longrightarrow> free_bytes ns \<subseteq> {lo ..< unat mx}"
proof (induction ns arbitrary: lo)
  case (Cons x ns)
  obtain a n where "x = (a, n)" by (cases x)
  with Cons.prems Cons.IH [of "unat a + unat n + 1"] show ?case
    by (auto simp: block_def dest: subsetD)
qed simp

lemma free_total_le: "nodes_wf lo mx ns \<Longrightarrow> lo \<le> unat mx \<Longrightarrow> free_total ns \<le> unat mx - lo"
proof (induction ns arbitrary: lo)
  case (Cons x ns)
  obtain a n where x: "x = (a, n)" by (cases x)
  show ?case
  proof (cases "unat a + unat n + 1 \<le> unat mx")
    case True
    with Cons x show ?thesis by fastforce
  next
    case False
    with Cons.prems x have "ns = []" by (cases ns) auto
    with Cons.prems x show ?thesis by auto
  qed
qed simp

lemma aligned_iff: "x AND ALIGN_MASK = 0 \<longleftrightarrow> 8 dvd unat (x :: u32)"
  using and_mask_dvd_nat [of 3 x] by simp

lemma nodes_wf_node_ok: "nodes_wf lo mx ((a, n) # ns) \<Longrightarrow> node_ok mx (a, n) ns"
  by (cases ns) (auto simp: node_ok_def aligned_iff word_less_nat_alt)

lemma alloc_nodes_correct:
  assumes "nodes_wf lo mx ns" "8 dvd unat sz" "0 < unat sz"
  shows "(alloc_nodes sz mx ns = Some (None, ns) \<and> (\<forall>(a, n) \<in> set ns. n < sz)) \<or>
    (\<exists>a ns'. alloc_nodes sz mx ns = Some (Some a, ns') \<and> nodes_wf lo mx ns' \<and>
       lo \<le> unat a \<and> unat a + unat sz \<le> unat mx \<and> 8 dvd unat a \<and>
       block a sz \<subseteq> free_bytes ns \<and> free_bytes ns' = free_bytes ns - block a sz \<and>
       free_total ns = free_total ns' + unat sz)"
  using assms(1)
proof (induction ns arbitrary: lo)
  case Nil
  then show ?case by simp
next
  case (Cons x ns)
  obtain a n where x: "x = (a, n)" by (cases x)
  have wf: "nodes_wf lo mx ((a, n) # ns)" and ok: "node_ok mx (a, n) ns"
    using Cons.prems nodes_wf_node_ok x by auto
  then have rest: "nodes_wf (unat a + unat n + 1) mx ns" by simp
  have out: "free_bytes ns \<subseteq> {unat a + unat n + 1 ..< unat mx}" by (rule nodes_wf_bytes [OF rest])
  show ?case
  proof (cases "n \<ge> sz")
    case True
    then have le: "unat sz \<le> unat n" by (simp add: word_le_nat_alt)
    have u: "unat (a + sz) = unat a + unat sz" "unat (n - sz) = unat n - unat sz"
      using wf le True unat_u32 [of mx] by (auto intro!: unat_add_less unat_sub)
    have sub: "block a sz \<inter> free_bytes ns = {}" "block a sz \<subseteq> block a n" using out le by (auto simp: block_def)
    let ?ns = "if n > sz then (a + sz, n - sz) # ns else ns"
    have "alloc_nodes sz mx (x # ns) = Some (Some a, ?ns)" using True ok x by simp
    moreover have "nodes_wf lo mx ?ns"
      using wf u rest assms(2) le True nodes_wf_mono [OF rest, of lo]
      by (auto simp: word_less_nat_alt dvd_diff_nat)
    moreover have "free_bytes ?ns = free_bytes (x # ns) - block a sz"
      using u sub x True le out by (auto simp: block_def word_less_nat_alt)
    moreover have "free_total (x # ns) = free_total ?ns + unat sz"
      using u x True le by (auto simp: word_less_nat_alt)
    ultimately show ?thesis using wf le sub x by auto
  next
    case False
    have "\<not> block a n \<inter> free_bytes ns \<noteq> {}" using out by (auto simp: block_def)
    with Cons.IH [OF rest] False ok wf x show ?thesis by fastforce
  qed
qed

section \<open>Well-formed regions\<close>

definition reg_wf :: "lmm_region \<Rightarrow> bool" where
  "reg_wf r \<longleftrightarrow> 8 dvd unat (reg_min r) \<and> 8 dvd unat (reg_max r) \<and> 0 < unat (reg_min r) \<and>
     unat (reg_min r) < unat (reg_max r) \<and> nodes_wf (unat (reg_min r)) (reg_max r) (reg_nodes r) \<and>
     unat (reg_free r) = free_total (reg_nodes r)"

definition bounds :: "lmm_region \<Rightarrow> u32 \<times> u32 \<times> u32 \<times> u32" where
  "bounds r = (reg_min r, reg_max r, reg_flags r, reg_pri r)"

definition extent :: "lmm_region \<Rightarrow> nat set" where
  "extent r = {unat (reg_min r) ..< unat (reg_max r)}"

fun lmm_wf :: "lmm \<Rightarrow> bool" where
  "lmm_wf [] = True"
| "lmm_wf (r # rs) \<longleftrightarrow> reg_wf r \<and> (\<forall>q \<in> set rs. extent r \<inter> extent q = {}) \<and> lmm_wf rs"

definition lmm_bytes :: "lmm \<Rightarrow> nat set" where
  "lmm_bytes lmm = (\<Union>r \<in> set lmm. free_bytes (reg_nodes r))"

lemma lmm_bytes_simps [simp]:
  "lmm_bytes [] = {}" "lmm_bytes (r # rs) = free_bytes (reg_nodes r) \<union> lmm_bytes rs"
  by (simp_all add: lmm_bytes_def)

lemma reg_wf_bytes: "reg_wf r \<Longrightarrow> free_bytes (reg_nodes r) \<subseteq> extent r"
  using nodes_wf_bytes by (fastforce simp: reg_wf_def extent_def)

lemma lmm_wf_bytes: "lmm_wf lmm \<Longrightarrow> lmm_bytes lmm \<subseteq> (\<Union>r \<in> set lmm. extent r)"
  by (induction lmm) (use reg_wf_bytes in \<open>auto dest: subsetD\<close>)

lemma lmm_wf_disjoint:
  "lmm_wf (r # rs) \<Longrightarrow> free_bytes (reg_nodes r) \<inter> lmm_bytes rs = {} \<and> extent r \<inter> lmm_bytes rs = {}"
  using reg_wf_bytes [of r] lmm_wf_bytes [of rs] by fastforce

lemma reg_wf_ok:
  assumes "reg_wf r"
  shows "region_ok r" "head_ok r"
proof -
  have "free_total (reg_nodes r) \<le> unat (reg_max r) - unat (reg_min r)"
    using assms by (intro free_total_le) (auto simp: reg_wf_def)
  moreover have "unat (region_size r) = unat (reg_max r) - unat (reg_min r)"
    using assms by (auto simp: region_size_def reg_wf_def word_le_nat_alt intro!: unat_sub)
  moreover show "head_ok r"
    using assms by (auto simp: head_ok_def reg_wf_def word_le_nat_alt unat_eq_0 split: list.split)
  ultimately show "region_ok r"
    using assms by (auto simp: region_ok_def reg_wf_def word_le_nat_alt)
qed

text \<open>What an allocation may do to the memory manager: hand out a block that was free, and nothing else.\<close>

definition takes_block :: "lmm \<Rightarrow> u32 \<Rightarrow> u32 \<Rightarrow> u32 \<Rightarrow> lmm \<Rightarrow> bool" where
  "takes_block lmm flags a sz lmm' \<longleftrightarrow> a \<noteq> 0 \<and> lmm_wf lmm' \<and> map bounds lmm' = map bounds lmm \<and>
     block a sz \<subseteq> lmm_bytes lmm \<and> lmm_bytes lmm' = lmm_bytes lmm - block a sz \<and>
     (\<exists>r \<in> set lmm. block a sz \<subseteq> extent r \<and> flags AND NOT (reg_flags r) = 0)"

lemma bounds_extent: "bounds r' = bounds r \<Longrightarrow> extent r' = extent r"
  by (simp add: bounds_def extent_def)

lemma map_bounds_extents:
  "map bounds lmm' = map bounds lmm \<Longrightarrow> extent ` set lmm' = extent ` set lmm"
proof -
  assume e: "map bounds lmm' = map bounds lmm"
  have "extent ` set l = (\<lambda>(mn, mx, _). {unat mn ..< unat mx}) ` set (map bounds l)" for l
    by (simp add: image_image bounds_def extent_def)
  then show ?thesis by (simp only: e)
qed

lemma takes_block_Cons:
  assumes "takes_block rs flags a sz rs'" "lmm_wf (r # rs)"
  shows "takes_block (r # rs) flags a sz (r # rs')"
proof -
  have e: "extent ` set rs' = extent ` set rs"
    using assms(1) by (intro map_bounds_extents) (simp add: takes_block_def)
  have "\<forall>q \<in> set rs'. extent r \<inter> extent q = {}"
  proof
    fix q assume "q \<in> set rs'"
    then have "extent q \<in> extent ` set rs" using e by blast
    then show "extent r \<inter> extent q = {}" using assms(2) by auto
  qed
  moreover have "free_bytes (reg_nodes r) \<inter> block a sz = {}"
    using assms lmm_wf_disjoint [OF assms(2)] by (auto simp: takes_block_def)
  ultimately show ?thesis using assms by (auto simp: takes_block_def)
qed

lemma takes_block_head:
  assumes "lmm_wf (r # rs)" "nodes_wf (unat (reg_min r)) (reg_max r) ns"
    "unat (reg_min r) \<le> unat a" "unat a + unat sz \<le> unat (reg_max r)" "0 < unat sz"
    "block a sz \<subseteq> free_bytes (reg_nodes r)" "free_bytes ns = free_bytes (reg_nodes r) - block a sz"
    "free_total (reg_nodes r) = free_total ns + unat sz" "flags AND NOT (reg_flags r) = 0"
  shows "reg_free r \<ge> sz"
    "takes_block (r # rs) flags a sz (r\<lparr>reg_nodes := ns, reg_free := reg_free r - sz\<rparr> # rs)"
proof -
  have w: "reg_wf r" using assms(1) by simp
  have f: "unat (reg_free r) = free_total ns + unat sz" using w assms(8) by (simp add: reg_wf_def)
  then show le: "reg_free r \<ge> sz" by (simp add: word_le_nat_alt)
  have "unat (reg_free r - sz) = free_total ns" using f unat_sub [OF le] by simp
  with w assms(2) have "reg_wf (r\<lparr>reg_nodes := ns, reg_free := reg_free r - sz\<rparr>)"
    by (simp add: reg_wf_def)
  moreover have "a \<noteq> 0" using assms(3) w by (auto simp: reg_wf_def)
  moreover have "block a sz \<subseteq> extent r" using assms(3,4) by (auto simp: block_def extent_def)
  moreover have "block a sz \<inter> lmm_bytes rs = {}"
    using lmm_wf_disjoint [OF assms(1)] assms(6) by blast
  ultimately show "takes_block (r # rs) flags a sz (r\<lparr>reg_nodes := ns, reg_free := reg_free r - sz\<rparr> # rs)"
    using assms(1,6,7,9) by (auto simp: takes_block_def bounds_def extent_def)
qed

lemma alloc_regions_correct:
  assumes "lmm_wf lmm" "8 dvd unat sz" "0 < unat sz"
  shows "(alloc_regions sz flags lmm = Some (0, lmm) \<and>
      (\<forall>r \<in> set lmm. flags AND NOT (reg_flags r) = 0 \<longrightarrow> (\<forall>(a, n) \<in> set (reg_nodes r). n < sz))) \<or>
    (\<exists>a lmm'. alloc_regions sz flags lmm = Some (a, lmm') \<and> takes_block lmm flags a sz lmm' \<and> 8 dvd unat a)"
  using assms(1)
proof (induction lmm)
  case Nil
  then show ?case by simp
next
  case (Cons r rs)
  then have r: "reg_wf r" and rs: "lmm_wf rs" by simp_all
  note ok = reg_wf_ok [OF r]
  have wf: "nodes_wf (unat (reg_min r)) (reg_max r) (reg_nodes r)" using r by (simp add: reg_wf_def)
  show ?case
  proof (cases "flags AND NOT (reg_flags r) = 0")
    case True
    from alloc_nodes_correct [OF wf assms(2,3)] show ?thesis
    proof (elim disjE exE conjE)
      assume "alloc_nodes sz (reg_max r) (reg_nodes r) = Some (None, reg_nodes r)"
        "\<forall>(a, n) \<in> set (reg_nodes r). n < sz"
      with Cons.IH [OF rs] True ok takes_block_Cons [OF _ Cons.prems] show ?thesis by auto
    next
      fix a ns' assume "alloc_nodes sz (reg_max r) (reg_nodes r) = Some (Some a, ns')" "8 dvd unat a"
        and "nodes_wf (unat (reg_min r)) (reg_max r) ns'" "unat (reg_min r) \<le> unat a"
          "unat a + unat sz \<le> unat (reg_max r)" "block a sz \<subseteq> free_bytes (reg_nodes r)"
          "free_bytes ns' = free_bytes (reg_nodes r) - block a sz"
          "free_total (reg_nodes r) = free_total ns' + unat sz"
      moreover from this takes_block_head [OF Cons.prems _ _ _ assms(3) _ _ _ True]
      have "reg_free r \<ge> sz"
        "takes_block (r # rs) flags a sz (r\<lparr>reg_nodes := ns', reg_free := reg_free r - sz\<rparr> # rs)" by blast+
      ultimately show ?thesis using True ok by simp
    qed
  next
    case False
    with Cons.IH [OF rs] ok takes_block_Cons [OF _ Cons.prems] show ?thesis by auto
  qed
qed

section \<open>Freeing\<close>

definition nodes_end :: "nat \<Rightarrow> (u32 \<times> u32) list \<Rightarrow> nat" where
  "nodes_end lo xs = (if xs = [] then lo else unat (fst (last xs)) + unat (snd (last xs)) + 1)"

lemma nodes_wf_append:
  "nodes_wf lo mx (xs @ ys) \<longleftrightarrow> nodes_wf lo mx xs \<and> nodes_wf (nodes_end lo xs) mx ys"
proof (induction xs arbitrary: lo)
  case (Cons x xs)
  then show ?case by (cases x) (auto simp: nodes_end_def)
qed (simp add: nodes_end_def)

definition gives_block :: "nat \<Rightarrow> u32 \<Rightarrow> u32 \<Rightarrow> u32 \<Rightarrow> (u32 \<times> u32) list \<Rightarrow> (u32 \<times> u32) list \<Rightarrow> bool" where
  "gives_block lo mx node sz ns ns' \<longleftrightarrow> nodes_wf lo mx ns' \<and>
     free_bytes ns' = free_bytes ns \<union> block node sz \<and> free_total ns' = free_total ns + unat sz"

lemma free_nodes_correct:
  assumes wf: "nodes_wf lo mx ns" and node: "lo \<le> unat node" "8 dvd unat node" "8 dvd unat sz" "0 < unat sz"
    "unat node + unat sz \<le> unat mx" and disj: "block node sz \<inter> free_bytes ns = {}"
  shows "\<exists>ns'. free_nodes node sz ns = Some ns' \<and> gives_block lo mx node sz ns ns'"
proof -
  define before where "before = takeWhile (\<lambda>(a, n). a < node) ns"
  define after where "after = dropWhile (\<lambda>(a, n). a < node) ns"
  have ns: "ns = before @ after" by (simp add: before_def after_def)
  have lt: "a < node" if "(a, n) \<in> set before" for a n
    using that by (auto simp: before_def dest: set_takeWhileD)
  have ge: "node \<le> a" if "after = (a, n) # zs" for a n zs
    using that hd_dropWhile [of "\<lambda>(a, n). a < node" ns] by (auto simp: after_def)
  have small: "unat a + unat n \<le> unat node" if "(a, n) \<in> set before" "0 < unat n" for a n
  proof (rule ccontr)
    assume "\<not> ?thesis"
    with lt [OF that(1)] have "unat node \<in> block a n" "unat node \<in> block node sz"
      using node(4) by (auto simp: block_def word_less_nat_alt)
    with disj that(1) ns show False by (auto simp: free_bytes_def)
  qed
  have big: "unat node + unat sz \<le> unat a" if "after = (a, n) # zs" "0 < unat n" for a n zs
  proof (rule ccontr)
    assume "\<not> ?thesis"
    with ge [OF that(1)] have "unat a \<in> block node sz" "unat a \<in> block a n"
      using that(2) by (auto simp: block_def word_le_nat_alt)
    with disj that(1) ns show False by (auto simp: free_bytes_def)
  qed
  have e: "free_nodes node sz ns = (let (pa, pn) = last before; (na, nn) = hd after
      in if before \<noteq> [] \<and> pa + pn \<ge> node
         then if pa + pn \<noteq> node then None
              else if after \<noteq> [] \<and> node + sz \<ge> na
              then if node + sz \<noteq> na then None
                   else Some (butlast before @ (pa, pn + (sz + nn)) # tl after)
              else Some (butlast before @ (pa, pn + sz) # after)
         else if after \<noteq> [] \<and> node + sz \<ge> na
         then Some (before @ (node, sz + nn) # tl after)
         else Some (before @ (node, sz) # after))"
    unfolding free_nodes_def before_def after_def Let_def by (rule refl)
  have fb: "free_bytes ns = free_bytes before \<union> free_bytes after"
    and ft: "free_total ns = free_total before + free_total after" by (simp_all add: ns)
  note g = gives_block_def [of lo mx node sz ns, unfolded fb ft]
  note mx = unat_u32 [of mx]
  have u: "unat (node + sz) = unat node + unat sz" using node(5) mx by (intro unat_add_less) simp
  have wfb: "nodes_wf lo mx before" and wfa: "nodes_wf (nodes_end lo before) mx after"
    using wf by (simp_all add: ns nodes_wf_append)
  have nexts: "after = [] \<or> (\<exists>na nn zs. after = (na, nn) # zs \<and> 0 < unat nn \<and> unat node + unat sz \<le> unat na \<and>
      unat na + unat nn \<le> unat mx \<and> 8 dvd unat nn \<and> 8 dvd unat na \<and> nodes_wf (unat na + unat nn + 1) mx zs)"
  proof (cases after)
    case (Cons x zs)
    then show ?thesis using wfa big by (cases x) auto
  qed simp
  show ?thesis
  proof (cases before rule: rev_cases)
    case Nil
    with nexts show ?thesis
    proof (elim disjE exE conjE)
      assume "after = []"
      with Nil node show ?thesis by (auto simp: e g)
    next
      fix na nn zs assume a: "after = (na, nn) # zs" "0 < unat nn" "unat node + unat sz \<le> unat na"
        "unat na + unat nn \<le> unat mx" "8 dvd unat nn" "8 dvd unat na" "nodes_wf (unat na + unat nn + 1) mx zs"
      have "unat (sz + nn) = unat sz + unat nn" using a mx by (intro unat_add_less) simp
      then show ?thesis using Nil node a u
        by (auto simp: e g word_le_nat_alt block_def add.assoc)
    qed
  next
    case (snoc xs p)
    obtain pa pn where p: "p = (pa, pn)" by (cases p)
    have pn: "0 < unat pn" "8 dvd unat pn" "8 dvd unat pa" and wfx: "nodes_wf lo mx xs" "nodes_end lo xs \<le> unat pa"
      using wfb by (simp_all add: snoc p nodes_wf_append)
    have ple: "unat pa + unat pn \<le> unat node" using small [of pa pn] pn by (simp add: snoc p)
    have up: "unat (pa + pn) = unat pa + unat pn" using ple node(5) mx by (intro unat_add_less) simp
    have pe: "node \<le> pa + pn \<longleftrightarrow> unat node = unat pa + unat pn" "pa + pn = node \<longleftrightarrow> unat node = unat pa + unat pn"
      using ple up by (auto simp: word_le_nat_alt word_unat_eq_iff)
    have w: "nodes_wf lo mx (xs @ ys) \<longleftrightarrow> nodes_wf (nodes_end lo xs) mx ys" for ys
      using wfx by (simp add: nodes_wf_append)
    from nexts show ?thesis
    proof (elim disjE exE conjE)
      assume a: "after = []"
      have "unat (pn + sz) = unat pn + unat sz" using node(5) mx ple by (intro unat_add_less) simp
      then show ?thesis using snoc p a node pn ple wfx w
        by (auto simp: e g pe block_def add.assoc split: prod.split)
    next
      fix na nn zs assume a: "after = (na, nn) # zs" "0 < unat nn" "unat node + unat sz \<le> unat na"
        "unat na + unat nn \<le> unat mx" "8 dvd unat nn" "8 dvd unat na" "nodes_wf (unat na + unat nn + 1) mx zs"
      have "unat (sz + nn) = unat sz + unat nn" using a mx by (intro unat_add_less) simp
      moreover from this have "unat (pn + (sz + nn)) = unat pn + (unat sz + unat nn)"
        using a mx ple by (subst unat_add_less) simp_all
      moreover have "unat (pn + sz) = unat pn + unat sz" using node(5) mx ple by (intro unat_add_less) simp
      moreover have "na \<le> node + sz \<longleftrightarrow> unat na = unat node + unat sz" "node + sz = na \<longleftrightarrow> unat na = unat node + unat sz"
        using a u by (auto simp: word_le_nat_alt word_unat_eq_iff)
      ultimately show ?thesis using snoc p node a pn ple wfx w
        by (auto simp: e g pe block_def add.assoc)
    qed
  qed
qed

lemma free_regions_correct:
  assumes "lmm_wf lmm" "r \<in> set lmm" "block node sz \<subseteq> extent r" "block node sz \<inter> lmm_bytes lmm = {}"
    and al: "8 dvd unat node" "8 dvd unat sz" "0 < unat sz"
  shows "\<exists>lmm'. free_regions node sz lmm = Some lmm' \<and> lmm_wf lmm' \<and> map bounds lmm' = map bounds lmm \<and>
    lmm_bytes lmm' = lmm_bytes lmm \<union> block node sz"
  using assms(1-4)
proof (induction lmm)
  case Nil
  then show ?case by simp
next
  case (Cons q rs)
  have wf: "reg_wf q" and rs: "lmm_wf rs" and d: "\<forall>p \<in> set rs. extent q \<inter> extent p = {}"
    using Cons.prems(1) by simp_all
  have node: "unat node \<in> block node sz" using al by (simp add: block_def)
  have inr: "unat node \<in> extent p \<longleftrightarrow> node \<ge> reg_min p \<and> node < reg_max p" for p
    by (simp add: extent_def word_le_nat_alt word_less_nat_alt)
  show ?case
  proof (cases "r = q")
    case True
    have e: "unat (reg_min q) \<le> unat node" "unat node + unat sz \<le> unat (reg_max q)"
      using Cons.prems(3) [unfolded True block_def extent_def, THEN atLeastLessThan_subset_iff] al
      by auto
    have "block node sz \<inter> free_bytes (reg_nodes q) = {}" using Cons.prems(4) by auto
    with free_nodes_correct [of "unat (reg_min q)" "reg_max q" "reg_nodes q" node sz] wf e al
    obtain ns where ns: "free_nodes node sz (reg_nodes q) = Some ns"
      "gives_block (unat (reg_min q)) (reg_max q) node sz (reg_nodes q) ns" by (auto simp: reg_wf_def)
    have t: "free_total ns \<le> unat (reg_max q) - unat (reg_min q)"
      using ns(2) wf by (intro free_total_le) (auto simp: gives_block_def reg_wf_def)
    have f: "unat (reg_free q + sz) = free_total ns"
      using t ns(2) wf unat_u32 [of "reg_max q"]
      by (subst unat_add_less) (auto simp: gives_block_def reg_wf_def)
    have "unat (region_size q) = unat (reg_max q) - unat (reg_min q)"
      using wf by (auto simp: region_size_def reg_wf_def word_le_nat_alt intro!: unat_sub)
    with t f have le: "reg_free q + sz \<le> region_size q" by (simp add: word_le_nat_alt)
    let ?q = "q\<lparr>reg_nodes := ns, reg_free := reg_free q + sz\<rparr>"
    have "reg_wf ?q" using wf ns(2) f by (simp add: reg_wf_def gives_block_def)
    moreover have "free_regions node sz (q # rs) = Some (?q # rs)"
      using reg_wf_ok [OF wf] ns le Cons.prems(3) node True inr [of q] by auto
    ultimately show ?thesis using rs d ns(2)
      by (auto simp: gives_block_def bounds_def extent_def)
  next
    case False
    then have r: "r \<in> set rs" using Cons.prems(2) by simp
    with Cons.prems(3) node d have "unat node \<notin> extent q" by blast
    then have n: "\<not> (node \<ge> reg_min q \<and> node < reg_max q)" by (simp add: inr)
    from Cons.IH [OF rs r Cons.prems(3)] Cons.prems(4) obtain rs' where
      rs': "free_regions node sz rs = Some rs'" "lmm_wf rs'" "map bounds rs' = map bounds rs"
        "lmm_bytes rs' = lmm_bytes rs \<union> block node sz" by auto
    have "\<forall>p \<in> set rs'. extent q \<inter> extent p = {}"
    proof
      fix p assume "p \<in> set rs'"
      then have "extent p \<in> extent ` set rs" using map_bounds_extents [OF rs'(3)] by blast
      then show "extent q \<inter> extent p = {}" using d by auto
    qed
    with rs' wf n reg_wf_ok [OF wf] show ?thesis by (auto simp: not_le not_less)
  qed
qed

section \<open>Aligned allocation\<close>

lemma bit_word_iff_odd: "bit x k \<longleftrightarrow> odd (unat x div 2 ^ k)" for x :: "'a::len word"
proof -
  have "bit x k \<longleftrightarrow> bit (unat x) k" by (auto simp: bit_unsigned_iff dest: bit_imp_le_length)
  then show ?thesis by (simp add: bit_iff_odd)
qed

lemma mod_Suc_power: "(x :: nat) mod 2 ^ Suc k = x mod 2 ^ k + 2 ^ k * (x div 2 ^ k mod 2)"
  using mod_mult2_eq [of x "2 ^ k" 2] by (simp add: mult.commute)

lemma align_addr_correct:
  assumes "unat addr + 2 ^ k \<le> 2 ^ 32"
  shows "unat addr \<le> unat (align_addr k ofs addr) \<and> unat (align_addr k ofs addr) < unat addr + 2 ^ k \<and>
    unat (align_addr k ofs addr) mod 2 ^ k = unat ofs mod 2 ^ k"
  using assms
proof (induction k)
  case 0
  then show ?case by (simp add: align_addr_def)
next
  case (Suc k)
  let ?x = "align_addr k ofs addr"
  have ih: "unat addr \<le> unat ?x" "unat ?x < unat addr + 2 ^ k" "unat ?x mod 2 ^ k = unat ofs mod 2 ^ k"
    using Suc by simp_all
  have "(2 :: nat) ^ Suc k \<le> 2 ^ 32" using Suc.prems by simp
  then have "Suc k \<le> 32" by (simp only: power_increasing_iff)
  then have k: "k < 32" by simp
  have step: "align_addr (Suc k) ofs addr = (if bit ?x k \<longleftrightarrow> bit ofs k then ?x else ?x + 2 ^ k)"
    by (simp add: align_addr_def push_bit_eq_mult and_exp_eq_0_iff_not_bit bit_xor_iff)
  have "(2 :: nat) ^ k < 2 ^ 32" using k by (simp only: power_strict_increasing_iff)
  then have up: "unat (2 ^ k :: u32) = 2 ^ k"
    using of_nat_inverse [of "2 ^ k", where 'a = 32] by simp
  have plus: "unat (?x + 2 ^ k) = unat ?x + 2 ^ k"
    using ih Suc.prems up by (subst unat_add_less) simp_all
  have "unat (align_addr (Suc k) ofs addr) mod 2 ^ k = unat ofs mod 2 ^ k \<and>
      unat (align_addr (Suc k) ofs addr) div 2 ^ k mod 2 = unat ofs div 2 ^ k mod 2"
  proof (cases "bit ?x k \<longleftrightarrow> bit ofs k")
    case True
    then show ?thesis using ih(3) by (simp add: step bit_word_iff_odd mod2_eq_if)
  next
    case False
    then have "odd (Suc (unat ?x div 2 ^ k)) \<longleftrightarrow> odd (unat ofs div 2 ^ k)" by (simp add: bit_word_iff_odd)
    then have "Suc (unat ?x div 2 ^ k) mod 2 = unat ofs div 2 ^ k mod 2"
      by (metis parity_cases)
    then show ?thesis using ih(3) False by (simp add: step plus div_add_self2)
  qed
  then have "unat (align_addr (Suc k) ofs addr) mod 2 ^ Suc k = unat ofs mod 2 ^ Suc k"
    unfolding mod_Suc_power by simp
  then show ?case using ih(1,2) by (simp add: step plus)
qed

text \<open>The aligned block around the bytes from \<open>addr\<close> to \<open>addr + sz\<close>: what is really taken and given back.\<close>

definition outer_node :: "u32 \<Rightarrow> u32" where
  "outer_node addr = addr AND NOT ALIGN_MASK"

definition outer_size :: "u32 \<Rightarrow> u32 \<Rightarrow> u32" where
  "outer_size addr sz = ((addr AND ALIGN_MASK) + sz + ALIGN_MASK) AND NOT ALIGN_MASK"

lemma outer_arith:
  fixes x s m :: nat
  assumes "x + s \<le> 8 * m" "0 < s"
  shows "x div 8 * 8 + (x mod 8 + s + 7) div 8 * 8 \<le> 8 * m"
    "x + s \<le> x div 8 * 8 + (x mod 8 + s + 7) div 8 * 8" "0 < (x mod 8 + s + 7) div 8 * 8"
proof -
  define q r where "q = x div 8" and "r = x mod 8"
  have x: "x = 8 * q + r" by (simp add: q_def r_def)
  have "r + s \<le> 8 * (m - q)" using assms x by simp
  then have "(r + s + 7) div 8 \<le> m - q" by linarith
  moreover have "q \<le> m" using assms x by simp
  ultimately have "q * 8 + (r + s + 7) div 8 * 8 \<le> 8 * m" by linarith
  moreover have "r + s \<le> (r + s + 7) div 8 * 8" by linarith
  ultimately show "x div 8 * 8 + (x mod 8 + s + 7) div 8 * 8 \<le> 8 * m"
    "x + s \<le> x div 8 * 8 + (x mod 8 + s + 7) div 8 * 8" "0 < (x mod 8 + s + 7) div 8 * 8"
    unfolding q_def [symmetric] r_def [symmetric] using x assms(2) by linarith+
qed

lemma outer_block:
  assumes "8 dvd a" "8 dvd n" "8 \<le> a" "a \<le> unat addr" "unat addr + unat sz \<le> a + n" "a + n < 2 ^ 32" "0 < unat sz"
  shows "unat (outer_node addr) = unat addr div 8 * 8" "a \<le> unat (outer_node addr)"
    "8 dvd unat (outer_node addr)" "8 dvd unat (outer_size addr sz)" "0 < unat (outer_size addr sz)"
    "unat (outer_node addr) \<le> unat addr" "unat addr + unat sz \<le> unat (outer_node addr) + unat (outer_size addr sz)"
    "unat (outer_node addr) + unat (outer_size addr sz) \<le> a + n"
proof -
  let ?o = "unat addr div 8 * 8" and ?t = "(unat addr mod 8 + unat sz + 7) div 8 * 8"
  have m7: "unat ALIGN_MASK = 7" by (simp add: mask_eq_exp_minus_1)
  show n: "unat (outer_node addr) = ?o" by (simp add: outer_node_def unat_and_not_mask)
  have o: "a \<le> ?o" "?o \<le> unat addr" "?o + unat addr mod 8 = unat addr"
    using assms(1,4) by (auto simp: dvd_def)
  have "8 dvd a + n" using assms(1,2) by simp
  then obtain m where m: "a + n = 8 * m" by (rule dvdE)
  have t: "?o + ?t \<le> a + n" "unat addr + unat sz \<le> ?o + ?t" "8 dvd ?t" "0 < ?t"
    using outer_arith [OF assms(5) [unfolded m] assms(7)] m by simp_all
  have s1: "unat ((addr AND ALIGN_MASK) + sz) = unat addr mod 8 + unat sz"
    using assms o unat_and_mask [of addr 3] by (subst unat_add_less) simp_all
  have "unat addr mod 8 + unat sz + 7 < 2 ^ 32" using assms o t by linarith
  then have "unat ((addr AND ALIGN_MASK) + sz + ALIGN_MASK) = unat addr mod 8 + unat sz + 7"
    using s1 m7 by (subst unat_add_less) simp_all
  then have s: "unat (outer_size addr sz) = ?t" by (simp add: outer_size_def unat_and_not_mask)
  show "a \<le> unat (outer_node addr)" "8 dvd unat (outer_node addr)" "8 dvd unat (outer_size addr sz)"
    "0 < unat (outer_size addr sz)" "unat (outer_node addr) \<le> unat addr"
    "unat addr + unat sz \<le> unat (outer_node addr) + unat (outer_size addr sz)"
    "unat (outer_node addr) + unat (outer_size addr sz) \<le> a + n"
    using o t by (simp_all add: n s)
qed

lemma cut_node_correct:
  assumes wf: "nodes_wf lo mx ((a, n) # ns)" and lo: "0 < lo" and sz: "0 < unat sz"
    and ad: "unat a \<le> unat addr" "unat addr + unat sz \<le> unat a + unat n"
  defines "o' \<equiv> outer_node addr" and "t \<equiv> outer_size addr sz"
  shows "\<exists>ns'. cut_node addr sz (a, n) ns = Some ((addr, t), ns') \<and> nodes_wf lo mx ns' \<and>
    lo \<le> unat o' \<and> unat o' + unat t \<le> unat mx \<and> block o' t \<subseteq> free_bytes ((a, n) # ns) \<and>
    free_bytes ns' = free_bytes ((a, n) # ns) - block o' t \<and>
    free_total ((a, n) # ns) = free_total ns' + unat t"
proof -
  have w: "lo \<le> unat a" "8 dvd unat a" "8 dvd unat n" "unat a + unat n \<le> unat mx"
    "nodes_wf (unat a + unat n + 1) mx ns" using wf by simp_all
  have a8: "8 \<le> unat a" using w lo by (auto dest: dvd_imp_le)
  note ob = outer_block [OF w(2,3) a8 ad _ sz, folded o'_def t_def]
  have lt: "unat a + unat n < 2 ^ 32" using w(4) unat_u32 [of mx] by simp
  note ob = ob [OF lt]
  have out: "free_bytes ns \<subseteq> {unat a + unat n + 1 ..< unat mx}" by (rule nodes_wf_bytes [OF w(5)])
  have split: "unat (o' - a) = unat o' - unat a" using ob(2) by (intro unat_sub) (simp add: word_le_nat_alt)
  have asz: "unat (n - (o' - a)) = unat n - (unat o' - unat a)"
    using ob(2,8) split by (subst unat_sub) (simp_all add: word_le_nat_alt)
  have top: "unat (o' + t) = unat o' + unat t" using ob(8) lt by (intro unat_add_less) simp
  have rest: "n - (o' - a) > t \<Longrightarrow> unat (n - (o' - a) - t) = unat n - (unat o' - unat a) - unat t"
    using asz by (subst unat_sub) (simp_all add: word_le_nat_alt word_less_nat_alt)
  have gt: "n - (o' - a) > t \<longleftrightarrow> unat o' + unat t < unat a + unat n"
    using asz ob(2,8) by (auto simp: word_less_nat_alt)
  let ?b = "if o' > a then [(a, o' - a)] else []"
  let ?f = "if n - (o' - a) > t then (o' + t, n - (o' - a) - t) # ns else ns"
  have "(o' - a) AND ALIGN_MASK = 0" using split w(2) ob(3) by (simp add: aligned_iff dvd_diff_nat)
  then have "cut_node addr sz (a, n) ns = Some ((addr, t), ?b @ ?f)"
    using ob(2) by (simp add: cut_node_def Let_def o'_def [unfolded outer_node_def] t_def [unfolded outer_size_def]
        word_le_nat_alt)
  moreover have "nodes_wf (unat o' + unat t) mx ?f"
    using gt rest top w ob by (auto simp: dvd_diff_nat intro: nodes_wf_mono [OF w(5)])
  then have "nodes_wf lo mx (?b @ ?f)"
    using w ob split by (auto simp: word_less_nat_alt dvd_diff_nat intro: nodes_wf_mono)
  moreover have "free_bytes (?b @ ?f) = free_bytes ((a, n) # ns) - block o' t"
    using gt rest top split ob(2,8) out by (auto simp: block_def word_less_nat_alt)
  moreover have "free_total ((a, n) # ns) = free_total (?b @ ?f) + unat t"
    using gt rest split ob(2,5,8) by (auto simp: word_less_nat_alt)
  moreover have "block o' t \<subseteq> free_bytes ((a, n) # ns)" using ob(2,8) by (auto simp: block_def)
  ultimately show ?thesis using w ob(2,8) by (intro exI [of _ "?b @ ?f"]) simp
qed

definition fits :: "u32 \<Rightarrow> nat \<Rightarrow> u32 \<Rightarrow> u32 \<times> u32 \<Rightarrow> bool" where
  "fits sz ab ao node \<longleftrightarrow> unat (align_addr ab ao (fst node)) + unat sz \<le> unat (fst node) + unat (snd node)"

lemma gen_nodes_correct:
  assumes "nodes_wf lo mx ns" "0 < lo" "0 < unat sz" "unat mx + 2 ^ ab \<le> 2 ^ 32"
  shows "(gen_nodes sz ab ao 0 (- 1) mx ns = Some (None, ns) \<and> (\<forall>node \<in> set ns. \<not> fits sz ab ao node)) \<or>
    (\<exists>addr ns'. gen_nodes sz ab ao 0 (- 1) mx ns = Some (Some (addr, outer_size addr sz), ns') \<and>
       nodes_wf lo mx ns' \<and> unat addr mod 2 ^ ab = unat ao mod 2 ^ ab \<and>
       lo \<le> unat (outer_node addr) \<and> unat (outer_node addr) + unat (outer_size addr sz) \<le> unat mx \<and>
       block addr sz \<subseteq> block (outer_node addr) (outer_size addr sz) \<and> 0 < unat (outer_size addr sz) \<and>
       block (outer_node addr) (outer_size addr sz) \<subseteq> free_bytes ns \<and>
       free_bytes ns' = free_bytes ns - block (outer_node addr) (outer_size addr sz) \<and>
       free_total ns = free_total ns' + unat (outer_size addr sz))"
  using assms(1,2)
proof (induction ns arbitrary: lo)
  case Nil
  then show ?case by simp
next
  case (Cons x ns)
  obtain a n where x: "x = (a, n)" by (cases x)
  have wf: "nodes_wf lo mx ((a, n) # ns)" and ok: "node_ok mx (a, n) ns"
    using Cons.prems nodes_wf_node_ok x by auto
  then have w: "lo \<le> unat a" "8 dvd unat a" "8 dvd unat n" "unat a + unat n \<le> unat mx"
    "nodes_wf (unat a + unat n + 1) mx ns" by simp_all
  have out: "free_bytes ns \<subseteq> {unat a + unat n + 1 ..< unat mx}" by (rule nodes_wf_bytes [OF w(5)])
  define addr where "addr = align_addr ab ao a"
  have al: "unat a \<le> unat addr" "unat addr < unat a + 2 ^ ab" "unat addr mod 2 ^ ab = unat ao mod 2 ^ ab"
    using align_addr_correct [of a ab ao] w(4) assms(4) by (simp_all add: addr_def)
  have d: "unat (addr - a) = unat addr - unat a" using al(1) by (intro unat_sub) (simp add: word_le_nat_alt)
  have fit: "fits sz ab ao (a, n) \<longleftrightarrow> \<not> n < sz \<and> \<not> addr - a + sz > n"
  proof (cases "n < sz")
    case True
    then show ?thesis using al(1) by (auto simp: fits_def addr_def [symmetric] word_less_nat_alt)
  next
    case False
    then have "unat (addr - a + sz) = unat addr - unat a + unat sz"
      using d al(1,2) w(4) assms(4) by (subst unat_add_less) (simp_all add: word_less_nat_alt)
    with False al(1) show ?thesis by (auto simp: fits_def addr_def [symmetric] word_less_nat_alt)
  qed
  have mx0: "max a 0 = a" by (simp add: max_def)
  show ?case
  proof (cases "fits sz ab ao (a, n)")
    case True
    then have ad: "unat addr + unat sz \<le> unat a + unat n" by (simp add: fits_def addr_def)
    from cut_node_correct [OF wf Cons.prems(2) assms(3) al(1) ad] obtain ns' where
      c: "cut_node addr sz (a, n) ns = Some ((addr, outer_size addr sz), ns')" and
      p: "nodes_wf lo mx ns'" "lo \<le> unat (outer_node addr)"
        "unat (outer_node addr) + unat (outer_size addr sz) \<le> unat mx"
        "block (outer_node addr) (outer_size addr sz) \<subseteq> free_bytes ((a, n) # ns)"
        "free_bytes ns' = free_bytes ((a, n) # ns) - block (outer_node addr) (outer_size addr sz)"
        "free_total ((a, n) # ns) = free_total ns' + unat (outer_size addr sz)" by blast
    have "8 \<le> unat a" using w Cons.prems(2) by (auto dest: dvd_imp_le)
    note ob = outer_block [OF w(2,3) this al(1) ad _ assms(3)]
    have "block addr sz \<subseteq> block (outer_node addr) (outer_size addr sz)" "0 < unat (outer_size addr sz)"
      using ob w(4) unat_u32 [of mx] by (auto simp: block_def)
    moreover have "gen_nodes sz ab ao 0 (- 1) mx (x # ns) = Some (Some (addr, outer_size addr sz), ns')"
      using True fit ok c by (simp add: x mx0 addr_def [symmetric] Let_def)
    ultimately show ?thesis using p al(3) x by blast
  next
    case False
    then have e: "gen_nodes sz ab ao 0 (- 1) mx (x # ns) =
        map_option (\<lambda>(r, ns'). (r, (a, n) # ns')) (gen_nodes sz ab ao 0 (- 1) mx ns)"
      using fit ok by (auto simp: x mx0 addr_def [symmetric] Let_def)
    have "block a n \<inter> free_bytes ns = {}" using out by (auto simp: block_def)
    with Cons.IH [OF w(5)] False e wf x show ?thesis by fastforce
  qed
qed

lemma gen_regions_correct:
  assumes "lmm_wf lmm" "0 < unat sz" "\<forall>r \<in> set lmm. unat (reg_max r) + 2 ^ ab \<le> 2 ^ 32"
  shows "(gen_regions sz flags ab ao 0 (- 1) lmm = Some (0, lmm) \<and>
      (\<forall>r \<in> set lmm. flags AND NOT (reg_flags r) = 0 \<longrightarrow> (\<forall>node \<in> set (reg_nodes r). \<not> fits sz ab ao node))) \<or>
    (\<exists>addr lmm'. gen_regions sz flags ab ao 0 (- 1) lmm = Some (addr, lmm') \<and>
       takes_block lmm flags (outer_node addr) (outer_size addr sz) lmm' \<and>
       block addr sz \<subseteq> block (outer_node addr) (outer_size addr sz) \<and> unat addr mod 2 ^ ab = unat ao mod 2 ^ ab)"
  using assms(1,3)
proof (induction lmm)
  case Nil
  then show ?case by simp
next
  case (Cons r rs)
  then have r: "reg_wf r" and rs: "lmm_wf rs" and b: "unat (reg_max r) + 2 ^ ab \<le> 2 ^ 32" by simp_all
  note ok = reg_wf_ok [OF r]
  have wf: "nodes_wf (unat (reg_min r)) (reg_max r) (reg_nodes r)" and pos: "0 < unat (reg_min r)"
    using r by (simp_all add: reg_wf_def)
  have "reg_min r < reg_max r" using r by (simp add: reg_wf_def word_less_nat_alt)
  moreover have "reg_max r \<le> - 1" by simp
  ultimately have "reg_min r < - 1" "0 < reg_max r" by (rule less_le_trans, auto simp: word_gt_0)
  then have bnd: "\<not> reg_min r \<ge> - 1" "\<not> reg_max r \<le> 0" by (simp_all add: not_le)
  show ?case
  proof (cases "flags AND NOT (reg_flags r) = 0")
    case True
    from gen_nodes_correct [OF wf pos assms(2) b, of ao] show ?thesis
    proof (elim disjE exE conjE)
      assume "gen_nodes sz ab ao 0 (- 1) (reg_max r) (reg_nodes r) = Some (None, reg_nodes r)"
        "\<forall>node \<in> set (reg_nodes r). \<not> fits sz ab ao node"
      with Cons.IH [OF rs] Cons.prems(2) True ok bnd takes_block_Cons [OF _ Cons.prems(1)]
      show ?thesis by (auto simp: Let_def)
    next
      fix addr ns'
      let ?o = "outer_node addr" and ?t = "outer_size addr sz"
      assume a: "gen_nodes sz ab ao 0 (- 1) (reg_max r) (reg_nodes r) = Some (Some (addr, ?t), ns')"
          "unat addr mod 2 ^ ab = unat ao mod 2 ^ ab" "block addr sz \<subseteq> block ?o ?t"
        and b: "nodes_wf (unat (reg_min r)) (reg_max r) ns'" "unat (reg_min r) \<le> unat ?o"
          "unat ?o + unat ?t \<le> unat (reg_max r)" "0 < unat ?t" "block ?o ?t \<subseteq> free_bytes (reg_nodes r)"
          "free_bytes ns' = free_bytes (reg_nodes r) - block ?o ?t"
          "free_total (reg_nodes r) = free_total ns' + unat ?t"
      from takes_block_head [OF Cons.prems(1) b True] a ok bnd True show ?thesis
        by (intro disjI2 exI [of _ addr]) (auto simp: Let_def)
    qed
  next
    case False
    with Cons.IH [OF rs] Cons.prems(2) ok takes_block_Cons [OF _ Cons.prems(1)] show ?thesis
      by (auto simp: Let_def)
  qed
qed

section \<open>Free lists are canonical\<close>

text \<open>
  Since neighbouring blocks are merged, the free bytes determine the free list.  This turns equality
  of free bytes into equality of the data structure.
\<close>

lemma nodes_wf_Min:
  assumes "nodes_wf lo mx ((a, n) # ns)"
  shows "unat a \<in> free_bytes ((a, n) # ns)" "\<forall>x \<in> free_bytes ((a, n) # ns). unat a \<le> x"
    "unat a + unat n \<notin> free_bytes ((a, n) # ns)"
  using assms nodes_wf_bytes [of "unat a + unat n + 1" mx ns] by (auto simp: block_def)

lemma nodes_wf_canonical:
  assumes "nodes_wf lo mx xs" "nodes_wf lo' mx' ys" "free_bytes xs = free_bytes ys"
  shows "xs = ys"
  using assms
proof (induction xs arbitrary: lo lo' ys)
  case Nil
  show ?case
  proof (cases ys)
    case (Cons y zs)
    obtain b m where y: "y = (b, m)" by (cases y)
    show ?thesis using nodes_wf_Min(1) [of lo' mx' b m zs] Nil.prems Cons y by auto
  qed simp
next
  case (Cons x xs)
  obtain a n where x: "x = (a, n)" by (cases x)
  have wx: "nodes_wf lo mx ((a, n) # xs)" using Cons.prems(1) x by simp
  have "ys \<noteq> []" using nodes_wf_Min(1) [OF wx] Cons.prems(3) x by auto
  then obtain b m zs where ys: "ys = (b, m) # zs" by (cases ys) auto
  have wy: "nodes_wf lo' mx' ((b, m) # zs)" using Cons.prems(2) ys by simp
  have e: "free_bytes ((a, n) # xs) = free_bytes ((b, m) # zs)" using Cons.prems(3) x ys by simp
  note mx = nodes_wf_Min [OF wx] and my = nodes_wf_Min [OF wy]
  have ab: "unat a = unat b" using mx(1,2) my(1,2) e by (metis le_antisym)
  have full: "j \<in> free_bytes ((c, k) # ws)" if "unat c \<le> j" "j < unat c + unat k" for c k ws j
    using that by (simp add: block_def)
  have "unat n = unat m"
  proof (rule ccontr)
    assume "unat n \<noteq> unat m"
    then consider "unat n < unat m" | "unat m < unat n" by linarith
    then show False
      by cases (use full [of b "unat a + unat n" m zs] full [of a "unat b + unat m" n xs] mx(3) my(3) ab e in auto)
  qed
  with ab have "a = b" "n = m" by (simp_all add: word_unat_eq_iff)
  moreover have "free_bytes xs = free_bytes zs"
  proof -
    have f: "free_bytes xs = free_bytes ((a, n) # xs) - block a n" "free_bytes zs = free_bytes ((b, m) # zs) - block b m"
      using nodes_wf_bytes [of "unat a + unat n + 1" mx xs] nodes_wf_bytes [of "unat b + unat m + 1" mx' zs] wx wy
      by (auto simp: block_def)
    then have "free_bytes xs = free_bytes ((b, m) # zs) - block b m"
      using e \<open>a = b\<close> \<open>n = m\<close> by (simp only:)
    with f(2) show ?thesis by (simp only:)
  qed
  moreover have "nodes_wf (unat a + unat n + 1) mx xs" "nodes_wf (unat b + unat m + 1) mx' zs"
    using wx wy by simp_all
  ultimately have "xs = zs" by (intro Cons.IH)
  with \<open>a = b\<close> \<open>n = m\<close> x ys show ?case by simp
qed

lemma lmm_bytes_split:
  "lmm_wf (r # rs) \<Longrightarrow> free_bytes (reg_nodes r) = lmm_bytes (r # rs) \<inter> extent r \<and>
     lmm_bytes rs = lmm_bytes (r # rs) - extent r"
  using lmm_wf_disjoint [of r rs] reg_wf_bytes [of r] by auto

lemma lmm_wf_canonical:
  assumes "lmm_wf l" "lmm_wf l'" "map bounds l = map bounds l'" "lmm_bytes l = lmm_bytes l'"
  shows "l = l'"
  using assms
proof (induction l arbitrary: l')
  case (Cons r rs)
  then obtain q qs where l': "l' = q # qs" by (cases l') auto
  have b: "bounds r = bounds q" "map bounds rs = map bounds qs" using Cons.prems(3) l' by simp_all
  have w: "lmm_wf (r # rs)" "lmm_wf (q # qs)" using Cons.prems l' by simp_all
  have "free_bytes (reg_nodes r) = free_bytes (reg_nodes q)" "lmm_bytes rs = lmm_bytes qs"
    using lmm_bytes_split [OF w(1)] lmm_bytes_split [OF w(2)] Cons.prems(4) l' bounds_extent [OF b(1)] by simp_all
  moreover from this(1) w have n: "reg_nodes r = reg_nodes q"
    by (auto simp: reg_wf_def intro: nodes_wf_canonical)
  moreover from n w have "reg_free r = reg_free q" by (auto simp: reg_wf_def word_unat_eq_iff)
  moreover have "rs = qs" using Cons.IH [of qs] w b(2) \<open>lmm_bytes rs = lmm_bytes qs\<close> by simp
  ultimately show ?case using b(1) l' by (auto simp: bounds_def intro: lmm_region.equality)
qed simp

section \<open>The properties\<close>

lemma lmm_alloc_aligned_effect:
  assumes "lmm_wf lmm" "0 < unat sz" "\<forall>r \<in> set lmm. unat (reg_max r) + 2 ^ ab \<le> 2 ^ 32"
  shows "(lmm_alloc_aligned sz flags ab ao lmm = Some (0, lmm) \<and>
      (\<forall>r \<in> set lmm. flags AND NOT (reg_flags r) = 0 \<longrightarrow> (\<forall>node \<in> set (reg_nodes r). \<not> fits sz ab ao node))) \<or>
    (\<exists>addr lmm'. lmm_alloc_aligned sz flags ab ao lmm = Some (addr, lmm') \<and>
       takes_block lmm flags (outer_node addr) (outer_size addr sz) lmm' \<and>
       block addr sz \<subseteq> block (outer_node addr) (outer_size addr sz) \<and> unat addr mod 2 ^ ab = unat ao mod 2 ^ ab)"
proof -
  have "sz \<noteq> 0" using assms(2) by auto
  then have "lmm_alloc_aligned sz flags ab ao lmm = gen_regions sz flags ab ao 0 (- 1) lmm"
    by (simp add: lmm_alloc_aligned_def lmm_alloc_gen_def)
  then show ?thesis using gen_regions_correct [OF assms, of flags ao] by (simp only:)
qed

lemma outer_aligned: "8 dvd unat (outer_node addr)" "8 dvd unat (outer_size addr sz)"
  by (simp_all add: outer_node_def outer_size_def unat_and_not_mask)

lemma lmm_free_outer:
  "p \<noteq> 0 \<Longrightarrow> sz \<noteq> 0 \<Longrightarrow> lmm_free p sz lmm = free_regions (outer_node p) (outer_size p sz) lmm"
  by (simp add: lmm_free_def outer_node_def outer_size_def)

lemma takes_block_free:
  assumes "lmm_wf lmm" "takes_block lmm flags a t lmm'" "8 dvd unat a" "8 dvd unat t" "0 < unat t"
  shows "free_regions a t lmm' = Some lmm"
proof -
  have t: "lmm_wf lmm'" "map bounds lmm' = map bounds lmm" "block a t \<subseteq> lmm_bytes lmm"
    "lmm_bytes lmm' = lmm_bytes lmm - block a t" using assms(2) by (simp_all add: takes_block_def)
  obtain r where "r \<in> set lmm" "block a t \<subseteq> extent r" using assms(2) by (auto simp: takes_block_def)
  then have "extent r \<in> extent ` set lmm'" using map_bounds_extents [OF t(2)] by blast
  then obtain r' where r': "r' \<in> set lmm'" "block a t \<subseteq> extent r'"
    using \<open>block a t \<subseteq> extent r\<close> by auto
  have "block a t \<inter> lmm_bytes lmm' = {}" using t(4) by auto
  from free_regions_correct [OF t(1) r' this assms(3-5)] obtain l where
    l: "free_regions a t lmm' = Some l" "lmm_wf l" "map bounds l = map bounds lmm'"
      "lmm_bytes l = lmm_bytes lmm' \<union> block a t" by blast
  have "l = lmm" using l(2-4) t assms(1) by (intro lmm_wf_canonical) auto
  with l(1) show ?thesis by simp
qed

lemma round_up_8:
  assumes "unat sz + 7 < 2 ^ 32" "0 < unat sz"
  shows "unat ((sz + ALIGN_MASK) AND NOT ALIGN_MASK) = (unat sz + 7) div 8 * 8"
    "unat sz \<le> (unat sz + 7) div 8 * 8" "0 < (unat sz + 7) div 8 * 8"
proof -
  have "unat (sz + ALIGN_MASK) = unat sz + 7"
    using assms by (subst unat_add_less) (simp_all add: mask_eq_exp_minus_1)
  then show "unat ((sz + ALIGN_MASK) AND NOT ALIGN_MASK) = (unat sz + 7) div 8 * 8"
    by (simp add: unat_and_not_mask)
  show "unat sz \<le> (unat sz + 7) div 8 * 8" "0 < (unat sz + 7) div 8 * 8"
    using assms(2) by linarith+
qed

lemma outer_of_aligned:
  "8 dvd unat a \<Longrightarrow> outer_node a = a \<and> outer_size a sz = (sz + ALIGN_MASK) AND NOT ALIGN_MASK"
  using aligned_iff [of a] by (simp add: outer_node_def outer_size_def and_not_minus)

definition sample_lmm :: lmm where
  "sample_lmm = [\<lparr>reg_nodes = [(0x100000, 0x800), (0x102000, 0x4000)], reg_min = 0x100000,
     reg_max = 0x200000, reg_flags = 0, reg_pri = 1, reg_free = 0x4800\<rparr>]"

lemma sample_lmm_wf: "lmm_wf sample_lmm"
  by (simp add: sample_lmm_def reg_wf_def)

text \<open>
  C4: \<^verbatim>\<open>lmm_alloc_aligned\<close> never fails an assertion on a well-formed memory manager.  Either it returns
  a block with the requested alignment that lies in free memory of a region with the requested flags,
  and takes away exactly the aligned bytes around it, keeping the structure well formed; or it returns
  \<^verbatim>\<open>NULL\<close>, changes nothing, and no free block of a suitable region could hold the request.
\<close>

theorem lmm_alloc_aligned_correct:
  assumes "lmm_wf lmm" "0 < unat sz" "\<forall>r \<in> set lmm. unat (reg_max r) + 2 ^ ab \<le> 2 ^ 32"
  shows "(lmm_alloc_aligned sz flags ab ao lmm = Some (0, lmm) \<and>
      (\<forall>r \<in> set lmm. flags AND NOT (reg_flags r) = 0 \<longrightarrow> (\<forall>node \<in> set (reg_nodes r). \<not> fits sz ab ao node))) \<or>
    (\<exists>addr lmm'. lmm_alloc_aligned sz flags ab ao lmm = Some (addr, lmm') \<and>
       takes_block lmm flags (outer_node addr) (outer_size addr sz) lmm' \<and>
       block addr sz \<subseteq> block (outer_node addr) (outer_size addr sz) \<and> unat addr mod 2 ^ ab = unat ao mod 2 ^ ab)"
  by (rule lmm_alloc_aligned_effect [OF assms])

theorem lmm_alloc_aligned_correct_witness:
  "lmm_alloc_aligned 0x1000 0 12 0 sample_lmm \<noteq> None"
  using lmm_alloc_aligned_correct [OF sample_lmm_wf, of "0x1000" 12 0 0]
  by (auto simp: sample_lmm_def)

text \<open>
  C5: Round trip.  Giving a block of \<^verbatim>\<open>lmm_alloc_aligned\<close> back with \<^verbatim>\<open>lmm_free\<close> restores the memory
  manager exactly: the free block is merged with both its neighbours again and the counters agree.
\<close>

theorem lmm_free_undoes_alloc_aligned:
  assumes "lmm_wf lmm" "0 < unat sz" "\<forall>r \<in> set lmm. unat (reg_max r) + 2 ^ ab \<le> 2 ^ 32"
    and "lmm_alloc_aligned sz flags ab ao lmm = Some (addr, lmm')" "addr \<noteq> 0"
  shows "lmm_free addr sz lmm' = Some lmm"
proof -
  have t: "takes_block lmm flags (outer_node addr) (outer_size addr sz) lmm'"
    and b: "block addr sz \<subseteq> block (outer_node addr) (outer_size addr sz)"
    using lmm_alloc_aligned_effect [OF assms(1-3), of flags ao] assms(4,5) by auto
  have "unat addr \<in> block addr sz" using assms(2) by (simp add: block_def)
  with b have "0 < unat (outer_size addr sz)" by (auto simp: block_def)
  with takes_block_free [OF assms(1) t outer_aligned] show ?thesis
    using assms(2,5) by (subst lmm_free_outer) auto
qed

theorem lmm_free_undoes_alloc_aligned_witness:
  "\<exists>addr lmm'. lmm_alloc_aligned 0x1000 0 12 0 sample_lmm = Some (addr, lmm') \<and>
     lmm_free addr 0x1000 lmm' = Some sample_lmm"
proof -
  have "lmm_alloc_aligned 0x1000 0 12 0 sample_lmm = Some (0x102000,
      [\<lparr>reg_nodes = [(0x100000, 0x800), (0x103000, 0x3000)], reg_min = 0x100000, reg_max = 0x200000,
        reg_flags = 0, reg_pri = 1, reg_free = 0x3800\<rparr>])" by code_simp
  from lmm_free_undoes_alloc_aligned [OF sample_lmm_wf _ _ this] this show ?thesis
    by (auto simp: sample_lmm_def)
qed

text \<open>
  C13: \<^verbatim>\<open>lmm_alloc\<close> and \<^verbatim>\<open>lmm_free\<close> on ordinary sizes: an allocation hands out a free block of the
  rounded size, aligned to 8 bytes, and freeing it restores the memory manager; it returns \<^verbatim>\<open>NULL\<close> only
  if every free block of a suitable region is too small.
\<close>

theorem lmm_alloc_correct:
  assumes "lmm_wf lmm" "0 < unat sz" "unat sz + 7 < 2 ^ 32"
  defines "t \<equiv> (sz + ALIGN_MASK) AND NOT ALIGN_MASK"
  shows "unat sz \<le> unat t \<and>
    ((lmm_alloc sz flags lmm = Some (0, lmm) \<and>
      (\<forall>r \<in> set lmm. flags AND NOT (reg_flags r) = 0 \<longrightarrow> (\<forall>(a, n) \<in> set (reg_nodes r). n < t))) \<or>
     (\<exists>a lmm'. lmm_alloc sz flags lmm = Some (a, lmm') \<and> takes_block lmm flags a t lmm' \<and> 8 dvd unat a \<and>
       lmm_free a sz lmm' = Some lmm))"
proof -
  have z: "sz \<noteq> 0" using assms(2) by auto
  note t = round_up_8 [OF assms(3,2), folded t_def]
  have d: "8 dvd unat t" "0 < unat t" using t by simp_all
  have e: "lmm_alloc sz flags lmm = alloc_regions t flags lmm" using z by (simp add: lmm_alloc_def t_def)
  have f: "lmm_free a sz lmm' = Some lmm" if "takes_block lmm flags a t lmm'" "8 dvd unat a" for a lmm'
  proof -
    have "a \<noteq> 0" using that(1) by (simp add: takes_block_def)
    then show ?thesis using takes_block_free [OF assms(1) that d] outer_of_aligned [OF that(2), of sz] z
      by (simp add: lmm_free_outer t_def)
  qed
  from alloc_regions_correct [OF assms(1) d, of flags] show ?thesis
    unfolding e using t f by auto
qed

theorem lmm_alloc_correct_witness:
  "\<exists>a lmm'. lmm_alloc 100 0 sample_lmm = Some (a, lmm') \<and> a \<noteq> 0 \<and> lmm_free a 100 lmm' = Some sample_lmm"
proof -
  have e: "lmm_alloc 100 0 sample_lmm = Some (0x100000,
      [\<lparr>reg_nodes = [(0x100068, 0x798), (0x102000, 0x4000)], reg_min = 0x100000, reg_max = 0x200000,
        reg_flags = 0, reg_pri = 1, reg_free = 0x4798\<rparr>])" by code_simp
  from lmm_alloc_correct [OF sample_lmm_wf, of 100 0] show ?thesis unfolding e by auto
qed

text \<open>
  C14: A size above \<open>2\<^sup>3\<^sup>2 - 8\<close> wraps to zero when it is rounded up.  Then \<^verbatim>\<open>lmm_alloc\<close> does not fail:
  it returns the address of the first free block and leaves that block in the free list.
\<close>

theorem lmm_alloc_wraps:
  assumes "lmm_wf (r # rs)" "reg_nodes r = (a, n) # ns" "flags AND NOT (reg_flags r) = 0"
    and "2 ^ 32 \<le> unat sz + 7"
  shows "lmm_alloc sz flags (r # rs) = Some (a, r # rs)"
proof -
  have wf: "nodes_wf (unat (reg_min r)) (reg_max r) ((a, n) # ns)" and r: "reg_wf r"
    using assms(1,2) by (simp_all add: reg_wf_def)
  have "unat (sz + ALIGN_MASK) = unat sz + 7 - 2 ^ 32"
    using assms(4) unat_u32 [of sz] by (subst unat_plus_if') (simp add: mask_eq_exp_minus_1)
  then have "unat ((sz + ALIGN_MASK) AND NOT ALIGN_MASK) = 0"
    using unat_u32 [of sz] by (simp add: unat_and_not_mask)
  then have z: "(sz + ALIGN_MASK) AND NOT ALIGN_MASK = 0" by (simp only: unat_eq_0)
  have "n > 0" using wf by (simp add: word_less_nat_alt)
  then have "alloc_nodes 0 (reg_max r) (reg_nodes r) = Some (Some a, reg_nodes r)"
    using nodes_wf_node_ok [OF wf] assms(2) by simp
  moreover have "sz \<noteq> 0" using assms(4) by auto
  ultimately show ?thesis using reg_wf_ok [OF r] assms(3) by (simp add: lmm_alloc_def z)
qed

theorem lmm_alloc_wraps_witness: "lmm_alloc 0xFFFFFFFC 0 sample_lmm = Some (0x100000, sample_lmm)"
  using lmm_alloc_wraps [OF sample_lmm_wf [unfolded sample_lmm_def], of "0x100000" "0x800" _ 0 "0xFFFFFFFC"]
  by (simp add: sample_lmm_def)

end
