(* ===== verification/Memory.thy ===== *)
theory Memory
  imports Sync Lmm
begin

text \<open>
  Physical memory, the kernel heap and the state the memory management works on.  Memory is a map from
  addresses to bytes; the little-endian word accesses of the C code are \<open>load32\<close> and \<open>store32\<close>.  The
  allocation routines are those of \<^verbatim>\<open>410kern/malloc\<close> and their thread-safe wrappers in
  \<^verbatim>\<open>kern/common/malloc_wrappers.c\<close>.
\<close>

section \<open>Bytes and words\<close>

type_synonym memory = "u32 \<Rightarrow> u8"

definition load32 :: "memory \<Rightarrow> u32 \<Rightarrow> u32" where
  "load32 m a = ucast (m a) OR push_bit 8 (ucast (m (a + 1))) OR push_bit 16 (ucast (m (a + 2)))
     OR push_bit 24 (ucast (m (a + 3)))"

definition store32 :: "u32 \<Rightarrow> u32 \<Rightarrow> memory \<Rightarrow> memory" where
  "store32 a v m = m(a := ucast v, a + 1 := ucast (drop_bit 8 v), a + 2 := ucast (drop_bit 16 v),
     a + 3 := ucast (drop_bit 24 v))"

definition memset :: "u32 \<Rightarrow> u8 \<Rightarrow> u32 \<Rightarrow> memory \<Rightarrow> memory" where
  "memset dst c n m = (\<lambda>a. if a - dst < n then c else m a)"

definition memcpy :: "u32 \<Rightarrow> u32 \<Rightarrow> u32 \<Rightarrow> memory \<Rightarrow> memory" where
  "memcpy dst src n m = (\<lambda>a. if a - dst < n then m (src + (a - dst)) else m a)"

lemma load32_bits: "bit (load32 m a) i \<longleftrightarrow>
   (if i < 8 then bit (m a) i else if i < 16 then bit (m (a + 1)) (i - 8)
    else if i < 24 then bit (m (a + 2)) (i - 16) else i < 32 \<and> bit (m (a + 3)) (i - 24))"
  by (auto simp: load32_def bit_simps dest: bit_imp_le_length)

lemma load32_store32 [simp]: "load32 (store32 a v m) a = v"
  by (rule bit_eqI) (auto simp: load32_bits store32_def bit_simps)

lemma add_neq: "a - b \<noteq> d \<Longrightarrow> a \<noteq> b + (d :: u32)"
  by auto

lemma store32_other:
  assumes "\<not> b - a < 4"
  shows "store32 a v m b = m b"
proof -
  have "b - a \<noteq> 0" "b - a \<noteq> 1" "b - a \<noteq> 2" "b - a \<noteq> 3" using assms by auto
  then have "b \<noteq> a" "b \<noteq> a + 1" "b \<noteq> a + 2" "b \<noteq> a + 3" by auto
  then show ?thesis by (simp add: store32_def)
qed

lemma word_multiple_4:
  assumes "4 dvd unat (a :: u32)" "4 dvd unat b"
  shows "4 dvd unat (b - a)"
proof -
  have "4 dvd (2 :: nat) ^ 32" by simp
  then show ?thesis using assms by (auto simp: unat_sub_if' dvd_diff_nat dvd_add)
qed

lemma store32_word_other:
  assumes "4 dvd unat a" "4 dvd unat b" "a \<noteq> b"
  shows "load32 (store32 a v m) b = load32 m b"
proof -
  have d: "4 dvd unat (b - a)" "unat (b - a) \<noteq> 0"
    using word_multiple_4 [OF assms(1,2)] assms(3) by (auto simp: unat_eq_0)
  have far: "\<not> b + i - a < 4" if "i < 4" for i
  proof -
    have le: "unat (b - a) + 4 \<le> 2 ^ 32"
    proof -
      obtain k where k: "unat (b - a) = 4 * k" using d(1) by (rule dvdE)
      then show ?thesis using unat_u32 [of "b - a"] by simp
    qed
    have i: "unat i < 4" using that by (simp add: word_less_nat_alt)
    have "unat (b - a + i) = unat (b - a) + unat i" using le i by (intro unat_add_less) simp
    then have "4 \<le> unat (b - a + i)" using d by (auto dest: dvd_imp_le)
    then show ?thesis by (simp add: word_less_nat_alt diff_add_eq)
  qed
  have "store32 a v m b = m b" "store32 a v m (b + 1) = m (b + 1)" "store32 a v m (b + 2) = m (b + 2)"
    "store32 a v m (b + 3) = m (b + 3)"
    using far [of 0] far [of 1] far [of 2] far [of 3] by (simp_all add: store32_other)
  then show ?thesis by (simp add: load32_def)
qed

section \<open>The state of the memory management\<close>

text \<open>
  The free frame stack \<^verbatim>\<open>free_frames_arr\<close> and the reference counts \<^verbatim>\<open>frame_ref_count\<close> are arrays on the
  kernel heap that are allocated once and indexed by \<^verbatim>\<open>FRAME_INDEX\<close>; the model has them as functions of
  the index.  \<open>phys_frames\<close> is what \<^verbatim>\<open>machine_phys_frames\<close> returns.
\<close>

record mstate = kstate +
  mem :: memory
  malloc_lmm :: lmm
  phys_frames :: u32
  free_frames_arr :: "u32 \<Rightarrow> u32"
  free_list_head :: u32
  frame_ref_count :: "u32 \<Rightarrow> int"
  kernel_pd :: u32
  dead_thr_kernel_stack :: u32
  direct_map :: "nat \<Rightarrow> u32"
  cr0 :: u32
  cr2 :: u32
  cr4 :: u32
  eflags :: u32

definition upd_mem :: "(memory \<Rightarrow> memory) \<Rightarrow> 'a mstate_scheme \<Rightarrow> 'a mstate_scheme" where
  "upd_mem f s = s\<lparr>mem := f (mem s)\<rparr>"

definition poke :: "u32 \<Rightarrow> u32 \<Rightarrow> (unit, 'a mstate_scheme) kop" where
  "poke a v = kmodify (upd_mem (store32 a v))"

definition peek :: "u32 \<Rightarrow> (u32, 'a mstate_scheme) kop" where
  "peek a = kgets (\<lambda>s. load32 (mem s) a)"

section \<open>The heap\<close>

text \<open>The routines of \<^verbatim>\<open>410kern/malloc\<close>; a failed assertion of the list memory manager panics.\<close>

definition lmm_call :: "(lmm \<Rightarrow> ('b \<times> lmm) option) \<Rightarrow> ('b, 'a mstate_scheme) kop" where
  "lmm_call f = (\<lambda>s. case f (malloc_lmm s) of
      None \<Rightarrow> Kernel_panic s
    | Some (x, l) \<Rightarrow> Ok x (s\<lparr>malloc_lmm := l\<rparr>))"

definition lmm_give :: "u32 \<Rightarrow> u32 \<Rightarrow> (unit, 'a mstate_scheme) kop" where
  "lmm_give p sz = lmm_call (\<lambda>l. map_option (Pair ()) (lmm_free p sz l))"

text \<open>A leading underscore is not possible in a name: \<open>u_malloc\<close> is \<^verbatim>\<open>_malloc\<close>, and so on.\<close>

definition u_malloc :: "u32 \<Rightarrow> (u32, 'a mstate_scheme) kop" where
  "u_malloc sz = kbind (lmm_call (lmm_alloc (sz + 4) 0)) (\<lambda>chunk.
     if chunk = 0 then kret 0
     else kthen (poke chunk (sz + 4)) (kret (chunk + 4)))"

definition align_shift :: "u32 \<Rightarrow> nat" where
  "align_shift alignment = length (takeWhile (\<lambda>i. push_bit i 1 < alignment) [0..<32])"

definition u_memalign :: "u32 \<Rightarrow> u32 \<Rightarrow> (u32, 'a mstate_scheme) kop" where
  "u_memalign alignment sz =
     (let shift = align_shift alignment
      in kbind (lmm_call (lmm_alloc_aligned (sz + 4) 0 shift (push_bit shift 1 - 4))) (\<lambda>chunk.
        if chunk = 0 then kret 0
        else kthen (poke chunk (sz + 4)) (kret (chunk + 4))))"

definition u_calloc :: "u32 \<Rightarrow> u32 \<Rightarrow> (u32, 'a mstate_scheme) kop" where
  "u_calloc nelt eltsize =
     (let allocsize = nelt * eltsize
      in kbind (u_malloc allocsize) (\<lambda>ptr.
        if ptr = 0 then kret 0
        else kthen (kmodify (upd_mem (memset ptr 0 allocsize))) (kret ptr)))"

definition u_free :: "u32 \<Rightarrow> (unit, 'a mstate_scheme) kop" where
  "u_free chunk_ptr = kbind (peek (chunk_ptr - 4)) (\<lambda>sz. lmm_give (chunk_ptr - 4) sz)"

definition u_realloc :: "u32 \<Rightarrow> u32 \<Rightarrow> (u32, 'a mstate_scheme) kop" where
  "u_realloc buf new_size =
     (if buf = 0 then u_malloc new_size
      else kbind (peek (buf - 4)) (\<lambda>old_size.
        kbind (lmm_call (lmm_alloc (new_size + 4) 0)) (\<lambda>np.
        if np = 0 then kret 0
        else kthen (kmodify (upd_mem (memcpy np (buf - 4)
                 (if old_size < new_size + 4 then old_size else new_size + 4))))
            (kthen (lmm_give (buf - 4) old_size)
            (kthen (poke np (new_size + 4)) (kret (np + 4)))))))"

definition u_smalloc :: "u32 \<Rightarrow> (u32, 'a mstate_scheme) kop" where
  "u_smalloc sz = lmm_call (lmm_alloc sz 0)"

definition u_smemalign :: "u32 \<Rightarrow> u32 \<Rightarrow> (u32, 'a mstate_scheme) kop" where
  "u_smemalign alignment sz = lmm_call (lmm_alloc_aligned sz 0 (align_shift alignment) 0)"

definition u_sfree :: "u32 \<Rightarrow> u32 \<Rightarrow> (unit, 'a mstate_scheme) kop" where
  "u_sfree chunk sz = lmm_give chunk sz"

text \<open>The wrappers run them under the mutex of \<^verbatim>\<open>malloc_wrappers.c\<close>.\<close>

abbreviation malloc_mutex :: "mutex_ptr option" where
  "malloc_mutex \<equiv> Some (Malloc_mutex, 0)"

definition locked :: "mutex_ptr option \<Rightarrow> ('b, 'a mstate_scheme) kop \<Rightarrow> ('b, 'a mstate_scheme) kop" where
  "locked mp m = kthen (mutex_lock mp) (kbind m (\<lambda>x. kthen (mutex_unlock mp) (kret x)))"

definition init_thr_safe_malloc_lib :: "(unit, 'a mstate_scheme) kop" where
  "init_thr_safe_malloc_lib = kbind (mutex_init malloc_mutex) (\<lambda>r. kernel_assert (r = 0))"

definition malloc :: "u32 \<Rightarrow> (u32, 'a mstate_scheme) kop" where
  "malloc sz = locked malloc_mutex (u_malloc sz)"

definition memalign :: "u32 \<Rightarrow> u32 \<Rightarrow> (u32, 'a mstate_scheme) kop" where
  "memalign alignment sz = locked malloc_mutex (u_memalign alignment sz)"

definition calloc :: "u32 \<Rightarrow> u32 \<Rightarrow> (u32, 'a mstate_scheme) kop" where
  "calloc nelt eltsize = locked malloc_mutex (u_calloc nelt eltsize)"

definition realloc :: "u32 \<Rightarrow> u32 \<Rightarrow> (u32, 'a mstate_scheme) kop" where
  "realloc buf new_size = locked malloc_mutex (u_realloc buf new_size)"

definition kfree :: "u32 \<Rightarrow> (unit, 'a mstate_scheme) kop" where
  "kfree buf = locked malloc_mutex (u_free buf)"

definition smalloc :: "u32 \<Rightarrow> (u32, 'a mstate_scheme) kop" where
  "smalloc sz = locked malloc_mutex (u_smalloc sz)"

definition smemalign :: "u32 \<Rightarrow> u32 \<Rightarrow> (u32, 'a mstate_scheme) kop" where
  "smemalign alignment sz = locked malloc_mutex (u_smemalign alignment sz)"

definition sfree :: "u32 \<Rightarrow> u32 \<Rightarrow> (unit, 'a mstate_scheme) kop" where
  "sfree buf sz = kseq
     [mutex_lock_int_save malloc_mutex, u_sfree buf sz, mutex_unlock_int_save malloc_mutex]"

section \<open>Uncontended locks\<close>

text \<open>
  A lock that nobody holds or waits for is taken and released without blocking.  What is left of the
  pair is the state of the interrupt flag.
\<close>

definition mutex_free :: "mutex_ptr \<Rightarrow> 'a kstate_scheme \<Rightarrow> bool" where
  "mutex_free m s \<longleftrightarrow> mutex_value s m = 1 \<and> ring_of (links s) (waiting_of_mutex m) []"

definition acquired :: "mutex_ptr \<Rightarrow> 'a kstate_scheme \<Rightarrow> 'a kstate_scheme" where
  "acquired m s = enable_interrupts_mutex (set_mutex m 0 (disable_interrupts_mutex s))"

definition released :: "mutex_ptr \<Rightarrow> 'a kstate_scheme \<Rightarrow> 'a kstate_scheme" where
  "released m s = enable_interrupts_mutex (set_mutex m 1 (disable_interrupts_mutex s))"

lemma mutex_lock_free: "mutex_free m s \<Longrightarrow> mutex_lock (Some m) s = Ok () (acquired m s)"
  by (simp add: mutex_lock_eq mutex_retry_unfold mutex_free_def acquired_def)

lemma mutex_unlock_held:
  "mutex_value s m = 0 \<Longrightarrow> ring_of (links s) (waiting_of_mutex m) [] \<Longrightarrow>
   mutex_unlock (Some m) s = Ok () (released m s)"
  by (simp add: mutex_unlock_eq wake_waiter_empty released_def)

definition settled :: "'a kstate_scheme \<Rightarrow> 'a kstate_scheme" where
  "settled s = s\<lparr>int_flag := (mutex_enable s \<or> int_flag s)\<rparr>"

lemma acquired_eq:
  "acquired m s = (settled s)\<lparr>mutex_value := (mutex_value s)(m := 0)\<rparr>"
  by (simp add: acquired_def settled_def enable_interrupts_mutex_def disable_interrupts_mutex_def
      state_defs set_mutex_def)

lemma released_eq:
  "released m s = (settled s)\<lparr>mutex_value := (mutex_value s)(m := 1)\<rparr>"
  by (simp add: released_def settled_def enable_interrupts_mutex_def disable_interrupts_mutex_def
      state_defs set_mutex_def)

lemma settled_simps [simp]:
  "links (settled s) = links s" "mutex_value (settled s) = mutex_value s" "threads (settled s) = threads s"
  "tasks (settled s) = tasks s" "mutex_enable (settled s) = mutex_enable s" "cond_status (settled s) = cond_status s"
  "curr_thread (settled s) = curr_thread s" "cr3 (settled s) = cr3 s"
  "settled (settled s) = settled s" "mutex_free m (settled s) \<longleftrightarrow> mutex_free m s"
  by (simp_all add: settled_def mutex_free_def)

lemma settled_mstate [simp]:
  "mem (settled s) = mem s" "malloc_lmm (settled s) = malloc_lmm s" "phys_frames (settled s) = phys_frames s"
  "free_frames_arr (settled s) = free_frames_arr s" "free_list_head (settled s) = free_list_head s"
  "frame_ref_count (settled s) = frame_ref_count s"
  "direct_map (settled s) = direct_map s" "kernel_pd (settled s) = kernel_pd s" "cr0 (settled s) = cr0 s" "cr4 (settled s) = cr4 s"
  for s :: "'a mstate_scheme"
  by (simp_all add: settled_def)

lemma locked_Ok:
  assumes "mutex_free m s" "body (acquired m s) = Ok x s'" "mutex_value s' = (mutex_value s)(m := 0)"
    "ring_of (links s') (waiting_of_mutex m) []"
  shows "locked (Some m) body s = Ok x (released m s')"
  using assms by (simp add: locked_def kop_defs mutex_lock_free mutex_unlock_held)

lemma released_restores:
  assumes "mutex_free m s"
  shows "released m ((acquired m s)\<lparr>malloc_lmm := l\<rparr>) = (settled s)\<lparr>malloc_lmm := l\<rparr>"
proof -
  have "(mutex_value s)(m := 0, m := 1) = mutex_value s" using assms by (simp add: mutex_free_def fun_upd_idem)
  then show ?thesis by (simp add: acquired_eq released_eq settled_def)
qed

lemma locked_lmm_call:
  assumes "mutex_free m s" "f (malloc_lmm s) = Some (x, l)"
  shows "locked (Some m) (lmm_call f) s = Ok x ((settled s)\<lparr>malloc_lmm := l\<rparr>)"
proof -
  have "locked (Some m) (lmm_call f) s = Ok x (released m ((acquired m s)\<lparr>malloc_lmm := l\<rparr>))"
    using assms by (intro locked_Ok) (simp_all add: lmm_call_def acquired_eq mutex_free_def)
  then show ?thesis by (simp add: released_restores [OF assms(1)])
qed

end
