(* ===== verification/Frame_Allocator.thy ===== *)
theory Frame_Allocator
  imports Memory
begin

text \<open>
  The physical frame allocator \<^verbatim>\<open>kern/allocator/frame_allocator.c\<close>: a stack of free frames threaded
  through an array, and one lock per frame.
\<close>

section \<open>The code\<close>

definition PAGE_SIZE :: u32 where "PAGE_SIZE = 0x1000"
definition USER_MEM_START :: u32 where "USER_MEM_START = 0x01000000"
definition FREE_FRAME_LIST_END :: u32 where "FREE_FRAME_LIST_END = 0xFFFFFFFF"
definition PAGE_ALIGNMENT_CHECK :: u32 where "PAGE_ALIGNMENT_CHECK = 0xFFF"

definition FREE_FRAMES_COUNT :: "'a mstate_scheme \<Rightarrow> u32" where
  "FREE_FRAMES_COUNT s = phys_frames s - USER_MEM_START div PAGE_SIZE"

definition FRAME_INDEX :: "u32 \<Rightarrow> u32" where
  "FRAME_INDEX addr = (addr - USER_MEM_START) div PAGE_SIZE"

abbreviation list_mut :: "mutex_ptr option" where
  "list_mut \<equiv> Some (List_mut, 0)"

definition frame_lock :: "u32 \<Rightarrow> mutex_ptr option" where
  "frame_lock i = Some (Frame_lock, i)"

definition set_free_frame :: "u32 \<Rightarrow> u32 \<Rightarrow> 'a mstate_scheme \<Rightarrow> 'a mstate_scheme" where
  "set_free_frame i v s = s\<lparr>free_frames_arr := (free_frames_arr s)(i := v)\<rparr>"

definition assert_init :: "mutex_ptr option \<Rightarrow> (unit, 'a mstate_scheme) kop" where
  "assert_init mp = kbind (mutex_init mp) (\<lambda>r. kernel_assert (r = 0))"

definition init_free_list :: "(unit, 'a mstate_scheme) kop" where
  "init_free_list = kbind (kgets FREE_FRAMES_COUNT) (\<lambda>n. kseq
     [kbind (smalloc (n * 4)) (\<lambda>p. kernel_assert (p \<noteq> 0)),
      kbind (smalloc (n * 12)) (\<lambda>p. kernel_assert (p \<noteq> 0)),
      kfor [0..<unat n - 1] (\<lambda>i. kseq
        [kmodify (set_free_frame (of_nat i) (USER_MEM_START + (of_nat i + 1) * PAGE_SIZE)),
         assert_init (frame_lock (of_nat i))]),
      kmodify (set_free_frame (n - 1) FREE_FRAME_LIST_END),
      assert_init (frame_lock (n - 1)),
      kmodify (\<lambda>s. s\<lparr>free_list_head := USER_MEM_START\<rparr>)])"

definition init_frame_allocator :: "(unit, 'a mstate_scheme) kop" where
  "init_frame_allocator = kseq [init_free_list, assert_init list_mut]"

definition in_range :: "u32 \<Rightarrow> (unit, 'a mstate_scheme) kop" where
  "in_range frame_addr = (\<lambda>s. kernel_assert (FRAME_INDEX frame_addr < FREE_FRAMES_COUNT s) s)"

definition allocate_frame :: "(u32, 'a mstate_scheme) kop" where
  "allocate_frame = kthen (mutex_lock list_mut) (kbind (kgets free_list_head) (\<lambda>head.
     if head = FREE_FRAME_LIST_END then kthen (mutex_unlock list_mut) (kret 0)
     else kthen (kseq
       [kmodify (\<lambda>s. s\<lparr>free_list_head := free_frames_arr s (FRAME_INDEX head)\<rparr>),
        mutex_unlock list_mut,
        kernel_assert (head AND PAGE_ALIGNMENT_CHECK = 0),
        in_range head]) (kret head)))"

definition deallocate_frame :: "u32 \<Rightarrow> (unit, 'a mstate_scheme) kop" where
  "deallocate_frame frame_addr = kseq
     [kernel_assert (frame_addr AND PAGE_ALIGNMENT_CHECK = 0),
      kernel_assert (frame_addr \<noteq> 0),
      in_range frame_addr,
      mutex_lock list_mut,
      kmodify (\<lambda>s. set_free_frame (FRAME_INDEX frame_addr) (free_list_head s) s),
      kmodify (\<lambda>s. s\<lparr>free_list_head := frame_addr\<rparr>),
      mutex_unlock list_mut]"

definition lock_frame :: "u32 \<Rightarrow> (unit, 'a mstate_scheme) kop" where
  "lock_frame frame_addr = kseq
     [kernel_assert (frame_addr \<noteq> 0), in_range frame_addr,
      mutex_lock (frame_lock (FRAME_INDEX frame_addr))]"

definition unlock_frame :: "u32 \<Rightarrow> (unit, 'a mstate_scheme) kop" where
  "unlock_frame frame_addr = kseq
     [kernel_assert (frame_addr \<noteq> 0), in_range frame_addr,
      mutex_unlock (frame_lock (FRAME_INDEX frame_addr))]"

partial_function (option) count_frames :: "(u32 \<Rightarrow> u32) \<Rightarrow> u32 \<Rightarrow> int \<Rightarrow> int option option" where
  "count_frames arr first n =
     (if first = FREE_FRAME_LIST_END then Some (Some n)
      else if first \<ge> USER_MEM_START \<and> first \<le> FREE_FRAME_LIST_END
      then count_frames arr (arr (FRAME_INDEX first)) (n + 1)
      else Some None)"

definition check_physical_memory :: "(int, 'a mstate_scheme) kop" where
  "check_physical_memory = (\<lambda>s. case count_frames (free_frames_arr s) (free_list_head s) 0 of
      None \<Rightarrow> Diverges
    | Some None \<Rightarrow> Kernel_panic s
    | Some (Some n) \<Rightarrow> Ok n s)"

section \<open>The free stack\<close>

fun chain :: "(u32 \<Rightarrow> u32) \<Rightarrow> u32 \<Rightarrow> u32 list \<Rightarrow> bool" where
  "chain arr head [] \<longleftrightarrow> head = FREE_FRAME_LIST_END"
| "chain arr head (f # fs) \<longleftrightarrow> head = f \<and> chain arr (arr (FRAME_INDEX f)) fs"

definition valid_frame :: "'a mstate_scheme \<Rightarrow> u32 \<Rightarrow> bool" where
  "valid_frame s f \<longleftrightarrow> f AND PAGE_ALIGNMENT_CHECK = 0 \<and> USER_MEM_START \<le> f \<and>
     FRAME_INDEX f < FREE_FRAMES_COUNT s"

definition free_stack :: "'a mstate_scheme \<Rightarrow> u32 list \<Rightarrow> bool" where
  "free_stack s fs \<longleftrightarrow> chain (free_frames_arr s) (free_list_head s) fs \<and> distinct fs \<and>
     (\<forall>f \<in> set fs. valid_frame s f)"

definition frames_ready :: "'a mstate_scheme \<Rightarrow> bool" where
  "frames_ready s \<longleftrightarrow> mutex_free (List_mut, 0) s"

lemma valid_frame_nonzero: "valid_frame s f \<Longrightarrow> f \<noteq> 0 \<and> f \<noteq> FREE_FRAME_LIST_END"
  by (auto simp: valid_frame_def USER_MEM_START_def FREE_FRAME_LIST_END_def PAGE_ALIGNMENT_CHECK_def)

lemma frame_address:
  assumes "f AND PAGE_ALIGNMENT_CHECK = 0" "USER_MEM_START \<le> f"
  shows "unat f = 0x1000000 + 0x1000 * unat (FRAME_INDEX f)"
proof -
  have "(0xFFF :: u32) = mask 12" by (simp add: mask_eq_exp_minus_1)
  then have "0x1000 dvd unat f"
    using assms(1) unat_and_mask [of f 12] by (simp add: PAGE_ALIGNMENT_CHECK_def mod_eq_0_iff_dvd)
  then obtain k where k: "unat f = 0x1000 * k" by (rule dvdE)
  have ge: "0x1000000 \<le> unat f" using assms(2) by (simp add: USER_MEM_START_def word_le_nat_alt)
  have "unat (f - USER_MEM_START) = 0x1000 * (k - 0x1000)"
    using assms(2) k by (subst unat_sub) (simp_all add: USER_MEM_START_def)
  then have "unat (FRAME_INDEX f) = k - 0x1000"
    by (simp add: FRAME_INDEX_def unat_div_distrib PAGE_SIZE_def)
  with k ge show ?thesis by simp
qed

lemma FRAME_INDEX_inj:
  assumes "valid_frame s f" "valid_frame s g" "FRAME_INDEX f = FRAME_INDEX g"
  shows "f = g"
  using assms frame_address [of f] frame_address [of g] by (simp add: valid_frame_def word_unat_eq_iff)

lemma chain_cong:
  "chain arr head fs \<Longrightarrow> (\<And>f. f \<in> set fs \<Longrightarrow> arr' (FRAME_INDEX f) = arr (FRAME_INDEX f)) \<Longrightarrow> chain arr' head fs"
  by (induction fs arbitrary: head) auto

lemma released_acquired:
  assumes "mutex_free m s"
  shows "released m (acquired m s) = settled s"
    "released m ((acquired m s)\<lparr>free_list_head := h\<rparr>) = (settled s)\<lparr>free_list_head := h\<rparr>"
    "released m ((acquired m s)\<lparr>free_frames_arr := arr, free_list_head := h\<rparr>) =
       (settled s)\<lparr>free_frames_arr := arr, free_list_head := h\<rparr>"
    "released m ((acquired m s)\<lparr>frame_ref_count := rc\<rparr>) = (settled s)\<lparr>frame_ref_count := rc\<rparr>"
    "released m ((acquired m s)\<lparr>mem := mm\<rparr>) = (settled s)\<lparr>mem := mm\<rparr>"
proof -
  have "(mutex_value s)(m := 0, m := 1) = mutex_value s" using assms by (simp add: mutex_free_def fun_upd_idem)
  then show "released m (acquired m s) = settled s"
    "released m ((acquired m s)\<lparr>free_list_head := h\<rparr>) = (settled s)\<lparr>free_list_head := h\<rparr>"
    "released m ((acquired m s)\<lparr>free_frames_arr := arr, free_list_head := h\<rparr>) =
       (settled s)\<lparr>free_frames_arr := arr, free_list_head := h\<rparr>"
    "released m ((acquired m s)\<lparr>frame_ref_count := rc\<rparr>) = (settled s)\<lparr>frame_ref_count := rc\<rparr>"
    "released m ((acquired m s)\<lparr>mem := mm\<rparr>) = (settled s)\<lparr>mem := mm\<rparr>"
    by (simp_all add: acquired_eq released_eq settled_def)
qed

lemma acquired_fields [simp]:
  "mutex_value (acquired m s) m = 0" "links (acquired m s) = links s"
  "free_list_head (acquired m s') = free_list_head s'" "free_frames_arr (acquired m s') = free_frames_arr s'"
  "phys_frames (acquired m s') = phys_frames s'" "frame_ref_count (acquired m s') = frame_ref_count s'"
  "mem (acquired m s') = mem s'"
  for s' :: "'a mstate_scheme"
  by (simp_all add: acquired_eq)

lemma FREE_FRAMES_COUNT_cong [simp]:
  "FREE_FRAMES_COUNT (settled s) = FREE_FRAMES_COUNT s"
  "FREE_FRAMES_COUNT (s\<lparr>free_list_head := h\<rparr>) = FREE_FRAMES_COUNT s"
  "FREE_FRAMES_COUNT (s\<lparr>free_frames_arr := arr\<rparr>) = FREE_FRAMES_COUNT s"
  "FREE_FRAMES_COUNT (s\<lparr>frame_ref_count := rc\<rparr>) = FREE_FRAMES_COUNT s"
  "FREE_FRAMES_COUNT (s\<lparr>mem := mm\<rparr>) = FREE_FRAMES_COUNT s"
  "FREE_FRAMES_COUNT (acquired m s) = FREE_FRAMES_COUNT s"
  by (simp_all add: FREE_FRAMES_COUNT_def)

lemma allocate_frame_none:
  assumes "frames_ready s" "free_stack s []"
  shows "allocate_frame s = Ok 0 (settled s)"
  using assms by (simp add: allocate_frame_def kop_defs frames_ready_def free_stack_def mutex_lock_free
      mutex_unlock_held mutex_free_def released_acquired)

lemma allocate_frame_top:
  assumes r: "frames_ready s" and st: "free_stack s (f # fs)"
  defines "s' \<equiv> (settled s)\<lparr>free_list_head := free_frames_arr s (FRAME_INDEX f)\<rparr>"
  shows "allocate_frame s = Ok f s'" "free_stack s' fs" "frames_ready s'"
proof -
  have m: "mutex_free (List_mut, 0) s" using r by (simp add: frames_ready_def)
  have ring: "ring_of (links s) (waiting_of_mutex (List_mut, 0)) []" using m by (simp add: mutex_free_def)
  have f: "free_list_head s = f" "valid_frame s f" using st by (simp_all add: free_stack_def)
  show "allocate_frame s = Ok f s'"
    using f valid_frame_nonzero [OF f(2)] m
    by (simp add: allocate_frame_def kop_defs mutex_lock_free mutex_unlock_held ring released_acquired
        in_range_def s'_def valid_frame_def)
  show "free_stack s' fs" using st by (auto simp: s'_def free_stack_def valid_frame_def)
  show "frames_ready s'" using m by (simp add: s'_def frames_ready_def mutex_free_def)
qed

lemma deallocate_frame_push:
  assumes r: "frames_ready s" and st: "free_stack s fs" and v: "valid_frame s f" and "f \<notin> set fs"
  defines "s' \<equiv> (settled s)\<lparr>free_frames_arr := (free_frames_arr s)(FRAME_INDEX f := free_list_head s), free_list_head := f\<rparr>"
  shows "deallocate_frame f s = Ok () s'" "free_stack s' (f # fs)" "frames_ready s'"
proof -
  have m: "mutex_free (List_mut, 0) s" using r by (simp add: frames_ready_def)
  have ring: "ring_of (links s) (waiting_of_mutex (List_mut, 0)) []" using m by (simp add: mutex_free_def)
  show "deallocate_frame f s = Ok () s'"
    using v valid_frame_nonzero [OF v] m
    by (simp add: deallocate_frame_def kop_defs mutex_lock_free mutex_unlock_held ring released_acquired
        in_range_def s'_def valid_frame_def set_free_frame_def)
  have "chain ((free_frames_arr s)(FRAME_INDEX f := free_list_head s)) (free_list_head s) fs"
  proof (rule chain_cong)
    show "chain (free_frames_arr s) (free_list_head s) fs" using st by (simp add: free_stack_def)
    show "((free_frames_arr s)(FRAME_INDEX f := free_list_head s)) (FRAME_INDEX g) = free_frames_arr s (FRAME_INDEX g)"
      if "g \<in> set fs" for g
      using that st v assms(4) FRAME_INDEX_inj [of s g f] by (auto simp: free_stack_def)
  qed
  then show "free_stack s' (f # fs)"
    using st v assms(4) by (auto simp: s'_def free_stack_def valid_frame_def)
  show "frames_ready s'" using m by (simp add: s'_def frames_ready_def mutex_free_def)
qed

lemma count_frames_chain:
  "chain arr head fs \<Longrightarrow> \<forall>f \<in> set fs. USER_MEM_START \<le> f \<and> f \<noteq> FREE_FRAME_LIST_END \<Longrightarrow>
   count_frames arr head n = Some (Some (n + int (length fs)))"
proof (induction fs arbitrary: head n)
  case Nil
  then show ?case by (subst count_frames.simps) simp
next
  case (Cons f fs)
  have "f \<le> FREE_FRAME_LIST_END" by (simp add: FREE_FRAME_LIST_END_def word_le_nat_alt unat_u32 [simplified] less_Suc_eq_le [symmetric])
  with Cons show ?case by (subst count_frames.simps) simp
qed

section \<open>Clients of the allocator\<close>

text \<open>
  A configuration is the kernel state with the set of frames that are handed out; a client either asks
  for a frame or returns one it holds.
\<close>

inductive frame_step :: "'a mstate_scheme \<times> u32 set \<Rightarrow> 'a mstate_scheme \<times> u32 set \<Rightarrow> bool" where
  allocates: "allocate_frame s = Ok f s' \<Longrightarrow> f \<noteq> 0 \<Longrightarrow> frame_step (s, H) (s', insert f H)"
| exhausted: "allocate_frame s = Ok 0 s' \<Longrightarrow> frame_step (s, H) (s', H)"
| returns: "f \<in> H \<Longrightarrow> deallocate_frame f s = Ok () s' \<Longrightarrow> frame_step (s, H) (s', H - {f})"

definition frames_split :: "u32 set \<Rightarrow> 'a mstate_scheme \<times> u32 set \<Rightarrow> bool" where
  "frames_split F = (\<lambda>(s, H). frames_ready s \<and> (\<exists>fs. free_stack s fs \<and> set fs \<inter> H = {} \<and>
     set fs \<union> H = F \<and> (\<forall>f \<in> H. valid_frame s f)))"

lemma valid_frame_cong [simp]:
  "valid_frame (settled s) f = valid_frame s f" "valid_frame (s\<lparr>free_list_head := h\<rparr>) f = valid_frame s f"
  "valid_frame (s\<lparr>free_frames_arr := arr\<rparr>) f = valid_frame s f"
  by (simp_all add: valid_frame_def)

lemma frames_splitI:
  "frames_ready s \<Longrightarrow> free_stack s fs \<Longrightarrow> set fs \<inter> H = {} \<Longrightarrow> set fs \<union> H = F \<Longrightarrow>
   (\<And>f. f \<in> H \<Longrightarrow> valid_frame s f) \<Longrightarrow> frames_split F (s, H)"
  by (auto simp: frames_split_def)

lemma frame_step_split:
  assumes "frames_split F c" "frame_step c c'"
  shows "frames_split F c'"
  using assms(2,1)
proof cases
  case (allocates s f s' H)
  obtain fs where fs: "frames_ready s" "free_stack s fs" "set fs \<inter> H = {}" "set fs \<union> H = F" "\<forall>f \<in> H. valid_frame s f"
    using assms(1) allocates(1) by (auto simp: frames_split_def)
  show ?thesis
  proof (cases fs)
    case Nil
    then show ?thesis using allocate_frame_none [of s] fs(1,2) allocates by simp
  next
    case (Cons g gs)
    note eff = allocate_frame_top [OF fs(1) fs(2) [unfolded Cons]]
    have g: "g = f" "valid_frame s f" "g \<notin> set gs" using eff(1) allocates fs(2) Cons by (auto simp: free_stack_def)
    have "frames_split F (s', insert f H)"
      using eff allocates(3) fs(3-5) g Cons by (intro frames_splitI [of _ gs]) auto
    then show ?thesis using allocates by simp
  qed
next
  case (exhausted s s' H)
  obtain fs where fs: "frames_ready s" "free_stack s fs" "set fs \<inter> H = {}" "set fs \<union> H = F" "\<forall>f \<in> H. valid_frame s f"
    using assms(1) exhausted(1) by (auto simp: frames_split_def)
  have "fs = []"
  proof (cases fs)
    case (Cons g gs)
    then show ?thesis
      using allocate_frame_top(1) [OF fs(1), of g gs] fs(2) exhausted(3) valid_frame_nonzero [of s g]
      by (auto simp: free_stack_def)
  qed
  have "frames_split F (s', H)"
    using fs exhausted(3) allocate_frame_none [of s] \<open>fs = []\<close>
    by (intro frames_splitI [of _ "[]"]) (auto simp: frames_ready_def free_stack_def)
  then show ?thesis using exhausted by simp
next
  case (returns f H s s')
  obtain fs where fs: "frames_ready s" "free_stack s fs" "set fs \<inter> H = {}" "set fs \<union> H = F" "\<forall>f \<in> H. valid_frame s f"
    using assms(1) returns(1) by (auto simp: frames_split_def)
  have f: "valid_frame s f" "f \<notin> set fs" using fs returns by auto
  note eff = deallocate_frame_push [OF fs(1,2) f]
  have "frames_split F (s', H - {f})"
    using eff returns(3,4) fs(3-5) f by (intro frames_splitI [of _ "f # fs"]) auto
  then show ?thesis using returns by simp
qed

definition frames_init :: "u32 set \<Rightarrow> 'a mstate_scheme \<times> u32 set \<Rightarrow> bool" where
  "frames_init F = (\<lambda>(s, H). frames_ready s \<and> H = {} \<and> (\<exists>fs. free_stack s fs \<and> set fs = F))"

interpretation frame_sys: invariant_system "frames_init F" frame_step "frames_split F" for F
proof
  show "frames_split F c" if "frames_init F c" for c :: "'a mstate_scheme \<times> u32 set"
    using that by (auto simp: frames_init_def frames_split_def)
  show "frames_split F c'" if "frames_split F c" "frame_step c c'" for c c' :: "'a mstate_scheme \<times> u32 set"
    using that by (rule frame_step_split)
qed

section \<open>A small machine\<close>

definition sample_machine :: mstate where
  "sample_machine = kstate.extend
     (upd_links (init_head (waiting_of_mutex (List_mut, 0)) \<circ> init_head (waiting_of_mutex (Malloc_mutex, 0)))
       (sample_state\<lparr>mutex_value := (\<lambda>_. 1)\<rparr>))
     (mstate.fields (\<lambda>_. 0) [] 0x1004 (\<lambda>i. if i = 0 then 0x01001000 else if i = 1 then 0x01002000 else FREE_FRAME_LIST_END)
        USER_MEM_START (\<lambda>_. 0) 0 0 (\<lambda>_. 0) 0 0 0 0)"

lemma sample_machine_fields [simp]:
  "free_list_head sample_machine = USER_MEM_START" "phys_frames sample_machine = 0x1004"
  "free_frames_arr sample_machine = (\<lambda>i. if i = 0 then 0x01001000 else if i = 1 then 0x01002000 else FREE_FRAME_LIST_END)"
  "mutex_value sample_machine m = 1"
  by (simp_all add: sample_machine_def kstate.defs mstate.defs upd_links_def)

lemma sample_machine_ready: "frames_ready sample_machine"
  by (simp add: frames_ready_def mutex_free_def sample_machine_def kstate.defs upd_links_def ring_of_init)

lemma sample_machine_stack: "free_stack sample_machine [0x01000000, 0x01001000, 0x01002000]"
  by (simp add: free_stack_def valid_frame_def FRAME_INDEX_def USER_MEM_START_def PAGE_SIZE_def
      FREE_FRAMES_COUNT_def PAGE_ALIGNMENT_CHECK_def)

section \<open>The properties\<close>

text \<open>
  C7: The frame allocator implements a stack of free frames.  \<^verbatim>\<open>allocate_frame\<close> returns NULL exactly when
  the stack is empty and otherwise its top, which is page aligned and inside physical memory;
  \<^verbatim>\<open>deallocate_frame\<close> pushes a frame; no assertion of either fails.
\<close>

theorem frame_allocator_is_stack:
  assumes "frames_ready s" "free_stack s fs" "valid_frame s g" "g \<notin> set fs"
  shows "(case fs of
      [] \<Rightarrow> allocate_frame s = Ok 0 (settled s)
    | f # fs' \<Rightarrow> \<exists>s'. allocate_frame s = Ok f s' \<and> f \<noteq> 0 \<and> frames_ready s' \<and> free_stack s' fs') \<and>
    (\<exists>s'. deallocate_frame g s = Ok () s' \<and> frames_ready s' \<and> free_stack s' (g # fs))"
proof (cases fs)
  case Nil
  then show ?thesis
    using allocate_frame_none [of s] deallocate_frame_push [OF assms] assms by simp
next
  case (Cons f fs')
  then have "valid_frame s f" using assms(2) by (simp add: free_stack_def)
  then show ?thesis
    using allocate_frame_top [OF assms(1), of f fs'] deallocate_frame_push [OF assms]
      valid_frame_nonzero [of s f] assms(2) Cons by simp
qed

theorem frame_allocator_is_stack_witness:
  "\<exists>s'. allocate_frame sample_machine = Ok 0x01000000 s' \<and> frames_ready s' \<and>
     free_stack s' [0x01001000, 0x01002000]"
  using frame_allocator_is_stack [OF sample_machine_ready sample_machine_stack, of "0x01003000"]
  by (simp add: valid_frame_def FRAME_INDEX_def USER_MEM_START_def PAGE_SIZE_def
      FREE_FRAMES_COUNT_def PAGE_ALIGNMENT_CHECK_def)

text \<open>
  C6: Frames are conserved and never handed out twice.  Whatever clients do with \<^verbatim>\<open>allocate_frame\<close> and
  with \<^verbatim>\<open>deallocate_frame\<close> on frames they hold, the frame returned by the next \<^verbatim>\<open>allocate_frame\<close> is one
  nobody holds, and NULL is returned only when all frames are held.
\<close>

theorem frames_never_shared:
  assumes "frames_init F c" "frame_step\<^sup>*\<^sup>* c (s, H)"
  shows "\<exists>f s'. allocate_frame s = Ok f s' \<and> (if f = 0 then H = F else f \<in> F - H)"
proof -
  from frame_sys.reachable_inv [OF assms] obtain fs where
    fs: "frames_ready s" "free_stack s fs" "set fs \<inter> H = {}" "set fs \<union> H = F"
    by (auto simp: frames_split_def)
  show ?thesis
  proof (cases fs)
    case Nil
    then show ?thesis using allocate_frame_none [of s] fs by auto
  next
    case (Cons f gs)
    then show ?thesis
      using allocate_frame_top(1) [OF fs(1), of f gs] fs valid_frame_nonzero [of s f] by (auto simp: free_stack_def)
  qed
qed

theorem frames_never_shared_witness:
  "\<exists>s H f s'. frame_step\<^sup>*\<^sup>* (sample_machine, {}) (s, H) \<and> H = {0x01000000} \<and> allocate_frame s = Ok f s' \<and>
     (if f = 0 then H = {0x01000000, 0x01001000, 0x01002000} else f \<in> {0x01000000, 0x01001000, 0x01002000} - H)"
proof -
  let ?F = "{0x01000000, 0x01001000, 0x01002000} :: u32 set"
  obtain s' where s': "allocate_frame sample_machine = Ok 0x01000000 s'"
    using allocate_frame_top(1) [OF sample_machine_ready sample_machine_stack] by blast
  have i: "frames_init ?F (sample_machine, {})"
    using sample_machine_ready sample_machine_stack by (force simp: frames_init_def)
  have r: "frame_step\<^sup>*\<^sup>* (sample_machine, {}) (s', {0x01000000})"
    using frame_step.allocates [OF s', of "{}"] by auto
  show ?thesis using frames_never_shared [OF i r] r by blast
qed

text \<open>
  \<^verbatim>\<open>check_physical_memory\<close> terminates on an intact free stack and returns the number of free frames
  without changing the state.
\<close>

lemma check_physical_memory_counts:
  assumes "free_stack s fs"
  shows "check_physical_memory s = Ok (int (length fs)) s"
  using assms count_frames_chain [of "free_frames_arr s" "free_list_head s" fs 0] valid_frame_nonzero [of s]
  by (auto simp: check_physical_memory_def free_stack_def valid_frame_def)

end
