(* ===== verification/Vm.thy ===== *)
theory Vm
  imports Frame_Allocator
begin

text \<open>
  Virtual memory, \<^verbatim>\<open>kern/vm/vm.c\<close>: page directories and page tables as words in physical memory, the
  kernel's direct map, copy-on-write and the mapping of segments.

  The lowest 16 MB are mapped one to one in every page directory, so the kernel's own accesses to
  directories and tables are accesses to physical memory.  Accesses through a user address go through
  \<open>translate\<close>, the walk of the processor starting at \<^verbatim>\<open>%cr3\<close>; the write protect bit of \<^verbatim>\<open>%cr0\<close> is never
  set, so the kernel may write a read-only page, and an access to a page that is not present is a page
  fault.
\<close>

section \<open>Entries and indices\<close>

definition PAGE_ENTRY_PRESENT :: u32 where "PAGE_ENTRY_PRESENT = 1"
definition READ_WRITE_ENABLE :: u32 where "READ_WRITE_ENABLE = 2"
abbreviation (input) WRITE_DISABLE_MASK :: u32 where "WRITE_DISABLE_MASK \<equiv> 0xFFFFFFFD"
abbreviation (input) USER_MODE :: u32 where "USER_MODE \<equiv> 4"
abbreviation (input) COW_MODE :: u32 where "COW_MODE \<equiv> 512"
abbreviation (input) COW_MODE_DISABLE_MASK :: u32 where "COW_MODE_DISABLE_MASK \<equiv> 0xFFFFFDFF"
definition GLOBAL_PAGE_ENTRY :: u32 where "GLOBAL_PAGE_ENTRY = 256"
abbreviation (input) NEWPAGE_PAGE :: u32 where "NEWPAGE_PAGE \<equiv> 1024"
abbreviation (input) NEWPAGE_START :: u32 where "NEWPAGE_START \<equiv> 2048"
abbreviation (input) NEWPAGE_END :: u32 where "NEWPAGE_END \<equiv> 3072"
abbreviation (input) PAGE_ROUND_DOWN :: u32 where "PAGE_ROUND_DOWN \<equiv> 0xFFFFF000"
definition NUM_PAGE_TABLE_ENTRIES :: nat where "NUM_PAGE_TABLE_ENTRIES = 1024"
definition KERNEL_MAP_NUM_ENTRIES :: nat where "KERNEL_MAP_NUM_ENTRIES = 4"
abbreviation (input) DEFAULT_STACK_SIZE :: u32 where "DEFAULT_STACK_SIZE \<equiv> 2 * 1024 * 1024"
abbreviation (input) STACK_START :: u32 where "STACK_START \<equiv> 0xC0000000"
abbreviation (input) MEMORY_REGION_MAPPED :: int where "MEMORY_REGION_MAPPED \<equiv> 0"
abbreviation (input) MEMORY_REGION_UNMAPPED :: int where "MEMORY_REGION_UNMAPPED \<equiv> 1"
abbreviation (input) MAX_MEMORY_ADDR :: u32 where "MAX_MEMORY_ADDR \<equiv> 0xFFFFFFFF"
abbreviation (input) MAX_AVAILABLE_USER_MEM :: u32 where "MAX_AVAILABLE_USER_MEM \<equiv> MAX_MEMORY_ADDR - USER_MEM_START"
definition PAGE_DIR_ENTRY_DEFAULT :: u32 where "PAGE_DIR_ENTRY_DEFAULT = 2"
definition PAGE_TABLE_ENTRY_DEFAULT :: u32 where "PAGE_TABLE_ENTRY_DEFAULT = 2"
definition USER_PD_ENTRY_FLAGS :: u32 where
  "USER_PD_ENTRY_FLAGS = PAGE_ENTRY_PRESENT OR READ_WRITE_ENABLE OR USER_MODE"
definition CR0_PG :: u32 where "CR0_PG = push_bit 31 1"
definition CR4_PGE :: u32 where "CR4_PGE = push_bit 7 1"

named_theorems vm_consts \<open>the constants of vm.h\<close>

lemmas vm_const_defs [vm_consts] =
  PAGE_ENTRY_PRESENT_def READ_WRITE_ENABLE_def GLOBAL_PAGE_ENTRY_def NUM_PAGE_TABLE_ENTRIES_def
  KERNEL_MAP_NUM_ENTRIES_def PAGE_DIR_ENTRY_DEFAULT_def
  PAGE_TABLE_ENTRY_DEFAULT_def USER_PD_ENTRY_FLAGS_def CR0_PG_def CR4_PGE_def PAGE_SIZE_def USER_MEM_START_def

definition GET_ADDR_FROM_ENTRY :: "u32 \<Rightarrow> u32" where
  "GET_ADDR_FROM_ENTRY e = e AND 0xFFFFF000"

definition GET_FLAGS_FROM_ENTRY :: "u32 \<Rightarrow> u32" where
  "GET_FLAGS_FROM_ENTRY e = e AND 0x00000FFF"

definition GET_PD_INDEX :: "u32 \<Rightarrow> u32" where
  "GET_PD_INDEX a = drop_bit 22 (a AND 0xFFC00000)"

definition GET_PT_INDEX :: "u32 \<Rightarrow> u32" where
  "GET_PT_INDEX a = drop_bit 12 (a AND 0x003FF000)"

definition SET_NEWPAGE_START :: "u32 \<Rightarrow> u32" where
  "SET_NEWPAGE_START e = (e AND 0xFFFFF3FF) OR NEWPAGE_START"

definition SET_NEWPAGE_END :: "u32 \<Rightarrow> u32" where
  "SET_NEWPAGE_END e = (e AND 0xFFFFF3FF) OR NEWPAGE_END"

definition GET_NEWPAGE_FLAGS :: "u32 \<Rightarrow> u32" where
  "GET_NEWPAGE_FLAGS e = e AND 0x00000C00"

definition page_of :: "u32 \<Rightarrow> u32" where
  "page_of a = a AND PAGE_ROUND_DOWN"

text \<open>\<open>entry m t i\<close> is \<^verbatim>\<open>t[i]\<close> for a directory or table at address \<open>t\<close>.\<close>

definition entry_addr :: "u32 \<Rightarrow> u32 \<Rightarrow> u32" where
  "entry_addr t i = t + 4 * i"

definition entry :: "memory \<Rightarrow> u32 \<Rightarrow> u32 \<Rightarrow> u32" where
  "entry m t i = load32 m (entry_addr t i)"

definition get_entry_of :: "u32 \<Rightarrow> u32 \<Rightarrow> (u32, 'a mstate_scheme) kop" where
  "get_entry_of t i = kgets (\<lambda>s. entry (mem s) t i)"

definition set_entry :: "u32 \<Rightarrow> u32 \<Rightarrow> u32 \<Rightarrow> (unit, 'a mstate_scheme) kop" where
  "set_entry t i v = poke (entry_addr t i) v"

definition table_of :: "u32 \<Rightarrow> u32 \<Rightarrow> (u32, 'a mstate_scheme) kop" where
  "table_of pd a = kgets (\<lambda>s. GET_ADDR_FROM_ENTRY (entry (mem s) pd (GET_PD_INDEX a)))"

definition translate :: "'a mstate_scheme \<Rightarrow> u32 \<Rightarrow> u32 option" where
  "translate s a =
     (let pde = entry (mem s) (cr3 s) (GET_PD_INDEX a)
      in if pde AND PAGE_ENTRY_PRESENT = 0 then None
      else let pte = entry (mem s) (GET_ADDR_FROM_ENTRY pde) (GET_PT_INDEX a)
        in if pte AND PAGE_ENTRY_PRESENT = 0 then None
        else Some (GET_ADDR_FROM_ENTRY pte OR (a AND 0xFFF)))"

text \<open>Accesses of the kernel to a whole page, or a part of one, through its virtual address.\<close>

definition page_write :: "u32 \<Rightarrow> (u32 \<Rightarrow> memory \<Rightarrow> memory) \<Rightarrow> (unit, 'a mstate_scheme) kop" where
  "page_write a f = (\<lambda>s. case translate s a of
      None \<Rightarrow> Page_fault a s
    | Some pa \<Rightarrow> Ok () (upd_mem (f pa) s))"

definition page_read :: "u32 \<Rightarrow> (u32 \<Rightarrow> u8, 'a mstate_scheme) kop" where
  "page_read a = (\<lambda>s. case translate s a of
      None \<Rightarrow> Page_fault a s
    | Some pa \<Rightarrow> Ok (\<lambda>i. mem s (pa + i)) s)"

definition blit :: "(u32 \<Rightarrow> u8) \<Rightarrow> u32 \<Rightarrow> memory \<Rightarrow> memory" where
  "blit buf pa m = (\<lambda>a. if a - pa < PAGE_SIZE then buf (a - pa) else m a)"

section \<open>Directories and tables\<close>

definition set_kernel_pd :: "(unit, 'a mstate_scheme) kop" where
  "set_kernel_pd = kmodify (\<lambda>s. set_cur_pd (kernel_pd s) s)"

definition get_kernel_pd :: "'a mstate_scheme \<Rightarrow> u32" where
  "get_kernel_pd s = kernel_pd s"

definition get_dead_thr_kernel_stack :: "'a mstate_scheme \<Rightarrow> u32" where
  "get_dead_thr_kernel_stack s = dead_thr_kernel_stack s + PAGE_SIZE - 1"

definition enable_paging :: "(unit, 'a mstate_scheme) kop" where
  "enable_paging = kmodify (\<lambda>s. s\<lparr>cr0 := cr0 s OR CR0_PG\<rparr>)"

definition enable_page_pinning :: "(unit, 'a mstate_scheme) kop" where
  "enable_page_pinning = kmodify (\<lambda>s. s\<lparr>cr4 := cr4 s OR CR4_PGE\<rparr>)"

definition direct_map_kernel_pages :: "u32 \<Rightarrow> (unit, 'a mstate_scheme) kop" where
  "direct_map_kernel_pages pd_addr = kfor [0..<KERNEL_MAP_NUM_ENTRIES] (\<lambda>i.
     kbind (kgets (\<lambda>s. direct_map s i)) (\<lambda>d.
       set_entry pd_addr (of_nat i) (d OR (PAGE_ENTRY_PRESENT OR READ_WRITE_ENABLE))))"

definition create_page_directory :: "(u32, 'a mstate_scheme) kop" where
  "create_page_directory = kbind (smemalign PAGE_SIZE PAGE_SIZE) (\<lambda>frame_addr.
     if frame_addr = 0 then kret 0
     else kthen (direct_map_kernel_pages frame_addr)
       (kthen (kfor [KERNEL_MAP_NUM_ENTRIES..<NUM_PAGE_TABLE_ENTRIES]
         (\<lambda>i. set_entry frame_addr (of_nat i) PAGE_DIR_ENTRY_DEFAULT))
       (kret frame_addr)))"

definition free_page_directory :: "u32 \<Rightarrow> (unit, 'a mstate_scheme) kop" where
  "free_page_directory pd_addr = kwhen (pd_addr \<noteq> 0) (sfree pd_addr PAGE_SIZE)"

definition create_page_table :: "(u32, 'a mstate_scheme) kop" where
  "create_page_table = kbind (smemalign PAGE_SIZE PAGE_SIZE) (\<lambda>frame_addr.
     if frame_addr = 0 then kret 0
     else kthen (kfor [0..<NUM_PAGE_TABLE_ENTRIES]
         (\<lambda>i. set_entry frame_addr (of_nat i) PAGE_TABLE_ENTRY_DEFAULT))
       (kret frame_addr))"

definition add_ref :: "u32 \<Rightarrow> int \<Rightarrow> (unit, 'a mstate_scheme) kop" where
  "add_ref frame_addr d = kmodify (\<lambda>s. s\<lparr>frame_ref_count :=
     (frame_ref_count s)(FRAME_INDEX frame_addr := frame_ref_count s (FRAME_INDEX frame_addr) + d)\<rparr>)"

definition get_ref :: "u32 \<Rightarrow> (int, 'a mstate_scheme) kop" where
  "get_ref frame_addr = kgets (\<lambda>s. frame_ref_count s (FRAME_INDEX frame_addr))"

definition increment_ref_count :: "u32 \<Rightarrow> (unit, 'a mstate_scheme) kop" where
  "increment_ref_count pt = kwhen (pt \<noteq> 0) (kfor [0..<NUM_PAGE_TABLE_ENTRIES] (\<lambda>i.
     kbind (get_entry_of pt (of_nat i)) (\<lambda>e. kwhen (e \<noteq> PAGE_TABLE_ENTRY_DEFAULT)
       (let frame_addr = GET_ADDR_FROM_ENTRY e
        in kseq [lock_frame frame_addr, add_ref frame_addr 1, unlock_frame frame_addr]))))"

definition clone_page_table :: "u32 \<Rightarrow> (u32, 'a mstate_scheme) kop" where
  "clone_page_table pt =
     (if pt = 0 then kret 0
      else kbind create_page_table (\<lambda>new_pt.
        if new_pt = 0 then kret 0
        else kthen (kmodify (upd_mem (memcpy new_pt pt PAGE_SIZE)))
          (kthen (increment_ref_count new_pt) (kret new_pt))))"

text \<open>The part of \<^verbatim>\<open>free_page_table\<close> and \<^verbatim>\<open>unmap_new_pages\<close> that gives a frame back when its count is zero.\<close>

definition free_if_unused :: "u32 \<Rightarrow> (unit, 'a mstate_scheme) kop" where
  "free_if_unused frame_addr = kbind (get_ref frame_addr) (\<lambda>n. kwhen (n = 0) (deallocate_frame frame_addr))"

definition free_page_table :: "u32 \<Rightarrow> (unit, 'a mstate_scheme) kop" where
  "free_page_table pt = kwhen (pt \<noteq> 0) (kseq
     [kfor [0..<NUM_PAGE_TABLE_ENTRIES] (\<lambda>i.
        kbind (get_entry_of pt (of_nat i)) (\<lambda>e. kwhen (e \<noteq> PAGE_TABLE_ENTRY_DEFAULT)
          (let frame_addr = GET_ADDR_FROM_ENTRY e
           in kseq
             [lock_frame frame_addr, add_ref frame_addr (- 1),
              kbind (get_ref frame_addr) (\<lambda>n. kernel_assert (n \<ge> 0)),
              free_if_unused frame_addr, unlock_frame frame_addr]))),
      sfree pt PAGE_SIZE])"

definition free_paging_info :: "u32 \<Rightarrow> (unit, 'a mstate_scheme) kop" where
  "free_paging_info pd = kwhen (pd \<noteq> 0) (kseq
     [kfor [KERNEL_MAP_NUM_ENTRIES..<NUM_PAGE_TABLE_ENTRIES] (\<lambda>i.
        kbind (get_entry_of pd (of_nat i)) (\<lambda>e. kwhen (e \<noteq> PAGE_DIR_ENTRY_DEFAULT)
          (free_page_table (GET_ADDR_FROM_ENTRY e)))),
      free_page_directory pd])"

section \<open>Copy on write\<close>

definition make_pt_cow :: "u32 \<Rightarrow> (unit, 'a mstate_scheme) kop" where
  "make_pt_cow pt = kwhen (pt \<noteq> 0) (kfor [0..<NUM_PAGE_TABLE_ENTRIES] (\<lambda>i.
     kbind (get_entry_of pt (of_nat i)) (\<lambda>e. kwhen (e \<noteq> PAGE_TABLE_ENTRY_DEFAULT)
       (kwhen (GET_FLAGS_FROM_ENTRY e AND READ_WRITE_ENABLE \<noteq> 0)
         (set_entry pt (of_nat i) ((e OR COW_MODE) AND WRITE_DISABLE_MASK))))))"

definition make_pages_cow :: "u32 \<Rightarrow> (unit, 'a mstate_scheme) kop" where
  "make_pages_cow pd = kwhen (pd \<noteq> 0) (kfor [KERNEL_MAP_NUM_ENTRIES..<NUM_PAGE_TABLE_ENTRIES] (\<lambda>i.
     kbind (get_entry_of pd (of_nat i)) (\<lambda>e. kwhen (e \<noteq> PAGE_DIR_ENTRY_DEFAULT)
       (make_pt_cow (GET_ADDR_FROM_ENTRY e)))))"

definition clone_paging_info :: "u32 \<Rightarrow> (u32, 'a mstate_scheme) kop" where
  "clone_paging_info pd =
     (if pd = 0 then kret 0
      else kbind create_page_directory (\<lambda>new_pd.
        if new_pd = 0 then kret 0
        else kbind (kuntil [KERNEL_MAP_NUM_ENTRIES..<NUM_PAGE_TABLE_ENTRIES] (\<lambda>i.
            kbind (get_entry_of pd (of_nat i)) (\<lambda>e.
              if e \<noteq> PAGE_DIR_ENTRY_DEFAULT then
                kbind (clone_page_table (GET_ADDR_FROM_ENTRY e)) (\<lambda>new_pt.
                  if new_pt = 0 then kthen (free_paging_info new_pd) (kret (Some 0))
                  else kthen (set_entry new_pd (of_nat i) (new_pt OR GET_FLAGS_FROM_ENTRY e)) (kret None))
              else kret None)))
          (\<lambda>r. case r of
              Some x \<Rightarrow> kret x
            | None \<Rightarrow> kthen (make_pages_cow pd) (kthen (make_pages_cow new_pd) (kret new_pd)))))"

definition is_addr_cow :: "u32 \<Rightarrow> (int, 'a mstate_scheme) kop" where
  "is_addr_cow a =
     (if a < USER_MEM_START then kret 0
      else kbind (kgets cr3) (\<lambda>pd. kbind (table_of pd a) (\<lambda>pt.
        kbind (get_entry_of pt (GET_PT_INDEX a)) (\<lambda>e.
          if (e OR COW_MODE) \<noteq> 0 \<and> e AND READ_WRITE_ENABLE = 0 \<and> e AND PAGE_ENTRY_PRESENT \<noteq> 0
          then kret 1 else kret 0))))"

definition handle_cow :: "u32 \<Rightarrow> (int, 'a mstate_scheme) kop" where
  "handle_cow a = kbind (kgets cr3) (\<lambda>pd. kbind (table_of pd a) (\<lambda>pt.
     let pt_index = GET_PT_INDEX a; page_addr = page_of a;
         finish = (\<lambda>frame_addr. kthen (kseq
           [unlock_frame frame_addr,
            kbind (get_entry_of pt pt_index) (\<lambda>e. set_entry pt pt_index (e OR READ_WRITE_ENABLE)),
            kmodify (set_cur_pd pd)]) (kret 0))
     in kbind (get_entry_of pt pt_index) (\<lambda>e0.
       let frame_addr = GET_ADDR_FROM_ENTRY e0
       in kthen (lock_frame frame_addr) (kbind (get_ref frame_addr) (\<lambda>n.
         if n = 1 then
           kthen (kbind (get_entry_of pt pt_index) (\<lambda>e. set_entry pt pt_index (e AND COW_MODE_DISABLE_MASK)))
             (finish frame_addr)
         else kbind (page_read page_addr) (\<lambda>frame_contents. kbind allocate_frame (\<lambda>new_frame.
           if new_frame = 0 then kthen (unlock_frame frame_addr) (kret ERR_FAILURE)
           else kthen (kseq
             [kbind (get_entry_of pt pt_index) (\<lambda>e.
                set_entry pt pt_index (new_frame OR GET_FLAGS_FROM_ENTRY e)),
              kbind (get_entry_of pt pt_index) (\<lambda>e.
                set_entry pt pt_index (e AND COW_MODE_DISABLE_MASK)),
              kmodify (set_cur_pd pd),
              page_write page_addr (blit frame_contents),
              add_ref frame_addr (- 1),
              lock_frame new_frame, add_ref new_frame 1, unlock_frame new_frame])
             (finish frame_addr))))))))"

section \<open>Mapping segments\<close>

record simple_elf =
  e_fname :: "u8 list option"
  e_entry :: u32
  e_txtoff :: u32
  e_txtlen :: u32
  e_txtstart :: u32
  e_datoff :: u32
  e_datlen :: u32
  e_datstart :: u32
  e_rodatoff :: u32
  e_rodatlen :: u32
  e_rodatstart :: u32
  e_bsslen :: u32
  e_bssstart :: u32

definition zero_fill :: "u32 \<Rightarrow> u32 \<Rightarrow> (unit, 'a mstate_scheme) kop" where
  "zero_fill a n = kwhen (a \<noteq> 0) (page_write a (\<lambda>pa. memset pa 0 n))"

text \<open>One iteration of the loop of \<^verbatim>\<open>map_segment\<close>; a result ends the loop.\<close>

definition map_page :: "u32 \<Rightarrow> u32 \<Rightarrow> u32 \<Rightarrow> (int option, 'a mstate_scheme) kop" where
  "map_page pd_addr flags start_addr =
     (let pd_index = GET_PD_INDEX start_addr; pt_index = GET_PT_INDEX start_addr
      in kbind (get_entry_of pd_addr pd_index) (\<lambda>pde.
        kbind (if pde = PAGE_DIR_ENTRY_DEFAULT then kbind create_page_table (\<lambda>new_pt.
                 if new_pt \<noteq> 0 then kthen (set_entry pd_addr pd_index (new_pt OR USER_PD_ENTRY_FLAGS)) (kret None)
                 else kret (Some ERR_NOMEM))
               else kret None) (\<lambda>r. case r of
            Some e \<Rightarrow> kret (Some e)
          | None \<Rightarrow> kbind (table_of pd_addr start_addr) (\<lambda>pt_addr.
              kbind (get_entry_of pt_addr pt_index) (\<lambda>pte.
                if pte = PAGE_TABLE_ENTRY_DEFAULT then kbind allocate_frame (\<lambda>new_frame.
                  if new_frame \<noteq> 0 then kthen (kseq
                    [lock_frame new_frame, add_ref new_frame 1, unlock_frame new_frame,
                     set_entry pt_addr pt_index (new_frame OR flags),
                     zero_fill start_addr PAGE_SIZE]) (kret None)
                  else kret (Some ERR_NOMEM))
                else kret None)))))"

definition map_segment :: "u32 \<Rightarrow> u32 \<Rightarrow> u32 \<Rightarrow> u32 \<Rightarrow> (int, 'a mstate_scheme) kop" where
  "map_segment start_addr len pd_addr flags = kthen (kmodify (set_cur_pd pd_addr))
     (let end_addr = start_addr + len
      in kbind (kwhile (\<lambda>(a, r) s. r = None \<and> a < end_addr)
           (\<lambda>(a, _). kbind (map_page pd_addr flags a) (\<lambda>r. kret (a + PAGE_SIZE, r)))
           (page_of start_addr, None))
         (\<lambda>(_, r). kret (case r of None \<Rightarrow> 0 | Some e \<Rightarrow> e)))"

definition map_text_segment :: "simple_elf \<Rightarrow> u32 \<Rightarrow> (int, 'a mstate_scheme) kop" where
  "map_text_segment se_hdr pd_addr =
     map_segment (e_txtstart se_hdr) (e_txtlen se_hdr) pd_addr (PAGE_ENTRY_PRESENT OR USER_MODE)"

definition map_data_segment :: "simple_elf \<Rightarrow> u32 \<Rightarrow> (int, 'a mstate_scheme) kop" where
  "map_data_segment se_hdr pd_addr = map_segment (e_datstart se_hdr) (e_datlen se_hdr) pd_addr
     (PAGE_ENTRY_PRESENT OR READ_WRITE_ENABLE OR USER_MODE)"

definition map_rodata_segment :: "simple_elf \<Rightarrow> u32 \<Rightarrow> (int, 'a mstate_scheme) kop" where
  "map_rodata_segment se_hdr pd_addr =
     map_segment (e_rodatstart se_hdr) (e_rodatlen se_hdr) pd_addr (PAGE_ENTRY_PRESENT OR USER_MODE)"

definition map_bss_segment :: "simple_elf \<Rightarrow> u32 \<Rightarrow> (int, 'a mstate_scheme) kop" where
  "map_bss_segment se_hdr pd_addr = map_segment (e_bssstart se_hdr) (e_bsslen se_hdr) pd_addr
     (PAGE_ENTRY_PRESENT OR READ_WRITE_ENABLE OR USER_MODE)"

definition map_stack_segment :: "u32 \<Rightarrow> (int, 'a mstate_scheme) kop" where
  "map_stack_segment pd_addr = map_segment (STACK_START - DEFAULT_STACK_SIZE + 1) DEFAULT_STACK_SIZE pd_addr
     (PAGE_ENTRY_PRESENT OR READ_WRITE_ENABLE OR USER_MODE)"

definition setup_page_table :: "simple_elf option \<Rightarrow> u32 \<Rightarrow> (int, 'a mstate_scheme) kop" where
  "setup_page_table se_hdr pd_addr = (case se_hdr of
      None \<Rightarrow> kret ERR_FAILURE
    | Some h \<Rightarrow> if pd_addr = 0 then kret ERR_FAILURE
        else kcheck (map_text_segment h pd_addr) (kcheck (map_data_segment h pd_addr)
          (kcheck (map_rodata_segment h pd_addr) (kcheck (map_bss_segment h pd_addr)
            (kcheck (map_stack_segment pd_addr) (kret 0))))))"

section \<open>New pages\<close>

definition map_new_pages :: "u32 \<Rightarrow> u32 \<Rightarrow> (int, 'a mstate_scheme) kop" where
  "map_new_pages base len = kbind (kgets cr3) (\<lambda>pd_addr.
     let end_addr = base + len - 1; end_frame = page_of end_addr;
         flags = PAGE_ENTRY_PRESENT OR READ_WRITE_ENABLE OR USER_MODE OR NEWPAGE_PAGE
     in kcheck (map_segment base len pd_addr flags)
       (kthen (kseq
         [kbind (table_of pd_addr end_frame) (\<lambda>pt_addr. kbind (get_entry_of pt_addr (GET_PT_INDEX end_frame)) (\<lambda>e.
            set_entry pt_addr (GET_PT_INDEX end_frame) (SET_NEWPAGE_END e))),
          kbind (table_of pd_addr base) (\<lambda>pt_addr. kbind (get_entry_of pt_addr (GET_PT_INDEX base)) (\<lambda>e.
            set_entry pt_addr (GET_PT_INDEX base) (SET_NEWPAGE_START e))),
          kmodify (set_cur_pd pd_addr)]) (kret 0)))"

text \<open>What \<^verbatim>\<open>unmap_new_pages\<close> does with one page.\<close>

definition unmap_page :: "u32 \<Rightarrow> u32 \<Rightarrow> (unit, 'a mstate_scheme) kop" where
  "unmap_page pd_addr base = kbind (table_of pd_addr base) (\<lambda>pt_addr.
     kbind (get_entry_of pt_addr (GET_PT_INDEX base)) (\<lambda>e.
       let frame_addr = GET_ADDR_FROM_ENTRY e
       in kseq
         [lock_frame frame_addr, add_ref frame_addr (- 1), free_if_unused frame_addr,
          unlock_frame frame_addr,
          set_entry pt_addr (GET_PT_INDEX base) PAGE_TABLE_ENTRY_DEFAULT]))"

definition newpage_flags :: "u32 \<Rightarrow> u32 \<Rightarrow> 'a mstate_scheme \<Rightarrow> u32" where
  "newpage_flags pd_addr base s = GET_NEWPAGE_FLAGS (entry (mem s)
     (GET_ADDR_FROM_ENTRY (entry (mem s) pd_addr (GET_PD_INDEX base))) (GET_PT_INDEX base))"

definition unmap_new_pages :: "u32 \<Rightarrow> (int, 'a mstate_scheme) kop" where
  "unmap_new_pages base = kbind (kgets cr3) (\<lambda>pd_addr. kbind (kgets (newpage_flags pd_addr base)) (\<lambda>fl.
     if fl \<noteq> NEWPAGE_START then kret ERR_INVAL
     else kthen (unmap_page pd_addr base)
       (kbind (kwhile (\<lambda>b s. newpage_flags pd_addr b s = NEWPAGE_PAGE \<or> newpage_flags pd_addr b s = NEWPAGE_END)
          (\<lambda>b. kthen (unmap_page pd_addr b) (kret (b + PAGE_SIZE))) (base + PAGE_SIZE))
         (\<lambda>_. kthen (kmodify (set_cur_pd pd_addr)) (kret 0)))))"

section \<open>Checks on user pointers\<close>

definition page_mapped :: "'a mstate_scheme \<Rightarrow> u32 \<Rightarrow> u32 \<Rightarrow> bool" where
  "page_mapped s pd a =
     (let pde = entry (mem s) pd (GET_PD_INDEX a)
      in pde \<noteq> PAGE_DIR_ENTRY_DEFAULT \<and>
         entry (mem s) (GET_ADDR_FROM_ENTRY pde) (GET_PT_INDEX a) \<noteq> PAGE_TABLE_ENTRY_DEFAULT)"

partial_function (option) mapped_loop :: "'a mstate_scheme \<Rightarrow> u32 \<Rightarrow> u32 \<Rightarrow> u32 \<Rightarrow> int option" where
  "mapped_loop s pd end_addr base =
     (if base \<le> end_addr then
        if page_mapped s pd base then Some MEMORY_REGION_MAPPED
        else mapped_loop s pd end_addr (base + PAGE_SIZE)
      else Some MEMORY_REGION_UNMAPPED)"

definition is_memory_range_mapped :: "u32 \<Rightarrow> int \<Rightarrow> (int, 'a mstate_scheme) kop" where
  "is_memory_range_mapped base len =
     (if base = 0 \<or> base > MAX_MEMORY_ADDR \<or> len \<le> 0 \<or> word_of_int len > MAX_AVAILABLE_USER_MEM
      then kret ERR_INVAL
      else if base < USER_MEM_START then kret MEMORY_REGION_MAPPED
      else kloop (\<lambda>s. map_option (\<lambda>r. (r, s))
        (mapped_loop s (cr3 s) (base + word_of_int len) (page_of base))))"

definition is_memory_writable :: "u32 \<Rightarrow> int \<Rightarrow> (int, 'a mstate_scheme) kop" where
  "is_memory_writable ptr bytes = kbind (kgets cr3) (\<lambda>pd_addr.
     kbind (get_entry_of pd_addr (GET_PD_INDEX ptr)) (\<lambda>pde.
       if pde \<noteq> PAGE_DIR_ENTRY_DEFAULT then
         kbind (get_entry_of (GET_ADDR_FROM_ENTRY pde) (GET_PT_INDEX ptr)) (\<lambda>pte.
           if pte \<noteq> PAGE_TABLE_ENTRY_DEFAULT \<and> pte AND READ_WRITE_ENABLE \<noteq> 0 then kret 0
           else kret ERR_INVAL)
       else kret ERR_INVAL))"

section \<open>Initialisation\<close>

definition setup_direct_map :: "(unit, 'a mstate_scheme) kop" where
  "setup_direct_map = kfor [0..<KERNEL_MAP_NUM_ENTRIES] (\<lambda>i.
     kbind create_page_table (\<lambda>frame_addr. kseq
       [kernel_assert (frame_addr \<noteq> 0),
        kfor [0..<NUM_PAGE_TABLE_ENTRIES] (\<lambda>j.
          set_entry frame_addr (of_nat j)
            (of_nat (i * NUM_PAGE_TABLE_ENTRIES + j) * PAGE_SIZE OR
              (PAGE_ENTRY_PRESENT OR READ_WRITE_ENABLE OR GLOBAL_PAGE_ENTRY))),
        kmodify (\<lambda>s. s\<lparr>direct_map := (direct_map s)(i := frame_addr)\<rparr>)]))"

definition setup_kernel_pd :: "(unit, 'a mstate_scheme) kop" where
  "setup_kernel_pd = kseq
     [kbind create_page_directory (\<lambda>pd. kseq
        [kmodify (\<lambda>s. s\<lparr>kernel_pd := pd\<rparr>), kernel_assert (pd \<noteq> 0)]),
      kbind (smalloc PAGE_SIZE) (\<lambda>p. kseq
        [kmodify (\<lambda>s. s\<lparr>dead_thr_kernel_stack := p\<rparr>), kernel_assert (p \<noteq> 0)])]"

definition init_frame_ref_count :: "(unit, 'a mstate_scheme) kop" where
  "init_frame_ref_count = kbind (kgets (\<lambda>s. FREE_FRAMES_COUNT s * 4)) (\<lambda>sz.
     kbind (smalloc sz) (\<lambda>p. kseq
       [kernel_assert (p \<noteq> 0), kmodify (\<lambda>s. s\<lparr>frame_ref_count := (\<lambda>_. 0)\<rparr>)]))"

definition vm_init :: "(unit, 'a mstate_scheme) kop" where
  "vm_init = kseq
     [setup_direct_map, setup_kernel_pd, set_kernel_pd, enable_paging, init_frame_ref_count,
      enable_page_pinning]"

end
