(* ===== verification/Thread.thy ===== *)
theory Thread
  imports Vm
begin

text \<open>
  Thread creation, the map from thread ids to threads and the sleep queue: \<^verbatim>\<open>kern/core/thread.c\<close>,
  \<^verbatim>\<open>kern/core/sleep.c\<close>, \<^verbatim>\<open>init_scheduler\<close> of \<^verbatim>\<open>kern/core/scheduler.c\<close> and the tick handling of
  \<^verbatim>\<open>kern/drivers/timer/timer.c\<close>.
\<close>

section \<open>The thread map\<close>

abbreviation (input) KERNEL_STACK_SIZE :: u32 where "KERNEL_STACK_SIZE \<equiv> PAGE_SIZE * 3"
definition HASHMAP_SIZE :: nat where "HASHMAP_SIZE = 8192"

text \<open>
  \<^verbatim>\<open>sizeof(thread_struct_t)\<close>: id and parent, the kernel stack at offset 8, four words, six links,
  the wake time, a mutex of 12 and a condition variable of 24 bytes.
\<close>

definition sizeof_thread :: u32 where
  "sizeof_thread = 8 + KERNEL_STACK_SIZE + 16 + 6 * 8 + 4 + 12 + 24"

definition k_stack :: "addr \<Rightarrow> u32" where
  "k_stack t = t + 8"

abbreviation tid_mutex :: "mutex_ptr option" where "tid_mutex \<equiv> Some (Tid_mutex, 0)"
abbreviation map_mutex :: "mutex_ptr option" where "map_mutex \<equiv> Some (Map_mutex, 0)"

text \<open>The remainder of C takes the sign of the dividend.\<close>

definition crem :: "int \<Rightarrow> int \<Rightarrow> int" where
  "crem a b = (if a < 0 then - ((- a) mod b) else a mod b)"

definition bucket :: "int \<Rightarrow> link" where
  "bucket tid = (Thread_map, word_of_int (crem tid (int HASHMAP_SIZE)))"

definition upd_thread :: "addr \<Rightarrow> (thread_struct \<Rightarrow> thread_struct) \<Rightarrow> 'a kstate_scheme \<Rightarrow> 'a kstate_scheme" where
  "upd_thread t f s = s\<lparr>threads := (threads s)(t := f (threads s t))\<rparr>"

definition upd_task :: "addr \<Rightarrow> (task_struct \<Rightarrow> task_struct) \<Rightarrow> 'a kstate_scheme \<Rightarrow> 'a kstate_scheme" where
  "upd_task t f s = s\<lparr>tasks := (tasks s)(t := f (tasks s t))\<rparr>"

definition ignore_int :: "(int, 's) kop \<Rightarrow> (unit, 's) kop" where
  "ignore_int m = kbind m (\<lambda>_. kret ())"

lemmas ignore_int_kop [kop_defs] = ignore_int_def

definition init_thread_map :: "(unit, 'a mstate_scheme) kop" where
  "init_thread_map = kseq
     [kfor [0..<HASHMAP_SIZE] (\<lambda>i. kmodify (upd_links (init_head (Thread_map, of_nat i)))),
      ignore_int (mutex_init map_mutex)]"

definition kernel_threads_init :: "(unit, 'a mstate_scheme) kop" where
  "kernel_threads_init = kseq
     [kmodify (\<lambda>s. s\<lparr>next_tid := 0\<rparr>), ignore_int (mutex_init tid_mutex), init_thread_map]"

definition add_thread_to_map :: "addr \<Rightarrow> (unit, 'a mstate_scheme) kop" where
  "add_thread_to_map t = kbind (kgets (\<lambda>s. bucket (thr_id (threads s t)))) (\<lambda>b. kseq
     [mutex_lock map_mutex, kmodify (upd_links (add_to_tail (Thread_map_link, t) b)),
      mutex_unlock map_mutex])"

definition create_thread :: "addr \<Rightarrow> (addr, 'a mstate_scheme) kop" where
  "create_thread task =
     (if task = 0 then kret 0
      else kbind (smalloc sizeof_thread) (\<lambda>t.
        if t = 0 then kret 0
        else kthen (kseq
          [mutex_lock tid_mutex,
           kmodify (\<lambda>s. s\<lparr>next_tid := next_tid s + 1\<rparr>),
           kmodify (\<lambda>s. upd_thread t (\<lambda>th. th\<lparr>thr_id := next_tid s\<rparr>) s),
           kmodify (upd_links (add_to_tail (Task_thread_link, t) (Thread_head, task))),
           mutex_unlock tid_mutex,
           add_thread_to_map t,
           ignore_int (mutex_init (Some (Deschedule_mutex, t))),
           ignore_int (cond_init (Some (Deschedule_cond, t))),
           kmodify (upd_thread t (\<lambda>th. th\<lparr>parent_task := task, k_stack_base := k_stack t + KERNEL_STACK_SIZE,
             cur_esp := k_stack t + KERNEL_STACK_SIZE, cur_ebp := k_stack t + KERNEL_STACK_SIZE,
             status := RUNNABLE\<rparr>))]) (kret t)))"

definition lookup_bucket :: "int \<Rightarrow> (link option, 'a mstate_scheme) kop" where
  "lookup_bucket tid = (\<lambda>s. case walk (links s) (\<lambda>n. thr_id (threads s (get_entry n)) = tid) (bucket tid) of
      None \<Rightarrow> Diverges
    | Some r \<Rightarrow> Ok r s)"

definition get_thread_from_id :: "int \<Rightarrow> (addr, 'a mstate_scheme) kop" where
  "get_thread_from_id tid = kthen (mutex_lock map_mutex)
     (kbind (lookup_bucket tid) (\<lambda>r. kthen (mutex_unlock map_mutex)
       (kret (case r of None \<Rightarrow> 0 | Some n \<Rightarrow> get_entry n))))"

definition remove_thread_from_map :: "int \<Rightarrow> (unit, 'a mstate_scheme) kop" where
  "remove_thread_from_map tid = kthen (mutex_lock map_mutex)
     (kbind (lookup_bucket tid) (\<lambda>r. kthen
       (case r of None \<Rightarrow> kret () | Some n \<Rightarrow> kmodify (upd_links (del_entry n)))
       (mutex_unlock map_mutex)))"

section \<open>Sleeping\<close>

abbreviation sleep_list_mutex :: "mutex_ptr option" where
  "sleep_list_mutex \<equiv> Some (Sleep_list_mutex, 0)"

definition init_sleeping_threads :: "(unit, 'a mstate_scheme) kop" where
  "init_sleeping_threads = kseq
     [ignore_int (mutex_init sleep_list_mutex),
      kbind (smalloc 8) (\<lambda>p. kseq
        [kmodify (\<lambda>s. s\<lparr>sleeping_threads := (if p = 0 then None else Some sleeping_head)\<rparr>),
         kernel_assert (p \<noteq> 0)]),
      kmodify (upd_links (init_head sleeping_head))]"

definition init_scheduler :: "(unit, 'a mstate_scheme) kop" where
  "init_scheduler = kseq [kmodify (upd_links (init_head runnable_threads)), init_sleeping_threads]"

text \<open>The thread goes in front of the first one that wakes up later, or to the end.\<close>

definition sleep_insert :: "addr \<Rightarrow> link \<Rightarrow> (unit, 'a mstate_scheme) kop" where
  "sleep_insert t temp_head = (\<lambda>s.
     case walk (links s) (\<lambda>e. wake_time (threads s (get_entry e)) > wake_time (threads s t)) temp_head of
      None \<Rightarrow> Diverges
    | Some None \<Rightarrow> Ok () (upd_links (add_to_tail (Sleepq_link, t) temp_head) s)
    | Some (Some e) \<Rightarrow> Ok () (upd_links (\<lambda>h. add_to_list (Sleepq_link, t) (prv h e) e h) s))"

definition schedule_sleep :: "int \<Rightarrow> (unit, 'a mstate_scheme) kop" where
  "schedule_sleep ticks = kbind (kgets get_curr_thread) (\<lambda>t. kbind (kgets total_ticks) (\<lambda>now.
     let curr_ticks = sint now; wake = sint (now + word_of_int ticks)
     in if wake < curr_ticks then kret ()
        else kseq
          [kmodify (upd_thread t (\<lambda>th. th\<lparr>wake_time := wake\<rparr>)),
           mutex_lock sleep_list_mutex,
           kbind (kgets sleeping_threads) (\<lambda>temp_head. kseq
             [kmodify (\<lambda>s. s\<lparr>sleeping_threads := None\<rparr>),
              sleep_insert t (case temp_head of None \<Rightarrow> null_list | Some q \<Rightarrow> q),
              mutex_unlock sleep_list_mutex,
              kmodify disable_interrupts,
              kmodify (\<lambda>s. s\<lparr>sleeping_threads := temp_head\<rparr>)]),
           kmodify (set_status t WAITING),
           kswitch context_switch]))"

definition do_sleep :: "int \<Rightarrow> (int, 'a mstate_scheme) kop" where
  "do_sleep ticks =
     (if ticks = 0 then kret 0
      else if ticks < 0 then kret ERR_INVAL
      else kthen (schedule_sleep ticks) (kret 0))"

section \<open>The thread map implements a partial map\<close>

text \<open>
  \<open>thread_map s B\<close> says that bucket \<open>i\<close> holds the threads \<open>B i\<close>, each in the bucket of its id, with
  distinct ids; \<open>tids s B\<close> is the map from ids to threads that the buckets represent.
\<close>

definition slot :: "int \<Rightarrow> nat" where
  "slot tid = nat (tid mod int HASHMAP_SIZE)"

definition thread_map :: "'a kstate_scheme \<Rightarrow> (nat \<Rightarrow> addr list) \<Rightarrow> bool" where
  "thread_map s B \<longleftrightarrow> (\<forall>i < HASHMAP_SIZE. ring_of (links s) (Thread_map, of_nat i) (B i) \<and>
     distinct (map (\<lambda>t. thr_id (threads s t)) (B i)) \<and>
     (\<forall>t \<in> set (B i). 0 \<le> thr_id (threads s t) \<and> slot (thr_id (threads s t)) = i))"

definition tids :: "'a kstate_scheme \<Rightarrow> (nat \<Rightarrow> addr list) \<Rightarrow> int \<Rightarrow> addr option" where
  "tids s B tid = (if tid < 0 then None else find (\<lambda>t. thr_id (threads s t) = tid) (B (slot tid)))"

definition put_thread :: "'a kstate_scheme \<Rightarrow> addr \<Rightarrow> (nat \<Rightarrow> addr list) \<Rightarrow> nat \<Rightarrow> addr list" where
  "put_thread s t B = (let i = slot (thr_id (threads s t)) in B(i := B i @ [t]))"

definition drop_thread :: "'a kstate_scheme \<Rightarrow> int \<Rightarrow> (nat \<Rightarrow> addr list) \<Rightarrow> nat \<Rightarrow> addr list" where
  "drop_thread s tid B = B(slot tid := filter (\<lambda>t. thr_id (threads s t) \<noteq> tid) (B (slot tid)))"

lemma slot_less: "slot tid < HASHMAP_SIZE"
  by (simp add: slot_def HASHMAP_SIZE_def nat_less_iff)

lemma bucket_slot: "0 \<le> tid \<Longrightarrow> bucket tid = (Thread_map, of_nat (slot tid))"
  by (simp add: bucket_def slot_def crem_def HASHMAP_SIZE_def of_nat_nat [symmetric] del: of_nat_nat)

lemma slot_inj: "i < HASHMAP_SIZE \<Longrightarrow> j < HASHMAP_SIZE \<Longrightarrow> (of_nat i :: u32) = of_nat j \<Longrightarrow> i = j"
  by (simp add: HASHMAP_SIZE_def of_nat_eq_iff word_unat_eq_iff unat_of_nat)

lemma upd_links_fields [simp]:
  "links (upd_links f s) = f (links s)" "mutex_value (upd_links f s) = mutex_value s"
  "threads (upd_links f s) = threads s" "tasks (upd_links f s) = tasks s"
  "curr_thread (upd_links f s) = curr_thread s" "cond_status (upd_links f s) = cond_status s"
  "mutex_enable (upd_links f s) = mutex_enable s" "sleeping_threads (upd_links f s) = sleeping_threads s"
  by (simp_all add: upd_links_def)

lemma released_upd_links:
  assumes "mutex_free m s"
  shows "released m (upd_links f (acquired m s)) = upd_links f (settled s)"
proof -
  have "(mutex_value s)(m := 0, m := 1) = mutex_value s" using assms by (simp add: mutex_free_def fun_upd_idem)
  then show ?thesis by (simp add: acquired_eq released_eq settled_def upd_links_def)
qed

lemma find_map: "find P (map f xs) = map_option f (find (P \<circ> f) xs)"
  by (induction xs) auto

lemma lookup_bucket_find:
  assumes "thread_map s B" "0 \<le> tid"
  shows "lookup_bucket tid s = Ok (map_option (\<lambda>t. (Thread_map_link, t)) (tids s B tid)) s"
proof -
  have "ring_of (links s) (bucket tid) (B (slot tid))"
    using assms slot_less bucket_slot by (simp add: thread_map_def)
  then have "walk (links s) P (bucket tid) =
      Some (map_option (\<lambda>t. (Thread_map_link, t)) (find (P \<circ> (\<lambda>t. (Thread_map_link, t))) (B (slot tid))))" for P
    using walk_find [of "links s" "bucket tid" "map (link_of (bucket tid)) (B (slot tid))" P]
    by (simp add: ring_of_def find_map bucket_def)
  then show ?thesis using assms(2) by (simp add: lookup_bucket_def tids_def get_entry_def comp_def)
qed

lemma thread_map_cong:
  "thread_map s B \<Longrightarrow> links s' = links s \<Longrightarrow> threads s' = threads s \<Longrightarrow> thread_map s' B"
  by (simp add: thread_map_def)

lemma tids_cong: "threads s' = threads s \<Longrightarrow> tids s' B = tids s B"
  by (simp add: tids_def fun_eq_iff)

lemma thread_map_other:
  assumes "thread_map s B" "i < HASHMAP_SIZE" "i \<noteq> slot (thr_id (threads s t))"
  shows "t \<notin> set (B i)"
  using assms by (auto simp: thread_map_def)

lemma buckets_disjoint:
  assumes "thread_map s B" "i < HASHMAP_SIZE" "j < HASHMAP_SIZE" "i \<noteq> j"
  shows "set (B i) \<inter> set (B j) = {}"
proof -
  have "slot (thr_id (threads s t)) = k" if "t \<in> set (B k)" "k < HASHMAP_SIZE" for t k
    using assms(1) that by (simp add: thread_map_def)
  then show ?thesis using assms(2-4) by blast
qed

lemma thread_map_upd:
  assumes "thread_map s B" "ring_of l (Thread_map, of_nat i) ts"
    and "\<And>j. j < HASHMAP_SIZE \<Longrightarrow> j \<noteq> i \<Longrightarrow> ring_of l (Thread_map, of_nat j) (B j)"
    and "distinct (map (\<lambda>t. thr_id (threads s t)) ts)"
    and "\<And>t. t \<in> set ts \<Longrightarrow> 0 \<le> thr_id (threads s t) \<and> slot (thr_id (threads s t)) = i" "B' = B(i := ts)"
  shows "thread_map (s\<lparr>links := l\<rparr>) B'"
  unfolding thread_map_def
proof (intro allI impI)
  fix j assume "j < HASHMAP_SIZE"
  then show "ring_of (links (s\<lparr>links := l\<rparr>)) (Thread_map, of_nat j) (B' j) \<and>
      distinct (map (\<lambda>t. thr_id (threads (s\<lparr>links := l\<rparr>) t)) (B' j)) \<and>
      (\<forall>t \<in> set (B' j). 0 \<le> thr_id (threads (s\<lparr>links := l\<rparr>) t) \<and> slot (thr_id (threads (s\<lparr>links := l\<rparr>) t)) = j)"
    using assms by (cases "j = i") (simp_all add: thread_map_def)
qed

lemma thread_map_put:
  assumes m: "thread_map s B" and id: "0 \<le> thr_id (threads s t)" and new: "tids s B (thr_id (threads s t)) = None"
  defines "l \<equiv> add_to_tail (Thread_map_link, t) (bucket (thr_id (threads s t))) (links s)"
  shows "thread_map (s\<lparr>links := l\<rparr>) (put_thread s t B)" "keeps_rings {Thread_map_link} (links s) l"
proof -
  let ?i = "slot (thr_id (threads s t))"
  have b: "bucket (thr_id (threads s t)) = (Thread_map, of_nat ?i)" using id by (rule bucket_slot)
  have q: "ring_of (links s) (Thread_map, of_nat ?i) (B ?i)" using m slot_less by (simp add: thread_map_def)
  have n: "\<forall>u \<in> set (B ?i). thr_id (threads s u) \<noteq> thr_id (threads s t)"
    using new id by (auto simp: tids_def find_None_iff)
  have i: "ring_of l (Thread_map, of_nat ?i) (B ?i @ [t])"
    using ring_of_add [OF q, of t] n by (auto simp: l_def b)
  have "ring_of l (Thread_map, of_nat j) (B j)" if j: "j < HASHMAP_SIZE" "j \<noteq> ?i" for j
  proof -
    have r: "ring_of (links s) (Thread_map, of_nat j) (B j)" using m j by (simp add: thread_map_def)
    have "(of_nat ?i :: u32) \<noteq> of_nat j" using slot_inj [OF slot_less j(1)] j(2) by auto
    moreover have "set (B ?i) \<inter> set (B j) = {}" using buckets_disjoint [OF m slot_less j(1)] j(2) by simp
    ultimately show ?thesis
      using ring_of_add_frame [OF q r, of t] thread_map_other [OF m j] by (simp add: l_def b)
  qed
  moreover have "distinct (map (\<lambda>t. thr_id (threads s t)) (B ?i @ [t]))"
    using m slot_less n by (auto simp: thread_map_def)
  ultimately show "thread_map (s\<lparr>links := l\<rparr>) (put_thread s t B)"
    by (intro thread_map_upd [OF m i]) (use m id slot_less in \<open>auto simp: put_thread_def Let_def thread_map_def\<close>)
  show "keeps_rings {Thread_map_link} (links s) l" using keeps_rings_add [OF q, of t] by (simp add: l_def b)
qed

lemma filter_unique:
  assumes "distinct (map f (as @ x # bs))"
  shows "filter (\<lambda>y. f y \<noteq> f x) (as @ x # bs) = as @ bs"
proof -
  have "filter (\<lambda>y. f y \<noteq> f x) as = as" "filter (\<lambda>y. f y \<noteq> f x) bs = bs"
    using assms by (auto simp: filter_id_conv) (metis image_eqI)+
  then show ?thesis by simp
qed

lemma thread_map_drop:
  assumes m: "thread_map s B" and found: "tids s B tid = Some t"
  defines "l \<equiv> del_entry (Thread_map_link, t) (links s)"
  shows "thread_map (s\<lparr>links := l\<rparr>) (drop_thread s tid B)" "keeps_rings {Thread_map_link} (links s) l"
proof -
  let ?i = "slot tid"
  have q: "ring_of (links s) (Thread_map, of_nat ?i) (B ?i)" and d: "distinct (map (\<lambda>t. thr_id (threads s t)) (B ?i))"
    using m slot_less by (simp_all add: thread_map_def)
  have t: "thr_id (threads s t) = tid" "t \<in> set (B ?i)"
    using found by (auto simp: tids_def find_Some_iff split: if_splits)
  then obtain as bs where B: "B ?i = as @ t # bs" by (auto dest: split_list)
  have f: "filter (\<lambda>t. thr_id (threads s t) \<noteq> tid) (B ?i) = as @ bs"
    using filter_unique [of "\<lambda>t. thr_id (threads s t)" as t bs] d t by (simp add: B)
  have i: "ring_of l (Thread_map, of_nat ?i) (as @ bs)"
    using ring_of_del [OF q [unfolded B]] by (simp add: l_def)
  have "ring_of l (Thread_map, of_nat j) (B j)" if j: "j < HASHMAP_SIZE" "j \<noteq> ?i" for j
  proof -
    have r: "ring_of (links s) (Thread_map, of_nat j) (B j)" using m j by (simp add: thread_map_def)
    have "(of_nat ?i :: u32) \<noteq> of_nat j" using slot_inj [OF slot_less j(1)] j(2) by auto
    moreover have "set (as @ t # bs) \<inter> set (B j) = {}" using buckets_disjoint [OF m slot_less j(1)] j(2) B by metis
    ultimately show ?thesis using ring_of_del_frame [OF q [unfolded B] r] by (simp add: l_def)
  qed
  moreover have "distinct (map (\<lambda>t. thr_id (threads s t)) (as @ bs))" using d B by simp
  moreover have "0 \<le> thr_id (threads s u) \<and> slot (thr_id (threads s u)) = ?i" if "u \<in> set (as @ bs)" for u
    using m slot_less [of tid] B that by (simp add: thread_map_def)
  ultimately show "thread_map (s\<lparr>links := l\<rparr>) (drop_thread s tid B)"
    by (intro thread_map_upd [OF m i]) (simp_all add: drop_thread_def f)
  show "keeps_rings {Thread_map_link} (links s) l" using keeps_rings_del [OF q [unfolded B]] by (simp add: l_def)
qed

lemma tids_put:
  assumes "0 \<le> thr_id (threads s t)" "tids s B (thr_id (threads s t)) = None"
  shows "tids s (put_thread s t B) = (tids s B)(thr_id (threads s t) \<mapsto> t)"
proof
  fix tid
  have a: "find P (xs @ [t]) = (case find P xs of Some y \<Rightarrow> Some y | None \<Rightarrow> if P t then Some t else None)" for P and xs :: "addr list"
    by (induction xs) auto
  show "tids s (put_thread s t B) tid = ((tids s B)(thr_id (threads s t) \<mapsto> t)) tid"
    using assms by (auto simp: tids_def put_thread_def Let_def a split: option.split)
qed

lemma tids_drop: "tids s (drop_thread s tid B) = (tids s B)(tid := None)"
proof
  fix u
  have "find (\<lambda>t. thr_id (threads s t) = u) (filter (\<lambda>t. thr_id (threads s t) \<noteq> tid) xs) =
      (if u = tid then None else find (\<lambda>t. thr_id (threads s t) = u) xs)" for xs
    by (induction xs) auto
  then show "tids s (drop_thread s tid B) u = ((tids s B)(tid := None)) u"
    by (auto simp: tids_def drop_thread_def)
qed

text \<open>What the locked operations do when nobody else holds the map.\<close>

lemma get_thread_from_id_effect:
  assumes "mutex_free (Map_mutex, 0) s" "thread_map s B" "0 \<le> tid"
  shows "get_thread_from_id tid s = Ok (case tids s B tid of None \<Rightarrow> 0 | Some t \<Rightarrow> t) (settled s)"
proof -
  let ?s = "acquired (Map_mutex, 0) s"
  have t: "threads ?s = threads s" "links ?s = links s" by (simp_all add: acquired_eq)
  have "lookup_bucket tid ?s = Ok (map_option (\<lambda>t. (Thread_map_link, t)) (tids s B tid)) ?s"
    using lookup_bucket_find [of ?s B tid] thread_map_cong [OF assms(2) t(2,1)] tids_cong [OF t(1)] assms(3) by simp
  then show ?thesis
    using assms(1) t
    by (auto simp: get_thread_from_id_def kop_defs mutex_lock_free mutex_unlock_held mutex_free_def released_acquired
        get_entry_def split: option.split)
qed

lemma locked_links:
  assumes "mutex_free m s" "keeps_rings N (links s) (f (links s))" "Mutex_link \<notin> N"
  shows "mutex_unlock (Some m) (upd_links f (acquired m s)) = Ok () (upd_links f (settled s))"
    "mutex_free m (upd_links f (settled s))"
proof -
  have "ring_of (f (links s)) (waiting_of_mutex m) []"
    using assms by (intro keeps_ringsD [OF assms(2)]) (simp_all add: mutex_free_def)
  then show "mutex_unlock (Some m) (upd_links f (acquired m s)) = Ok () (upd_links f (settled s))"
    "mutex_free m (upd_links f (settled s))"
    using assms(1) by (simp_all add: mutex_unlock_held released_upd_links) (simp add: mutex_free_def)
qed

lemma add_thread_to_map_effect:
  assumes "mutex_free (Map_mutex, 0) s" "thread_map s B" "0 \<le> thr_id (threads s t)" "tids s B (thr_id (threads s t)) = None"
  defines "s' \<equiv> upd_links (add_to_tail (Thread_map_link, t) (bucket (thr_id (threads s t)))) (settled s)"
  shows "add_thread_to_map t s = Ok () s'" "mutex_free (Map_mutex, 0) s'" "thread_map s' (put_thread s t B)"
proof -
  note put = thread_map_put [OF assms(2-4)]
  note u = locked_links [where f = "add_to_tail (Thread_map_link, t) (bucket (thr_id (threads s t)))", OF assms(1) put(2)]
  show "add_thread_to_map t s = Ok () s'"
    using assms(1) u(1) by (simp add: add_thread_to_map_def kop_defs mutex_lock_free s'_def)
  show "mutex_free (Map_mutex, 0) s'" using u(2) by (simp add: s'_def)
  show "thread_map s' (put_thread s t B)"
    by (rule thread_map_cong [OF put(1)]) (simp_all add: s'_def upd_links_def)
qed

lemma remove_thread_from_map_effect:
  assumes "mutex_free (Map_mutex, 0) s" "thread_map s B" "0 \<le> tid"
  defines "s' \<equiv> (case tids s B tid of None \<Rightarrow> settled s
     | Some t \<Rightarrow> upd_links (del_entry (Thread_map_link, t)) (settled s))"
  shows "remove_thread_from_map tid s = Ok () s'" "mutex_free (Map_mutex, 0) s'" "thread_map s' (drop_thread s tid B)"
proof -
  let ?s = "acquired (Map_mutex, 0) s"
  have t: "threads ?s = threads s" "links ?s = links s" by (simp_all add: acquired_eq)
  have l: "lookup_bucket tid ?s = Ok (map_option (\<lambda>t. (Thread_map_link, t)) (tids s B tid)) ?s"
    using lookup_bucket_find [of ?s B tid] thread_map_cong [OF assms(2) t(2,1)] tids_cong [OF t(1)] assms(3) by simp
  have "remove_thread_from_map tid s = Ok () s' \<and> mutex_free (Map_mutex, 0) s' \<and> thread_map s' (drop_thread s tid B)"
  proof (cases "tids s B tid")
    case None
    then have "drop_thread s tid B = B"
      using assms(3) by (auto simp: drop_thread_def tids_def find_None_iff fun_eq_iff)
    then show ?thesis
      using l None assms(1,2) by (simp add: remove_thread_from_map_def kop_defs mutex_lock_free mutex_unlock_held
          mutex_free_def released_acquired s'_def thread_map_cong [OF assms(2)])
  next
    case (Some t)
    note drop = thread_map_drop [OF assms(2) Some]
    note u = locked_links [where f = "del_entry (Thread_map_link, t)", OF assms(1) drop(2)]
    have "thread_map s' (drop_thread s tid B)"
      by (rule thread_map_cong [OF drop(1)]) (simp_all add: s'_def Some upd_links_def)
    then show ?thesis
      using l Some assms(1) u by (simp add: remove_thread_from_map_def kop_defs mutex_lock_free s'_def)
  qed
  then show "remove_thread_from_map tid s = Ok () s'" "mutex_free (Map_mutex, 0) s'" "thread_map s' (drop_thread s tid B)"
    by simp_all
qed

section \<open>The sleep queue is sorted\<close>

lemma ring_of_insert_before:
  assumes r: "ring_of h q (xs @ y # ys)" and new: "x \<notin> set (xs @ y # ys)"
  defines "h' \<equiv> add_to_list (link_of q x) (prv h (link_of q y)) (link_of q y) h"
  shows "ring_of h' q (xs @ x # y # ys)" "keeps_rings {member_link (fst q)} h h'"
proof -
  let ?l = "map (link_of q)"
  have d: "dlist h q (?l xs @ link_of q y # ?l ys)" using r by (simp add: ring_of_def)
  have p: "prv h (link_of q y) = last (q # ?l xs)" by (rule dlist_neighbours(1) [OF d])
  have x: "link_of q x \<noteq> q" using r link_of_neq_head by (simp add: ring_of_def)
  have "link_of q x \<notin> set (q # ?l xs @ link_of q y # ?l ys)" using new x by auto
  then have "dlist h' q (?l xs @ link_of q x # link_of q y # ?l ys)"
    using dlist_insert_before [OF d] by (simp add: h'_def p)
  then show "ring_of h' q (xs @ x # y # ys)" using r by (simp add: ring_of_def)
  show "keeps_rings {member_link (fst q)} h h'"
    unfolding keeps_rings_def
  proof (intro allI impI)
    fix r' zs assume r': "ring_of h r' zs" "member_link (fst r') \<notin> {member_link (fst q)}"
    have "r' \<noteq> q" using r'(2) by auto
    then have disj: "set (q # ?l (xs @ y # ys)) \<inter> set (r' # map (link_of r') zs) = {}"
      using r r' by (intro ring_nodes_disjoint) (auto simp: ring_of_def)
    have "last (q # ?l xs) \<in> set (q # ?l xs)" by (rule last_in_set) simp
    moreover have "link_of q x \<noteq> r'" using r'(1) link_of_neq_head by (simp add: ring_of_def)
    ultimately have "dlist h' r' (map (link_of r') zs)"
      unfolding h'_def p by (intro add_to_list_frame) (use r' disj in \<open>auto simp: ring_of_def\<close>)
    then show "ring_of h' r' zs" using r'(1) by (simp add: ring_of_def)
  qed
qed

definition wake :: "'a kstate_scheme \<Rightarrow> addr \<Rightarrow> int" where
  "wake s t = wake_time (threads s t)"

definition sleep_order :: "'a kstate_scheme \<Rightarrow> addr \<Rightarrow> addr list \<Rightarrow> addr list" where
  "sleep_order s t sq = takeWhile (\<lambda>u. wake s u \<le> wake s t) sq @ t # dropWhile (\<lambda>u. wake s u \<le> wake s t) sq"

lemma sleep_order_sorted:
  assumes "sorted (map (wake s) sq)"
  shows "sorted (map (wake s) (sleep_order s t sq))"
  using assms
proof (induction sq)
  case Nil
  then show ?case by (simp add: sleep_order_def)
next
  case (Cons u sq)
  show ?case
  proof (cases "wake s u \<le> wake s t")
    case True
    then have "sleep_order s t (u # sq) = u # sleep_order s t sq" by (simp add: sleep_order_def)
    moreover have "set (sleep_order s t sq) = insert t (set sq)"
      unfolding sleep_order_def by (metis Un_insert_right list.simps(15) set_append takeWhile_dropWhile_id)
    ultimately show ?thesis using Cons True by auto
  next
    case False
    then show ?thesis using Cons by (auto simp: sleep_order_def)
  qed
qed

lemma sleep_order_set: "set (sleep_order s t sq) = insert t (set sq)"
  unfolding sleep_order_def by (metis Un_insert_right list.simps(15) set_append takeWhile_dropWhile_id)

lemma find_dropWhile: "find P xs = (case dropWhile (\<lambda>x. \<not> P x) xs of [] \<Rightarrow> None | x # _ \<Rightarrow> Some x)"
  by (induction xs) auto

lemma sleep_insert_effect:
  assumes r: "ring_of (links s) sleeping_head sq" and "t \<notin> set sq"
  shows "\<exists>f. sleep_insert t sleeping_head s = Ok () (upd_links f s) \<and>
    ring_of (f (links s)) sleeping_head (sleep_order s t sq) \<and> keeps_rings {Sleepq_link} (links s) (f (links s))"
proof -
  let ?P = "\<lambda>u. wake s u \<le> wake s t" and ?l = "\<lambda>t. (Sleepq_link, t)"
  have d: "dlist (links s) sleeping_head (map ?l sq)" using r by (simp add: ring_of_def)
  have w: "walk (links s) (\<lambda>e. wake_time (threads s (get_entry e)) > wake_time (threads s t)) sleeping_head =
      Some (map_option ?l (find (\<lambda>u. \<not> ?P u) sq))"
    using walk_find [OF d] by (simp add: find_map comp_def get_entry_def wake_def not_le)
  have sq: "sq = takeWhile ?P sq @ dropWhile ?P sq" by simp
  show ?thesis
  proof (cases "dropWhile ?P sq")
    case Nil
    then have "sleep_order s t sq = sq @ [t]" using sq by (simp add: sleep_order_def)
    moreover have "find (\<lambda>u. \<not> ?P u) sq = None" using Nil by (auto simp: find_None_iff)
    ultimately show ?thesis
      using w ring_of_add [OF r, of t] keeps_rings_add [OF r, of t] assms(2)
      by (intro exI [of _ "add_to_tail (?l t) sleeping_head"]) (simp add: sleep_insert_def)
  next
    case (Cons u us)
    let ?f = "\<lambda>h. add_to_list (?l t) (prv h (?l u)) (?l u) h"
    have s: "sq = takeWhile ?P sq @ u # us" using sq Cons by simp
    have "find (\<lambda>u. \<not> ?P u) sq = Some u" using Cons by (simp add: find_dropWhile)
    then have "sleep_insert t sleeping_head s = Ok () (upd_links ?f s)" using w by (simp add: sleep_insert_def)
    moreover have "ring_of (links s) sleeping_head (takeWhile ?P sq @ u # us)" "t \<notin> set (takeWhile ?P sq @ u # us)"
      using r assms(2) s by (metis, metis)
    note ring_of_insert_before [OF this]
    moreover have "sleep_order s t sq = takeWhile ?P sq @ t # u # us" by (simp add: sleep_order_def Cons)
    ultimately show ?thesis by (intro exI [of _ ?f]) simp
  qed
qed

lemma released_fields [simp]:
  "links (released m s) = links s" "threads (released m s) = threads s" "tasks (released m s) = tasks s"
  "curr_thread (released m s) = curr_thread s" "sleeping_threads (released m s) = sleeping_threads s"
  "idle_task (released m s) = idle_task s" "mutex_value (released m s) = (mutex_value s)(m := 1)"
  "mutex_enable (released m s) = mutex_enable s" "tick_counter (released m s) = tick_counter s"
  by (simp_all add: released_eq settled_def)

lemma acquired_kfields [simp]:
  "threads (acquired m s) = threads s" "tasks (acquired m s) = tasks s"
  "curr_thread (acquired m s) = curr_thread s" "sleeping_threads (acquired m s) = sleeping_threads s"
  "idle_task (acquired m s) = idle_task s" "mutex_value (acquired m s) = (mutex_value s)(m := 0)"
  "mutex_enable (acquired m s) = mutex_enable s" "tick_counter (acquired m s) = tick_counter s"
  by (simp_all add: acquired_eq settled_def)

lemma upd_thread_fields [simp]:
  "links (upd_thread t f s) = links s" "tasks (upd_thread t f s) = tasks s"
  "curr_thread (upd_thread t f s) = curr_thread s" "sleeping_threads (upd_thread t f s) = sleeping_threads s"
  "idle_task (upd_thread t f s) = idle_task s" "mutex_value (upd_thread t f s) = mutex_value s"
  "mutex_enable (upd_thread t f s) = mutex_enable s" "tick_counter (upd_thread t f s) = tick_counter s"
  "threads (upd_thread t f s) = (threads s)(t := f (threads s t))"
  by (simp_all add: upd_thread_def)

text \<open>The state in which a thread goes to sleep.\<close>

definition goes_to_sleep :: "int \<Rightarrow> 'a kstate_scheme \<Rightarrow> 'a kstate_scheme \<Rightarrow> bool" where
  "goes_to_sleep w s s1 \<longleftrightarrow> (\<exists>f. s1 = set_status (curr_thread s) WAITING
     ((disable_interrupts (released (Sleep_list_mutex, 0)
        (upd_links f ((acquired (Sleep_list_mutex, 0) (upd_thread (curr_thread s) (\<lambda>th. th\<lparr>wake_time := w\<rparr>) s))
           \<lparr>sleeping_threads := None\<rparr>))))\<lparr>sleeping_threads := Some sleeping_head\<rparr>) \<and>
     keeps_rings {Sleepq_link} (links s) (f (links s)))"

lemma schedule_sleep_effect:
  assumes free: "mutex_free (Sleep_list_mutex, 0) s" and q: "sleepq s sq" and new: "curr_thread s \<notin> set sq"
    and w: "w = sint (tick_counter s + word_of_int ticks)" "sint (tick_counter s) \<le> w"
  shows "\<exists>s1. schedule_sleep ticks s = Blocked (context_switch s1) (Ok ()) \<and> goes_to_sleep w s s1 \<and>
    sleepq s1 (sleep_order s1 (curr_thread s) sq)"
proof -
  let ?t = "curr_thread s" and ?m = "(Sleep_list_mutex, 0 :: addr)"
  let ?s0 = "upd_thread ?t (\<lambda>th. th\<lparr>wake_time := w\<rparr>) s"
  let ?s1 = "(acquired ?m ?s0)\<lparr>sleeping_threads := None\<rparr>"
  have q': "sleeping_threads s = Some sleeping_head" "ring_of (links ?s1) sleeping_head sq"
    using q by (simp_all add: sleepq_def)
  from sleep_insert_effect [OF q'(2) new] obtain f where
    f: "sleep_insert ?t sleeping_head ?s1 = Ok () (upd_links f ?s1)"
      "ring_of (f (links s)) sleeping_head (sleep_order ?s1 ?t sq)" "keeps_rings {Sleepq_link} (links s) (f (links s))"
    by auto
  have m: "mutex_free ?m ?s0" using free by (simp add: mutex_free_def)
  have r: "ring_of (f (links s)) (waiting_of_mutex ?m) []"
    using free by (intro keeps_ringsD [OF f(3)]) (simp_all add: mutex_free_def)
  define s2 where "s2 = set_status ?t WAITING
     ((disable_interrupts (released ?m (upd_links f ?s1)))\<lparr>sleeping_threads := Some sleeping_head\<rparr>)"
  have "schedule_sleep ticks s = Blocked (context_switch s2) (Ok ())"
    using w q'(1) f(1) r m
    by (simp add: schedule_sleep_def kop_defs get_curr_thread_def total_ticks_def Let_def mutex_lock_free
        mutex_unlock_held s2_def)
  moreover have "sleep_order s2 ?t sq = sleep_order ?s1 ?t sq"
    by (simp add: sleep_order_def wake_def s2_def)
  ultimately show ?thesis
    using f(2,3) by (intro exI [of _ s2]) (auto simp: goes_to_sleep_def sleepq_def s2_def)
qed

section \<open>The properties\<close>

definition idle_machine :: mstate where
  "idle_machine = sample_machine\<lparr>links := links blank_state, threads := threads blank_state\<rparr>"

lemma idle_machine_ring: "is_head (fst q) \<Longrightarrow> ring_of (links idle_machine) q []"
  by (simp add: idle_machine_def ring_of_def dlist_def blank_state_def)

lemma idle_machine_mutex: "mutex_free m idle_machine"
  using idle_machine_ring [of "waiting_of_mutex m"] by (simp add: mutex_free_def idle_machine_def)

lemma idle_machine_map: "thread_map idle_machine (\<lambda>_. [])"
  using idle_machine_ring by (simp add: thread_map_def)

lemma idle_machine_id [simp]: "thr_id (threads idle_machine t) = uint t"
  by (simp add: idle_machine_def blank_state_def)

text \<open>
  C15: The hash map of \<^verbatim>\<open>thread.c\<close> implements a partial map from thread ids to threads.
  \<^verbatim>\<open>get_thread_from_id\<close> returns the thread with the given id, or NULL when there is none;
  \<^verbatim>\<open>add_thread_to_map\<close> adds exactly one entry and \<^verbatim>\<open>remove_thread_from_map\<close> removes exactly one.
  All three searches terminate.
\<close>

theorem thread_map_refines_map:
  assumes free: "mutex_free (Map_mutex, 0) s" and m: "thread_map s B" and id: "0 \<le> tid"
    and t: "0 \<le> thr_id (threads s t)" "tids s B (thr_id (threads s t)) = None"
  shows "get_thread_from_id tid s = Ok (case tids s B tid of None \<Rightarrow> 0 | Some t \<Rightarrow> t) (settled s) \<and>
    (\<exists>s' B'. add_thread_to_map t s = Ok () s' \<and> mutex_free (Map_mutex, 0) s' \<and> thread_map s' B' \<and>
       tids s' B' = (tids s B)(thr_id (threads s t) \<mapsto> t)) \<and>
    (\<exists>s' B'. remove_thread_from_map tid s = Ok () s' \<and> mutex_free (Map_mutex, 0) s' \<and> thread_map s' B' \<and>
       tids s' B' = (tids s B)(tid := None))"
proof (intro conjI)
  show "get_thread_from_id tid s = Ok (case tids s B tid of None \<Rightarrow> 0 | Some t \<Rightarrow> t) (settled s)"
    by (rule get_thread_from_id_effect [OF free m id])
  have "threads (upd_links f (settled s)) = threads s" for f by simp
  from tids_cong [OF this] show "\<exists>s' B'. add_thread_to_map t s = Ok () s' \<and> mutex_free (Map_mutex, 0) s' \<and> thread_map s' B' \<and>
       tids s' B' = (tids s B)(thr_id (threads s t) \<mapsto> t)"
    using add_thread_to_map_effect [OF free m t] tids_put [OF t] by metis
  have "threads (case tids s B tid of None \<Rightarrow> settled s
     | Some t \<Rightarrow> upd_links (del_entry (Thread_map_link, t)) (settled s)) = threads s"
    by (simp split: option.split)
  from tids_cong [OF this] show "\<exists>s' B'. remove_thread_from_map tid s = Ok () s' \<and> mutex_free (Map_mutex, 0) s' \<and> thread_map s' B' \<and>
       tids s' B' = (tids s B)(tid := None)"
    using remove_thread_from_map_effect [OF free m id] tids_drop [of s tid B] by metis
qed

theorem thread_map_refines_map_witness:
  "\<exists>s' B'. add_thread_to_map 7 idle_machine = Ok () s' \<and> thread_map s' B' \<and> tids s' B' 7 = Some 7"
proof -
  have "tids idle_machine (\<lambda>_. []) 7 = None" by (simp add: tids_def)
  then show ?thesis
    using thread_map_refines_map [OF idle_machine_mutex idle_machine_map, of 0 7] by fastforce
qed

text \<open>
  C16: \<^verbatim>\<open>sleep\<close>.  A thread that sleeps for a positive number of ticks is put into the sleep queue
  behind all threads that wake up no later than it does, the queue stays sorted by wake-up time and
  complete, the thread is WAITING with its wake-up time set, interrupts are off when the processor is
  given away, the run queue and all other lists are as before, and the call returns 0 when the
  thread is switched to again.
\<close>

theorem do_sleep_keeps_queue_sorted:
  assumes free: "mutex_free (Sleep_list_mutex, 0) s" and q: "sleepq s sq" and new: "curr_thread s \<notin> set sq"
    and sorted: "sorted (map (wake s) sq)"
    and ticks: "0 < ticks" "sint (tick_counter s) \<le> sint (tick_counter s + word_of_int ticks)"
  shows "\<exists>s1. do_sleep ticks s = Blocked (context_switch s1) (Ok 0) \<and>
    sleepq s1 (sleep_order s1 (curr_thread s) sq) \<and> sorted (map (wake s1) (sleep_order s1 (curr_thread s) sq)) \<and>
    wake s1 (curr_thread s) = sint (tick_counter s + word_of_int ticks) \<and>
    status (threads s1 (curr_thread s)) = WAITING \<and> \<not> int_flag s1 \<and>
    keeps_rings {Sleepq_link} (links s) (links s1) \<and> mutex_value s1 (Sleep_list_mutex, 0) = 1"
proof -
  let ?w = "sint (tick_counter s + word_of_int ticks)"
  from schedule_sleep_effect [OF free q new refl ticks(2)] obtain s1 where
    e: "schedule_sleep ticks s = Blocked (context_switch s1) (Ok ())" and g: "goes_to_sleep ?w s s1"
    and sq: "sleepq s1 (sleep_order s1 (curr_thread s) sq)" by blast
  have "do_sleep ticks s = Blocked (context_switch s1) (Ok 0)"
    using ticks(1) e by (simp add: do_sleep_def kop_defs)
  moreover have w: "wake s1 u = (if u = curr_thread s then ?w else wake s u)" for u
    using g by (auto simp: goes_to_sleep_def wake_def)
  moreover have "map (wake s1) sq = map (wake s) sq" using new by (auto simp: w)
  with sorted have "sorted (map (wake s1) (sleep_order s1 (curr_thread s) sq))"
    by (intro sleep_order_sorted) (simp only:)
  ultimately show ?thesis using sq g by (intro exI [of _ s1]) (auto simp: goes_to_sleep_def)
qed

theorem do_sleep_keeps_queue_sorted_witness:
  "\<exists>s1. do_sleep 5 (idle_machine\<lparr>sleeping_threads := Some sleeping_head\<rparr>) = Blocked (context_switch s1) (Ok 0) \<and>
     sleepq s1 [0x10]"
  using do_sleep_keeps_queue_sorted [of "idle_machine\<lparr>sleeping_threads := Some sleeping_head\<rparr>" "[]" 5]
    idle_machine_mutex [of "(Sleep_list_mutex, 0)"] idle_machine_ring [of sleeping_head]
  by (auto simp: sleepq_def mutex_free_def idle_machine_def sleep_order_def sample_machine_def kstate.defs
      sample_state_def upd_links_def runq_add_thread_def runq_add_thread_interruptible_def state_defs blank_state_def)

end
