(* ===== verification/User_Memory.thy ===== *)
theory User_Memory
  imports Thread
begin

text \<open>
  Access to user memory and the helpers of the system calls, \<^verbatim>\<open>kern/syscalls/syscall_util.c\<close>, with
  the register block of \<^verbatim>\<open>spec/ureg.h\<close>.

  An access of the kernel below 16 MB goes through the direct map, so its address is a physical
  address; any other access is translated through the current page directory, and faults if the
  page is not present.
\<close>

section \<open>Bytes and words at virtual addresses\<close>

definition vaddr :: "'a mstate_scheme \<Rightarrow> u32 \<Rightarrow> u32 option" where
  "vaddr s a = (if a < USER_MEM_START then Some a else translate s a)"

definition vload8 :: "u32 \<Rightarrow> (u8, 'a mstate_scheme) kop" where
  "vload8 a = (\<lambda>s. case vaddr s a of None \<Rightarrow> Page_fault a s | Some pa \<Rightarrow> Ok (mem s pa) s)"

definition vstore8 :: "u32 \<Rightarrow> u8 \<Rightarrow> (unit, 'a mstate_scheme) kop" where
  "vstore8 a v = (\<lambda>s. case vaddr s a of
      None \<Rightarrow> Page_fault a s
    | Some pa \<Rightarrow> Ok () (upd_mem (\<lambda>m. m(pa := v)) s))"

definition vload32 :: "u32 \<Rightarrow> (u32, 'a mstate_scheme) kop" where
  "vload32 a = kbind (vload8 a) (\<lambda>b0. kbind (vload8 (a + 1)) (\<lambda>b1. kbind (vload8 (a + 2)) (\<lambda>b2.
     kbind (vload8 (a + 3)) (\<lambda>b3.
       kret (ucast b0 OR push_bit 8 (ucast b1) OR push_bit 16 (ucast b2) OR push_bit 24 (ucast b3))))))"

definition vstore_bytes :: "u32 \<Rightarrow> u8 list \<Rightarrow> (unit, 'a mstate_scheme) kop" where
  "vstore_bytes a bs = kfor [0..<length bs] (\<lambda>i. vstore8 (a + of_nat i) (bs ! i))"

definition word_bytes :: "u32 \<Rightarrow> u8 list" where
  "word_bytes v = [ucast v, ucast (drop_bit 8 v), ucast (drop_bit 16 v), ucast (drop_bit 24 v)]"

definition vstore32 :: "u32 \<Rightarrow> u32 \<Rightarrow> (unit, 'a mstate_scheme) kop" where
  "vstore32 a v = vstore_bytes a (word_bytes v)"

definition vmemcpy :: "u32 \<Rightarrow> u32 \<Rightarrow> nat \<Rightarrow> (unit, 'a mstate_scheme) kop" where
  "vmemcpy dst src n = kfor [0..<n] (\<lambda>i. kbind (vload8 (src + of_nat i)) (vstore8 (dst + of_nat i)))"

definition vmemset :: "u32 \<Rightarrow> u8 \<Rightarrow> nat \<Rightarrow> (unit, 'a mstate_scheme) kop" where
  "vmemset dst c n = kfor [0..<n] (\<lambda>i. vstore8 (dst + of_nat i) c)"

text \<open>
  A buffer of \<open>n\<close> bytes in user space: its bytes are at the physical addresses \<open>pa\<close>, and they stay there
  while the buffer and the addresses \<open>K\<close> are written, because neither overlaps the page tables.
\<close>

definition writable_buffer :: "'a mstate_scheme \<Rightarrow> u32 set \<Rightarrow> u32 \<Rightarrow> nat \<Rightarrow> (nat \<Rightarrow> u32) \<Rightarrow> bool" where
  "writable_buffer s K buf n pa \<longleftrightarrow> inj_on pa {..<n} \<and> (\<forall>i<n. pa i \<notin> K) \<and>
     (\<forall>m' i. i < n \<longrightarrow> (\<forall>a. a \<notin> K \<longrightarrow> a \<notin> pa ` {..<n} \<longrightarrow> m' a = mem s a) \<longrightarrow>
       vaddr (s\<lparr>mem := m'\<rparr>) (buf + of_nat i) = Some (pa i))"

lemma vaddr_cong: "mem s = mem t \<Longrightarrow> cr3 s = cr3 t \<Longrightarrow> vaddr s a = vaddr t a"
  by (simp add: vaddr_def translate_def Let_def)

lemma writable_buffer_vaddr:
  assumes "writable_buffer s0 K buf n pa" "i < n" "cr3 s = cr3 s0" "\<And>a. a \<notin> K \<Longrightarrow> a \<notin> pa ` {..<n} \<Longrightarrow> mem s a = mem s0 a"
  shows "vaddr s (buf + of_nat i) = Some (pa i)"
proof -
  have "\<forall>m' i. i < n \<longrightarrow> (\<forall>a. a \<notin> K \<longrightarrow> a \<notin> pa ` {..<n} \<longrightarrow> m' a = mem s0 a) \<longrightarrow>
      vaddr (s0\<lparr>mem := m'\<rparr>) (buf + of_nat i) = Some (pa i)"
    using assms(1) unfolding writable_buffer_def by (elim conjE)
  then have "vaddr (s0\<lparr>mem := mem s\<rparr>) (buf + of_nat i) = Some (pa i)" using assms(2,4) by simp
  then show ?thesis using vaddr_cong [of s "s0\<lparr>mem := mem s\<rparr>"] assms(3) by simp
qed

text \<open>The bytes of a buffer that were stored from offset \<open>off\<close> on.\<close>

fun stored :: "(nat \<Rightarrow> u32) \<Rightarrow> nat \<Rightarrow> u8 list \<Rightarrow> memory \<Rightarrow> memory" where
  "stored pa off [] m = m"
| "stored pa off (b # bs) m = stored pa (Suc off) bs (m(pa off := b))"

lemma stored_other: "a \<notin> pa ` {off..<off + length bs} \<Longrightarrow> stored pa off bs m a = m a"
proof (induction bs arbitrary: off m)
  case (Cons b bs)
  have "a \<noteq> pa off" "a \<notin> pa ` {Suc off..<Suc off + length bs}" using Cons.prems by auto
  then show ?case using Cons.IH [of "Suc off"] by simp
qed simp

lemma stored_nth:
  assumes "inj_on pa {..<n}"
  shows "off + length bs \<le> n \<Longrightarrow> off \<le> j \<Longrightarrow> j < off + length bs \<Longrightarrow> stored pa off bs m (pa j) = bs ! (j - off)"
proof (induction bs arbitrary: off m)
  case (Cons b bs)
  show ?case
  proof (cases "j = off")
    case True
    have "pa off \<notin> pa ` {Suc off..<Suc off + length bs}"
      using Cons.prems(1) by (auto dest!: inj_onD [OF assms])
    then show ?thesis using True stored_other [of "pa off" pa "Suc off" bs] by simp
  next
    case False
    then have "j - off = Suc (j - Suc off)" using Cons.prems by simp
    moreover have "stored pa (Suc off) bs (m(pa off := b)) (pa j) = bs ! (j - Suc off)"
      by (rule Cons.IH) (use Cons.prems False in auto)
    ultimately show ?thesis by simp
  qed
qed simp

lemma kfor_map: "kfor (map g xs) f = kfor xs (f \<circ> g)"
  by (induction xs) simp_all

lemma vstore_bytes_Cons: "vstore_bytes a (b # bs) = kbind (vstore8 a b) (\<lambda>_. vstore_bytes (a + 1) bs)"
proof -
  have "[0..<length (b # bs)] = 0 # map Suc [0..<length bs]" by (simp add: map_Suc_upt upt_conv_Cons del: upt_Suc)
  then show ?thesis by (simp add: vstore_bytes_def kfor_map comp_def add.assoc del: upt_Suc)
qed

lemma vstore_bytes_stored:
  assumes "writable_buffer s0 K buf n pa"
  shows "off + length bs \<le> n \<Longrightarrow> cr3 s = cr3 s0 \<Longrightarrow> (\<And>a. a \<notin> K \<Longrightarrow> a \<notin> pa ` {..<n} \<Longrightarrow> mem s a = mem s0 a) \<Longrightarrow>
    vstore_bytes (buf + of_nat off) bs s = Ok () (upd_mem (stored pa off bs) s)"
proof (induction bs arbitrary: off s)
  case Nil
  then show ?case by (simp add: vstore_bytes_def kop_defs upd_mem_def)
next
  case (Cons b bs)
  let ?t = "upd_mem (\<lambda>m. m(pa off := b)) s"
  have v: "vaddr s (buf + of_nat off) = Some (pa off)"
    by (rule writable_buffer_vaddr [OF assms]) (use Cons.prems in auto)
  have "vstore_bytes (buf + of_nat (Suc off)) bs ?t = Ok () (upd_mem (stored pa (Suc off) bs) ?t)"
    by (rule Cons.IH) (use Cons.prems in \<open>auto simp: upd_mem_def\<close>)
  then show ?case
    using v by (simp add: vstore_bytes_Cons vstore8_def kop_defs upd_mem_def algebra_simps)
qed

text \<open>A word that was stored is read back.\<close>

lemma word_bytes_nth [simp]: "length (word_bytes w) = 4"
  by (simp add: word_bytes_def)

lemma vload32_stored:
  assumes "\<And>j. j < 4 \<Longrightarrow> vaddr s (a + of_nat j) = Some (p j) \<and> mem s (p j) = word_bytes w ! j"
  shows "vload32 a s = Ok w s"
proof -
  have v: "vaddr s a = Some (p 0)" "vaddr s (a + 1) = Some (p 1)" "vaddr s (a + 2) = Some (p 2)" "vaddr s (a + 3) = Some (p 3)"
    using assms [of 0] assms [of 1] assms [of 2] assms [of 3] by simp_all
  have "mem s (p 0) = ucast w" "mem s (p 1) = ucast (drop_bit 8 w)" "mem s (p 2) = ucast (drop_bit 16 w)" "mem s (p 3) = ucast (drop_bit 24 w)"
    using assms [of 0] assms [of 1] assms [of 2] assms [of 3] by (simp_all add: word_bytes_def)
  moreover have "ucast (ucast w :: u8) OR push_bit 8 (ucast (ucast (drop_bit 8 w) :: u8)) OR
      push_bit 16 (ucast (ucast (drop_bit 16 w) :: u8)) OR push_bit 24 (ucast (ucast (drop_bit 24 w) :: u8)) = w"
    using load32_store32 [of 0 w "\<lambda>_. 0"] by (simp add: load32_def store32_def)
  ultimately show ?thesis using v by (simp add: vload32_def vload8_def kop_defs)
qed

section \<open>Checking and copying user pointers\<close>

definition is_pointer_valid :: "u32 \<Rightarrow> int \<Rightarrow> (int, 'a mstate_scheme) kop" where
  "is_pointer_valid ptr bytes =
     (if ptr < USER_MEM_START then kret ERR_INVAL
      else kbind (is_memory_range_mapped ptr bytes) (\<lambda>r.
        if r = MEMORY_REGION_UNMAPPED then kret ERR_INVAL else kret 0))"

text \<open>The loop of \<^verbatim>\<open>copy_user_data\<close>; \<open>n\<close> bytes of the limit are left after \<open>count\<close> have been copied.\<close>

fun copy_loop :: "nat \<Rightarrow> u32 \<Rightarrow> u32 \<Rightarrow> int \<Rightarrow> (int, 'a mstate_scheme) kop" where
  "copy_loop 0 buf ptr count = kret ERR_BIG"
| "copy_loop (Suc n) buf ptr count =
     kbind (is_pointer_valid (ptr + word_of_int count) 1) (\<lambda>r.
       if r < 0 then kret ERR_INVAL
       else kbind (vload8 (ptr + word_of_int count)) (\<lambda>b.
         kthen (vstore8 (buf + word_of_int count) b)
           (if b = 0 then kret (count + 1) else copy_loop n buf ptr (count + 1))))"

definition copy_user_data :: "u32 \<Rightarrow> u32 \<Rightarrow> int \<Rightarrow> (int, 'a mstate_scheme) kop" where
  "copy_user_data buf ptr max_size =
     (if buf = 0 \<or> ptr = 0 \<or> max_size \<le> 0 then kret ERR_INVAL
      else copy_loop (nat max_size) buf ptr 0)"

section \<open>Register blocks\<close>

record ureg =
  ur_cause :: u32
  ur_cr2 :: u32
  ur_ds :: u32
  ur_es :: u32
  ur_fs :: u32
  ur_gs :: u32
  ur_edi :: u32
  ur_esi :: u32
  ur_ebp :: u32
  ur_zero :: u32
  ur_ebx :: u32
  ur_edx :: u32
  ur_ecx :: u32
  ur_eax :: u32
  ur_error_code :: u32
  ur_eip :: u32
  ur_cs :: u32
  ur_eflags :: u32
  ur_esp :: u32
  ur_ss :: u32

abbreviation (input) SEGSEL_USER_CS :: u32 where "SEGSEL_USER_CS \<equiv> 0x23"
abbreviation (input) SEGSEL_USER_DS :: u32 where "SEGSEL_USER_DS \<equiv> 0x2B"
abbreviation (input) EFLAGS_IOPL :: u32 where "EFLAGS_IOPL \<equiv> 0x3000"
abbreviation (input) EFLAGS_IF :: u32 where "EFLAGS_IF \<equiv> 0x200"

text \<open>The words of a register block in the order of the structure.\<close>

definition ureg_words :: "ureg \<Rightarrow> u32 list" where
  "ureg_words u =
     [ur_cause u, ur_cr2 u, ur_ds u, ur_es u, ur_fs u, ur_gs u, ur_edi u, ur_esi u, ur_ebp u, ur_zero u,
      ur_ebx u, ur_edx u, ur_ecx u, ur_eax u, ur_error_code u, ur_eip u, ur_cs u, ur_eflags u, ur_esp u, ur_ss u]"

definition words_ureg :: "u32 list \<Rightarrow> ureg" where
  "words_ureg ws = \<lparr>ur_cause = ws ! 0, ur_cr2 = ws ! 1, ur_ds = ws ! 2, ur_es = ws ! 3, ur_fs = ws ! 4,
     ur_gs = ws ! 5, ur_edi = ws ! 6, ur_esi = ws ! 7, ur_ebp = ws ! 8, ur_zero = ws ! 9, ur_ebx = ws ! 10,
     ur_edx = ws ! 11, ur_ecx = ws ! 12, ur_eax = ws ! 13, ur_error_code = ws ! 14, ur_eip = ws ! 15,
     ur_cs = ws ! 16, ur_eflags = ws ! 17, ur_esp = ws ! 18, ur_ss = ws ! 19\<rparr>"

definition validate_uregs :: "ureg \<Rightarrow> int" where
  "validate_uregs uregs =
     (if ur_eflags uregs AND EFLAGS_IOPL = EFLAGS_IOPL then ERR_INVAL
      else if ur_eflags uregs AND EFLAGS_IF \<noteq> EFLAGS_IF then ERR_INVAL
      else 0)"

text \<open>\<open>below base k\<close> is the address of \<^verbatim>\<open>*((int *)(base) - k)\<close>.\<close>

definition below :: "u32 \<Rightarrow> u32 \<Rightarrow> u32" where
  "below base k = base - 4 * k"

definition setup_kernel_stack :: "ureg \<Rightarrow> u32 \<Rightarrow> (int, 'a mstate_scheme) kop" where
  "setup_kernel_stack u base =
     (if validate_uregs u < 0 then kret (validate_uregs u)
      else kthen (kseq
        [poke (below base 1) (ur_ds u), poke (below base 2) (ur_esp u), poke (below base 3) (ur_eflags u),
         poke (below base 4) (ur_cs u), poke (below base 5) (ur_eip u),
         poke (below base 6) (ur_ecx u), poke (below base 7) (ur_eax u), poke (below base 8) (ur_edx u),
         poke (below base 9) (ur_ebx u), poke (below base 11) (ur_ebp u), poke (below base 12) (ur_edi u),
         poke (below base 13) (ur_esi u)]) (kret 0))"

abbreviation (input) ERR_CODE_AVAIL :: u32 where "ERR_CODE_AVAIL \<equiv> 1"
abbreviation (input) ERR_CODE_ABSENT :: u32 where "ERR_CODE_ABSENT \<equiv> 0"

text \<open>\<^verbatim>\<open>populate_ureg\<close> fills in all fields but \<^verbatim>\<open>cause\<close> and \<^verbatim>\<open>cr2\<close>, which stay as they are in \<open>u\<close>.\<close>

definition populate_ureg :: "ureg \<Rightarrow> u32 \<Rightarrow> addr \<Rightarrow> 'a mstate_scheme \<Rightarrow> ureg" where
  "populate_ureg u err_code_avail t s =
     (let base = k_stack_base (threads s t); w = (\<lambda>k. load32 (mem s) (below base k))
      in u\<lparr>ur_ds := SEGSEL_USER_DS, ur_es := SEGSEL_USER_DS, ur_fs := SEGSEL_USER_DS, ur_gs := SEGSEL_USER_DS,
           ur_eax := w (6 + err_code_avail), ur_ecx := w (7 + err_code_avail), ur_edx := w (8 + err_code_avail),
           ur_ebx := w (9 + err_code_avail), ur_zero := 0, ur_ebp := w (11 + err_code_avail),
           ur_esi := w (12 + err_code_avail), ur_edi := w (13 + err_code_avail),
           ur_error_code := (if err_code_avail = ERR_CODE_AVAIL then w 6 else 0),
           ur_eip := w 5, ur_cs := w 4, ur_eflags := w 3, ur_esp := w 2, ur_ss := w 1\<rparr>)"

end
