(* ===== verification/Cstring.thy ===== *)
theory Cstring
  imports Memory
begin

text \<open>
  The string library of the kernel, \<^verbatim>\<open>410kern/string\<close> (the user library in \<^verbatim>\<open>410user/libstring\<close> is a copy of
  it).  A \<^verbatim>\<open>const char *\<close> is the sequence of the bytes found from the pointer on; a loop that looks for
  the terminating NUL returns \<open>None\<close> if there is none.  Routines that write work on memory.
\<close>

type_synonym cstring = "nat \<Rightarrow> u8"

definition at :: "memory \<Rightarrow> u32 \<Rightarrow> cstring" where
  "at m p = (\<lambda>i. m (p + of_nat i))"

definition of_list :: "u8 list \<Rightarrow> cstring" where
  "of_list xs = (\<lambda>i. if i < length xs then xs ! i else 0)"

section \<open>Routines that read\<close>

partial_function (option) strlen_loop :: "cstring \<Rightarrow> nat \<Rightarrow> nat option" where
  "strlen_loop s i = (if s i = 0 then Some i else strlen_loop s (i + 1))"

definition strlen :: "cstring \<Rightarrow> nat option" where
  "strlen s = strlen_loop s 0"

fun memcmp :: "cstring \<Rightarrow> cstring \<Rightarrow> nat \<Rightarrow> int" where
  "memcmp s1 s2 0 = 0"
| "memcmp s1 s2 (Suc n) =
     (if s1 0 \<noteq> s2 0 then sint (s1 0) - sint (s2 0) else memcmp (s1 \<circ> Suc) (s2 \<circ> Suc) n)"

partial_function (option) strcmp_loop :: "cstring \<Rightarrow> cstring \<Rightarrow> nat \<Rightarrow> int option" where
  "strcmp_loop s1 s2 i =
     (if s1 i \<noteq> 0 \<and> s2 i \<noteq> 0
      then if s1 i \<noteq> s2 i then Some (uint (s1 i) - uint (s2 i)) else strcmp_loop s1 s2 (i + 1)
      else Some (uint (s1 i) - uint (s2 i)))"

definition strcmp :: "cstring \<Rightarrow> cstring \<Rightarrow> int option" where
  "strcmp s1 s2 = strcmp_loop s1 s2 0"

fun strncmp :: "cstring \<Rightarrow> cstring \<Rightarrow> nat \<Rightarrow> int" where
  "strncmp s1 s2 0 = 0"
| "strncmp s1 s2 (Suc n) =
     (if s1 0 \<noteq> s2 0 then sint (s1 0) - sint (s2 0)
      else if s1 0 = 0 then 0
      else strncmp (s1 \<circ> Suc) (s2 \<circ> Suc) n)"

partial_function (option) strchr_loop :: "cstring \<Rightarrow> int \<Rightarrow> nat \<Rightarrow> nat option option" where
  "strchr_loop s c i =
     (if sint (s i) = c then Some (Some i)
      else if s i = 0 then Some None
      else strchr_loop s c (i + 1))"

definition strchr :: "cstring \<Rightarrow> int \<Rightarrow> nat option option" where
  "strchr s c = strchr_loop s c 0"

partial_function (option) rindex_loop :: "cstring \<Rightarrow> int \<Rightarrow> nat \<Rightarrow> nat option \<Rightarrow> nat option option" where
  "rindex_loop s c i it =
     (let it' = (if sint (s i) = c then Some i else it)
      in if s i = 0 then Some it' else rindex_loop s c (i + 1) it')"

definition rindex :: "cstring \<Rightarrow> int \<Rightarrow> nat option option" where
  "rindex s c = rindex_loop s c 0 None"

partial_function (option) strrchr_loop :: "cstring \<Rightarrow> int \<Rightarrow> nat \<Rightarrow> nat option \<Rightarrow> nat option option" where
  "strrchr_loop s c i save =
     (if s i \<noteq> 0 then strrchr_loop s c (i + 1) (if sint (s i) = c then Some i else save)
      else Some save)"

definition strrchr :: "cstring \<Rightarrow> int \<Rightarrow> nat option option" where
  "strrchr s c = strrchr_loop s c 0 None"

text \<open>The inner loops: whether \<open>c\<close> is among the characters of \<open>s2\<close>, without and with its terminator.\<close>

partial_function (option) spans :: "u8 \<Rightarrow> cstring \<Rightarrow> nat \<Rightarrow> bool option" where
  "spans c s2 j =
     (if s2 j = 0 then Some False else if s2 j = c then Some True else spans c s2 (j + 1))"

partial_function (option) cspans :: "u8 \<Rightarrow> cstring \<Rightarrow> nat \<Rightarrow> bool option" where
  "cspans c s2 j =
     (if s2 j = c then Some True else if s2 j = 0 then Some False else cspans c s2 (j + 1))"

partial_function (option) strspn_loop :: "cstring \<Rightarrow> cstring \<Rightarrow> nat \<Rightarrow> nat option" where
  "strspn_loop s1 s2 i = Option.bind (spans (s1 i) s2 0) (\<lambda>b.
     if b then strspn_loop s1 s2 (i + 1) else Some i)"

definition strspn :: "cstring \<Rightarrow> cstring \<Rightarrow> nat option" where
  "strspn s1 s2 = strspn_loop s1 s2 0"

partial_function (option) strcspn_loop :: "cstring \<Rightarrow> cstring \<Rightarrow> nat \<Rightarrow> nat option" where
  "strcspn_loop s1 s2 i = Option.bind (cspans (s1 i) s2 0) (\<lambda>b.
     if b then Some i else strcspn_loop s1 s2 (i + 1))"

definition strcspn :: "cstring \<Rightarrow> cstring \<Rightarrow> nat option" where
  "strcspn s1 s2 = strcspn_loop s1 s2 0"

partial_function (option) strpbrk_loop :: "cstring \<Rightarrow> cstring \<Rightarrow> nat \<Rightarrow> nat option option" where
  "strpbrk_loop s1 s2 i =
     (if s1 i = 0 then Some None
      else Option.bind (spans (s1 i) s2 0) (\<lambda>b.
        if b then Some (Some i) else strpbrk_loop s1 s2 (i + 1)))"

definition strpbrk :: "cstring \<Rightarrow> cstring \<Rightarrow> nat option option" where
  "strpbrk s1 s2 = strpbrk_loop s1 s2 0"

text \<open>\<open>hlen\<close> characters of the haystack are left after \<open>i\<close>.\<close>

fun strstr_loop :: "cstring \<Rightarrow> cstring \<Rightarrow> nat \<Rightarrow> nat \<Rightarrow> nat \<Rightarrow> nat option" where
  "strstr_loop h n nlen 0 i = (if nlen = 0 then Some i else None)"
| "strstr_loop h n nlen (Suc hlen) i =
     (if Suc hlen < nlen then None
      else if memcmp (\<lambda>k. h (i + k)) n nlen = 0 then Some i
      else strstr_loop h n nlen hlen (i + 1))"

definition strstr :: "cstring \<Rightarrow> cstring \<Rightarrow> nat option option" where
  "strstr h n = Option.bind (strlen h) (\<lambda>hlen. Option.bind (strlen n) (\<lambda>nlen.
     Some (strstr_loop h n nlen hlen 0)))"

section \<open>Routines that write\<close>

partial_function (option) strcpy :: "u32 \<Rightarrow> u32 \<Rightarrow> memory \<Rightarrow> memory option" where
  "strcpy to from m =
     (let c = m from; m' = m(to := c)
      in if c = 0 then Some m' else strcpy (to + 1) (from + 1) m')"

definition strcat :: "u32 \<Rightarrow> u32 \<Rightarrow> memory \<Rightarrow> memory option" where
  "strcat s add m = Option.bind (strlen (at m s)) (\<lambda>n. strcpy (s + of_nat n) add m)"

fun strncpy :: "nat \<Rightarrow> u32 \<Rightarrow> u32 \<Rightarrow> memory \<Rightarrow> memory" where
  "strncpy 0 to from m = m"
| "strncpy (Suc n) to from m =
     (let c = m from; m' = m(to := c)
      in if c = 0 then memset (to + 1) 0 (of_nat n) m' else strncpy n (to + 1) (from + 1) m')"

fun strncat_loop :: "nat \<Rightarrow> u32 \<Rightarrow> u32 \<Rightarrow> memory \<Rightarrow> memory" where
  "strncat_loop 0 d s m = m(d := 0)"
| "strncat_loop (Suc n) d s m =
     (let c = m s; m' = m(d := c)
      in if c = 0 then m'(d := 0) else strncat_loop n (d + 1) (s + 1) m')"

definition strncat :: "nat \<Rightarrow> u32 \<Rightarrow> u32 \<Rightarrow> memory \<Rightarrow> memory option" where
  "strncat n dst src m =
     (if n = 0 then Some m
      else Option.bind (strlen (at m dst)) (\<lambda>k. Some (strncat_loop n (dst + of_nat k) src m)))"

text \<open>\<^verbatim>\<open>strtok\<close> keeps its place in \<^verbatim>\<open>last\<close>, which is passed in and out together with memory.\<close>

definition strtok :: "u32 \<Rightarrow> cstring \<Rightarrow> u32 \<Rightarrow> memory \<Rightarrow> (u32 \<times> u32 \<times> memory) option" where
  "strtok s delim lst m =
     (let s = (if s = 0 then lst else s)
      in if s = 0 then Some (0, lst, m)
      else Option.bind (strspn (at m s) delim) (\<lambda>k.
        let tok = s + of_nat k
        in if m tok = 0 then Some (0, 0, m)
        else Option.bind (strcspn (at m (tok + 1)) delim) (\<lambda>n.
          let e = tok + 1 + of_nat n
          in if m e = 0 then Some (tok, 0, m) else Some (tok, e + 1, m(e := 0)))))"

section \<open>What the routines compute\<close>

definition is_cstr :: "cstring \<Rightarrow> u8 list \<Rightarrow> bool" where
  "is_cstr s xs \<longleftrightarrow> (\<forall>i < length xs. s i = xs ! i) \<and> s (length xs) = 0 \<and> 0 \<notin> set xs"

lemma is_cstr_nth: "is_cstr s xs \<Longrightarrow> i < length xs \<Longrightarrow> s i = xs ! i \<and> xs ! i \<noteq> 0"
  by (auto simp: is_cstr_def) (metis nth_mem)

lemma is_cstr_end: "is_cstr s xs \<Longrightarrow> s (length xs) = 0"
  by (simp add: is_cstr_def)

lemma is_cstr_Cons: "is_cstr s (x # xs) \<longleftrightarrow> s 0 = x \<and> x \<noteq> 0 \<and> is_cstr (s \<circ> Suc) xs"
proof -
  have "(\<forall>i < Suc (length xs). s i = (x # xs) ! i) \<longleftrightarrow> s 0 = x \<and> (\<forall>i < length xs. s (Suc i) = xs ! i)"
    by (auto simp: less_Suc_eq_0_disj)
  then show ?thesis by (auto simp: is_cstr_def)
qed

lemma is_cstr_Nil [simp]: "is_cstr s [] \<longleftrightarrow> s 0 = 0"
  by (simp add: is_cstr_def)

lemma is_cstr_of_list: "0 \<notin> set xs \<Longrightarrow> is_cstr (of_list xs) xs"
  by (simp add: is_cstr_def of_list_def)

lemma strlen_loop_length: "is_cstr s xs \<Longrightarrow> i \<le> length xs \<Longrightarrow> strlen_loop s i = Some (length xs)"
proof (induction "length xs - i" arbitrary: i)
  case 0
  then have "s i = 0" using is_cstr_end [of s xs] by simp
  then show ?case using 0 by (subst strlen_loop.simps) simp
next
  case (Suc n)
  then have "i < length xs" by simp
  then show ?case using Suc is_cstr_nth [of s xs i] by (subst strlen_loop.simps) simp
qed

lemma strlen_length: "is_cstr s xs \<Longrightarrow> strlen s = Some (length xs)"
  by (simp add: strlen_def strlen_loop_length)


lemma uint_diff_zero: "uint a - uint b = 0 \<longleftrightarrow> a = b" "sint a - sint b = 0 \<longleftrightarrow> a = b" for a b :: u8
proof -
  have w: "word_of_int (sint a) = a" "word_of_int (sint b) = b" by simp_all
  show "uint a - uint b = 0 \<longleftrightarrow> a = b" by (simp add: word_uint_eq_iff [symmetric])
  show "sint a - sint b = 0 \<longleftrightarrow> a = b" using w by (metis right_minus_eq)
qed

lemma strcmp_loop_eq:
  assumes s: "is_cstr s1 xs" "is_cstr s2 ys"
  shows "i \<le> length xs \<Longrightarrow> i \<le> length ys \<Longrightarrow>
    \<exists>d. strcmp_loop s1 s2 i = Some d \<and> (d = 0 \<longleftrightarrow> drop i xs = drop i ys)"
proof (induction "length xs - i" arbitrary: i)
  case 0
  then have i: "i = length xs" by simp
  have "s2 i = 0 \<longleftrightarrow> i = length ys" 
    using 0 is_cstr_nth [OF s(2), of i] is_cstr_end [OF s(2)] by (metis le_neq_implies_less)
  then show ?case using i is_cstr_end [OF s(1)] "0.prems" uint_diff_zero(1) [of "s1 i" "s2 i"]
    by (subst strcmp_loop.simps) auto
next
  case (Suc n)
  then have "i < length xs" by simp
  then have x: "i < length xs" "s1 i = xs ! i" "s1 i \<noteq> 0" using is_cstr_nth [OF s(1), of i] by auto
  show ?case
  proof (cases "i = length ys")
    case True
    then have "s2 i = 0" using is_cstr_end [OF s(2)] by simp
    then show ?thesis using x True by (subst strcmp_loop.simps) (auto simp: word_uint_eq_iff)
  next
    case False
    then have y: "i < length ys" "s2 i = ys ! i" "s2 i \<noteq> 0" using Suc.prems is_cstr_nth [OF s(2), of i] by auto
    have "drop i xs = xs ! i # drop (Suc i) xs" "drop i ys = ys ! i # drop (Suc i) ys"
      using x y by (simp_all add: Cons_nth_drop_Suc)
    then show ?thesis
      using x y Suc uint_diff_zero(1) [of "s1 i" "s2 i"]
      by (subst strcmp_loop.simps) auto
  qed
qed

lemma strcmp_eq:
  assumes "is_cstr s1 xs" "is_cstr s2 ys"
  shows "\<exists>d. strcmp s1 s2 = Some d \<and> (d = 0 \<longleftrightarrow> xs = ys)"
  using strcmp_loop_eq [OF assms, of 0] by (simp add: strcmp_def)

lemma strncmp_eq:
  "is_cstr s1 xs \<Longrightarrow> is_cstr s2 ys \<Longrightarrow> strncmp s1 s2 n = 0 \<longleftrightarrow> take n xs = take n ys"
proof (induction n arbitrary: s1 s2 xs ys)
  case 0
  then show ?case by simp
next
  case (Suc n)
  then show ?case
    using uint_diff_zero(2) [of "s1 0" "s2 0"] by (cases xs; cases ys) (auto simp: is_cstr_Cons)
qed

lemma memcmp_eq: "memcmp s1 s2 n = 0 \<longleftrightarrow> (\<forall>i < n. s1 i = s2 i)"
proof (induction n arbitrary: s1 s2)
  case 0
  then show ?case by simp
next
  case (Suc n)
  then show ?case using uint_diff_zero(2) [of "s1 0" "s2 0"] by (auto simp: less_Suc_eq_0_disj)
qed

lemma spans_member:
  assumes "is_cstr s2 ys"
  shows "j \<le> length ys \<Longrightarrow> spans c s2 j = Some (c \<in> set (drop j ys))"
proof (induction "length ys - j" arbitrary: j)
  case 0
  then show ?case using is_cstr_end [OF assms] by (subst spans.simps) simp
next
  case (Suc n)
  then have "j < length ys" by simp
  then show ?case
    using Suc is_cstr_nth [OF assms, of j] Cons_nth_drop_Suc [of j ys]
    by (subst spans.simps) (auto, (metis list.set_intros set_ConsD)+)
qed

lemma cspans_member:
  assumes "is_cstr s2 ys"
  shows "j \<le> length ys \<Longrightarrow> cspans c s2 j = Some (c = 0 \<or> c \<in> set (drop j ys))"
proof (induction "length ys - j" arbitrary: j)
  case 0
  then show ?case using is_cstr_end [OF assms] by (subst cspans.simps) auto
next
  case (Suc n)
  then have "j < length ys" by simp
  then show ?case
    using Suc is_cstr_nth [OF assms, of j] Cons_nth_drop_Suc [of j ys]
    by (subst cspans.simps) (auto, (metis list.set_intros set_ConsD)+)
qed

lemma strspn_loop_length:
  assumes "is_cstr s1 xs" "is_cstr s2 ys"
  shows "i \<le> length xs \<Longrightarrow> strspn_loop s1 s2 i = Some (i + length (takeWhile (\<lambda>c. c \<in> set ys) (drop i xs)))"
proof (induction "length xs - i" arbitrary: i)
  case 0
  then have "s1 i \<notin> set ys" using is_cstr_end [OF assms(1)] assms(2) by (auto simp: is_cstr_def)
  then show ?case using 0 spans_member [OF assms(2), of 0] by (subst strspn_loop.simps) simp
next
  case (Suc n)
  then have i: "i < length xs" by simp
  have "strspn_loop s1 s2 i = (if s1 i \<in> set ys then strspn_loop s1 s2 (Suc i) else Some i)"
    using spans_member [OF assms(2), of 0] by (subst strspn_loop.simps) simp
  then show ?case
    using Suc i is_cstr_nth [OF assms(1) i] Cons_nth_drop_Suc [OF i, symmetric] by simp
qed

lemma strcspn_loop_length:
  assumes "is_cstr s1 xs" "is_cstr s2 ys"
  shows "i \<le> length xs \<Longrightarrow> strcspn_loop s1 s2 i = Some (i + length (takeWhile (\<lambda>c. c \<notin> set ys) (drop i xs)))"
proof (induction "length xs - i" arbitrary: i)
  case 0
  then show ?case using is_cstr_end [OF assms(1)] cspans_member [OF assms(2), of 0]
    by (subst strcspn_loop.simps) simp
next
  case (Suc n)
  then have i: "i < length xs" by simp
  have "strcspn_loop s1 s2 i = (if s1 i \<in> set ys then Some i else strcspn_loop s1 s2 (Suc i))"
    using cspans_member [OF assms(2), of 0] is_cstr_nth [OF assms(1) i] by (subst strcspn_loop.simps) auto
  then show ?case
    using Suc i is_cstr_nth [OF assms(1) i] Cons_nth_drop_Suc [OF i, symmetric] by simp
qed

lemma strstr_loop_first:
  "case strstr_loop h n nlen hlen i of
     None \<Rightarrow> \<forall>j \<le> hlen. j + nlen \<le> hlen \<longrightarrow> \<not> (\<forall>k < nlen. h (i + j + k) = n k)
   | Some p \<Rightarrow> i \<le> p \<and> p + nlen \<le> i + hlen \<and> (\<forall>k < nlen. h (p + k) = n k) \<and>
       (\<forall>q. i \<le> q \<and> q < p \<longrightarrow> \<not> (\<forall>k < nlen. h (q + k) = n k))"
proof (induction hlen arbitrary: i)
  case 0
  then show ?case by auto
next
  case (Suc hlen)
  show ?case
  proof (cases "Suc hlen < nlen \<or> (\<forall>k < nlen. h (i + k) = n k)")
    case True
    then show ?thesis by (auto simp: memcmp_eq)
  next
    case False
    then have e: "strstr_loop h n nlen (Suc hlen) i = strstr_loop h n nlen hlen (Suc i)"
      by (auto simp: memcmp_eq)
    have no: "\<not> (\<forall>k < nlen. h (i + k) = n k)" using False by blast
    show ?thesis
    proof (cases "strstr_loop h n nlen hlen (Suc i)")
      case None
      have "\<not> (\<forall>k < nlen. h (i + j + k) = n k)" if "j + nlen \<le> Suc hlen" for j
      proof (cases j)
        case 0
        then show ?thesis using no by simp
      next
        case (Suc j')
        then have "j' + nlen \<le> hlen" "h (i + j + k) = h (Suc i + j' + k)" for k using that by simp_all
        then show ?thesis using Suc.IH [of "Suc i"] None by simp
      qed
      then show ?thesis using e None by auto
    next
      case (Some p)
      have "\<not> (\<forall>k < nlen. h (q + k) = n k)" if "i \<le> q" "q < p" for q
        using that no Suc.IH [of "Suc i"] Some by (cases "q = i") auto
      then show ?thesis using e Some Suc.IH [of "Suc i"] by auto
    qed
  qed
qed

lemma at_Suc: "at m p \<circ> Suc = at m (p + 1)"
  by (simp add: at_def fun_eq_iff add.assoc)

lemma is_cstr_cong:
  "is_cstr s xs \<Longrightarrow> (\<And>i. i \<le> length xs \<Longrightarrow> t i = s i) \<Longrightarrow> is_cstr t xs"
  by (simp add: is_cstr_def)

definition spliced :: "u32 \<Rightarrow> u8 list \<Rightarrow> memory \<Rightarrow> memory" where
  "spliced p bs m = (\<lambda>a. if unat (a - p) < length bs then bs ! unat (a - p) else m a)"

lemma spliced_Cons:
  assumes "length bs < 2 ^ 32"
  shows "spliced (p + 1) bs (m(p := b)) = spliced p (b # bs) m"
proof
  fix a
  show "spliced (p + 1) bs (m(p := b)) a = spliced p (b # bs) m a"
  proof (cases "a = p")
    case True
    have "a - (p + 1) = - 1" using True by simp
    then have "unat (a - (p + 1)) = 2 ^ 32 - 1" by (simp only: unsigned_minus_1_eq_mask) (simp add: mask_eq_exp_minus_1)
    then show ?thesis using True assms by (auto simp: spliced_def)
  next
    case False
    then have "a - p \<noteq> 0" by simp
    then obtain k where k: "unat (a - p) = Suc k" using unat_eq_0 not0_implies_Suc by metis
    have "unat (a - p - 1) = k" using unat_minus_one [OF \<open>a - p \<noteq> 0\<close>] k by simp
    then have "unat (a - (p + 1)) = k" by (simp only: diff_diff_eq)
    then show ?thesis using k False by (simp add: spliced_def)
  qed
qed

lemma strcpy_splices:
  assumes "is_cstr (at m from) xs" "length xs < 2 ^ 32 - 1"
    and "\<And>i j. i \<le> length xs \<Longrightarrow> j \<le> length xs \<Longrightarrow> to + of_nat i \<noteq> from + of_nat j"
  shows "strcpy to from m = Some (spliced to (xs @ [0]) m)"
  using assms
proof (induction xs arbitrary: to "from" m)
  case Nil
  then have "m from = 0" by (simp add: at_def)
  then show ?case by (subst strcpy.simps) (auto simp: spliced_def fun_eq_iff unat_eq_0)
next
  case (Cons x xs)
  have x: "m from = x" "x \<noteq> 0" "is_cstr (at m (from + 1)) xs"
    using Cons.prems(1) by (simp_all add: is_cstr_Cons at_Suc) (simp add: at_def)
  have sep: "to + of_nat i \<noteq> from + of_nat j" if "i \<le> Suc (length xs)" "j \<le> Suc (length xs)" for i j
    using Cons.prems(3) [of i j] that by simp
  have "is_cstr (at (m(to := x)) (from + 1)) xs"
  proof (rule is_cstr_cong [OF x(3)])
    fix i assume "i \<le> length xs"
    then show "at (m(to := x)) (from + 1) i = at m (from + 1) i" using sep [of 0 "Suc i"] by (simp add: at_def add.assoc)
  qed
  moreover have "to + 1 + of_nat i \<noteq> from + 1 + of_nat j" if "i \<le> length xs" "j \<le> length xs" for i j
    using sep [of "Suc i" "Suc j"] that by (simp add: add.assoc)
  ultimately have "strcpy (to + 1) (from + 1) (m(to := x)) = Some (spliced (to + 1) (xs @ [0]) (m(to := x)))"
    using Cons.prems(2) by (intro Cons.IH) (assumption | simp)+
  moreover have "strcpy to from m = strcpy (to + 1) (from + 1) (m(to := x))"
    using x by (subst strcpy.simps) simp
  ultimately show ?case using Cons.prems(2) spliced_Cons [of "xs @ [0]" to m x] by simp
qed

section \<open>The properties\<close>

text \<open>
  C17: String comparison.  On NUL-terminated strings \<^verbatim>\<open>strcmp\<close> terminates and returns 0 exactly when
  they are equal; \<^verbatim>\<open>strncmp\<close> returns 0 exactly when their first \<open>n\<close> characters agree.
\<close>

theorem string_compare_correct:
  assumes "is_cstr s1 xs" "is_cstr s2 ys"
  shows "(\<exists>d. strcmp s1 s2 = Some d \<and> (d = 0 \<longleftrightarrow> xs = ys)) \<and> (strncmp s1 s2 n = 0 \<longleftrightarrow> take n xs = take n ys)"
  using strcmp_eq [OF assms] strncmp_eq [OF assms] by blast

theorem string_compare_correct_witness:
  "\<exists>d. strcmp (of_list [105, 110]) (of_list [105, 100]) = Some d \<and> d \<noteq> 0"
  using string_compare_correct [of "of_list [105, 110]" "[105, 110]" "of_list [105, 100]" "[105, 100]"]
  by (simp add: is_cstr_of_list)

text \<open>
  \<^verbatim>\<open>strcpy\<close> terminates on a NUL-terminated source that does not overlap the destination, writes
  exactly the string with its terminator and nothing else.
\<close>

lemma strcpy_copies:
  assumes "is_cstr (at m from) xs" "length xs < 2 ^ 32 - 1"
    and "\<And>i j. i \<le> length xs \<Longrightarrow> j \<le> length xs \<Longrightarrow> to + of_nat i \<noteq> from + of_nat j"
  shows "\<exists>m'. strcpy to from m = Some m' \<and> (\<forall>i < length xs. m' (to + of_nat i) = xs ! i) \<and>
    m' (to + of_nat (length xs)) = 0 \<and> (\<forall>a. length xs < unat (a - to) \<longrightarrow> m' a = m a)"
proof -
  have "unat (of_nat i :: u32) = i" if "i \<le> length xs" for i
    using that assms(2) by (simp add: unat_of_nat)
  then show ?thesis
    by (intro exI [of _ "spliced to (xs @ [0]) m"] conjI strcpy_splices [OF assms])
      (auto simp: spliced_def nth_append)
qed

text \<open>
  C18: \<^verbatim>\<open>strstr\<close> returns the first position at which the needle occurs in the haystack, and NULL only
  if it does not occur.
\<close>

theorem strstr_finds_first:
  assumes "is_cstr h xs" "is_cstr n ys"
  shows "\<exists>r. strstr h n = Some r \<and> (case r of
      None \<Rightarrow> \<forall>p. p + length ys \<le> length xs \<longrightarrow> take (length ys) (drop p xs) \<noteq> ys
    | Some p \<Rightarrow> p + length ys \<le> length xs \<and> take (length ys) (drop p xs) = ys \<and>
        (\<forall>q < p. take (length ys) (drop q xs) \<noteq> ys))"
proof -
  have occurs: "(\<forall>k < length ys. h (p + k) = n k) \<longleftrightarrow> take (length ys) (drop p xs) = ys"
    if "p + length ys \<le> length xs" for p
    using that assms by (auto simp: list_eq_iff_nth_eq is_cstr_def)
  note first = strstr_loop_first [where h = h and n = n and nlen = "length ys" and hlen = "length xs" and i = 0]
  have e: "strstr h n = Some (strstr_loop h n (length ys) (length xs) 0)"
    by (simp add: strstr_def strlen_length [OF assms(1)] strlen_length [OF assms(2)])
  show ?thesis
  proof (cases "strstr_loop h n (length ys) (length xs) 0")
    case None
    then show ?thesis using first occurs e by auto
  next
    case (Some p)
    have "take (length ys) (drop q xs) \<noteq> ys" if "q < p" for q
      using that first Some occurs [of q] by auto
    then show ?thesis using first Some occurs [of p] e by auto
  qed
qed

theorem strstr_finds_first_witness:
  "\<exists>p. strstr (of_list [1, 2, 3, 2, 3]) (of_list [2, 3]) = Some (Some p) \<and> take 2 (drop p [1, 2, 3, 2, 3 :: u8]) = [2, 3]"
proof -
  obtain r where r: "strstr (of_list [1, 2, 3, 2, 3]) (of_list [2, 3]) = Some r" "case r of
      None \<Rightarrow> \<forall>p. p + length [2, 3 :: u8] \<le> length [1, 2, 3, 2, 3 :: u8] \<longrightarrow>
        take (length [2, 3 :: u8]) (drop p [1, 2, 3, 2, 3 :: u8]) \<noteq> [2, 3]
    | Some p \<Rightarrow> p + length [2, 3 :: u8] \<le> length [1, 2, 3, 2, 3 :: u8] \<and>
        take (length [2, 3 :: u8]) (drop p [1, 2, 3, 2, 3 :: u8]) = [2, 3] \<and>
        (\<forall>q < p. take (length [2, 3 :: u8]) (drop q [1, 2, 3, 2, 3 :: u8]) \<noteq> [2, 3])"
    using strstr_finds_first [of "of_list [1, 2, 3, 2, 3]" "[1, 2, 3, 2, 3]" "of_list [2, 3]" "[2, 3]"]
    by (auto simp: is_cstr_of_list)
  show ?thesis
  proof (cases r)
    case None
    then show ?thesis using r(2) by (auto dest: spec [of _ 1])
  next
    case (Some p)
    then show ?thesis using r by (auto simp: numeral_2_eq_2)
  qed
qed

end
