(* ===== verification/Loader.thy ===== *)
theory Loader
  imports User_Memory Cstring
begin

text \<open>
  The program loader, \<^verbatim>\<open>kern/loader/loader.c\<close>: reading the files linked into the kernel image, parsing
  ELF headers and copying the segments into the address space set up by \<open>setup_page_table\<close>.

  The table of contents \<^verbatim>\<open>exec2obj_userapp_TOC\<close> is generated by the build; it is a parameter, together
  with the address the linker gives to \<^verbatim>\<open>iret_fun\<close>.  A file is a function of the offset because a read
  past the end of the file reads whatever the linker put there.
\<close>

section \<open>Files\<close>

record toc_entry =
  execname :: "u8 list"
  execbytes :: "int \<Rightarrow> u8"
  execlen :: int

record image =
  userapp_TOC :: "toc_entry list"
  iret_fun :: u32

abbreviation (input) MAX_EXECNAME_LEN :: nat where "MAX_EXECNAME_LEN \<equiv> 256"

text \<open>Arithmetic on \<^verbatim>\<open>int\<close> wraps around at 32 bits.\<close>

definition wrap32 :: "int \<Rightarrow> int" where
  "wrap32 x = sint (word_of_int x :: u32)"

definition file_named :: "u8 list \<Rightarrow> toc_entry \<Rightarrow> bool" where
  "file_named name e \<longleftrightarrow> strncmp (of_list name) (of_list (execname e)) MAX_EXECNAME_LEN = 0"

text \<open>\<^verbatim>\<open>getbytes\<close> returns its result and the bytes it copies into the buffer, \<open>buf\<close> being its address.\<close>

definition getbytes :: "image \<Rightarrow> u8 list option \<Rightarrow> int \<Rightarrow> int \<Rightarrow> u32 \<Rightarrow> int \<times> u8 list" where
  "getbytes im filename offset sz buf =
     (case filename of
        None \<Rightarrow> (ERR_FAILURE, [])
      | Some name \<Rightarrow>
          if sz < 0 \<or> buf = 0 \<or> offset < 0 \<or> sz < 4 then (ERR_FAILURE, [])
          else (case find (file_named name) (userapp_TOC im) of
              None \<Rightarrow> (ERR_FAILURE, [])
            | Some e \<Rightarrow>
                (let n = (if wrap32 (offset + sz) \<le> execlen e then sz else wrap32 (execlen e - offset))
                 in if n \<le> 0 then (ERR_FAILURE, [])
                    else (n, map (\<lambda>i. execbytes e (offset + i)) [0..n - 1]))))"

section \<open>ELF headers\<close>

abbreviation (input) ELF_NOTELF :: int where "ELF_NOTELF \<equiv> - 1"
abbreviation (input) ELF_SUCCESS :: int where "ELF_SUCCESS \<equiv> 0"
abbreviation (input) PROG_PRESENT_VALID :: int where "PROG_PRESENT_VALID \<equiv> 0"
abbreviation (input) PROG_ABSENT_INVALID :: int where "PROG_ABSENT_INVALID \<equiv> 1"
abbreviation (input) MAX_SECTION_NAME_LEN :: int where "MAX_SECTION_NAME_LEN \<equiv> 10"
definition sizeof_Ehdr :: int where "sizeof_Ehdr = 52"
definition sizeof_Shdr :: int where "sizeof_Shdr = 40"

definition byte_at :: "u8 list \<Rightarrow> nat \<Rightarrow> u32" where
  "byte_at bs i = ucast (of_list bs i)"

definition half_at :: "u8 list \<Rightarrow> nat \<Rightarrow> u32" where
  "half_at bs i = byte_at bs i OR push_bit 8 (byte_at bs (i + 1))"

definition word_at :: "u8 list \<Rightarrow> nat \<Rightarrow> u32" where
  "word_at bs i = half_at bs i OR push_bit 16 (half_at bs (i + 2))"

record elf32_ehdr =
  e_ident :: "u8 list"
  eh_type :: u32
  eh_machine :: u32
  eh_version :: u32
  eh_entry :: u32
  eh_shoff :: u32
  eh_shnum :: u32
  eh_shstrndx :: u32

definition parse_ehdr :: "u8 list \<Rightarrow> elf32_ehdr" where
  "parse_ehdr bs = \<lparr>e_ident = take 16 bs, eh_type = half_at bs 16, eh_machine = half_at bs 18,
     eh_version = word_at bs 20, eh_entry = word_at bs 24, eh_shoff = word_at bs 32,
     eh_shnum = half_at bs 48, eh_shstrndx = half_at bs 50\<rparr>"

record elf32_shdr =
  sh_name :: u32
  sh_addr :: u32
  sh_offset :: u32
  sh_size :: u32

definition parse_shdr :: "u8 list \<Rightarrow> elf32_shdr" where
  "parse_shdr bs = \<lparr>sh_name = word_at bs 0, sh_addr = word_at bs 12, sh_offset = word_at bs 16, sh_size = word_at bs 20\<rparr>"

definition elf_check_header :: "image \<Rightarrow> u8 list \<Rightarrow> int" where
  "elf_check_header im fname =
     (let (ret, bs) = getbytes im (Some fname) 0 sizeof_Ehdr 1; h = parse_ehdr bs
      in if ret \<noteq> sizeof_Ehdr then ELF_NOTELF
         else if memcmp (of_list (e_ident h)) (of_list [0x7F, 0x45, 0x4C, 0x46]) 4 \<noteq> 0 then ELF_NOTELF
         else if eh_type h \<noteq> 2 then ELF_NOTELF
         else if eh_machine h \<noteq> 3 then ELF_NOTELF
         else if eh_version h \<noteq> 1 then ELF_NOTELF
         else ELF_SUCCESS)"

definition check_program :: "image \<Rightarrow> u8 list \<Rightarrow> int" where
  "check_program im prog_name =
     (if \<exists>e \<in> set (userapp_TOC im). file_named prog_name e \<and> elf_check_header im prog_name = ELF_SUCCESS
      then PROG_PRESENT_VALID else PROG_ABSENT_INVALID)"

definition ascii :: "string \<Rightarrow> u8 list" where
  "ascii s = map (\<lambda>c. word_of_nat (of_char c)) s"

definition named :: "string \<Rightarrow> u8 list \<Rightarrow> bool" where
  "named name section_name \<longleftrightarrow> strcmp (of_list (ascii name)) (of_list section_name) = Some 0"

definition blank_elf :: simple_elf where
  "blank_elf = \<lparr>e_fname = None, e_entry = 0, e_txtoff = 0, e_txtlen = 0, e_txtstart = 0, e_datoff = 0,
     e_datlen = 0, e_datstart = 0, e_rodatoff = 0, e_rodatlen = 0, e_rodatstart = 0, e_bsslen = 0, e_bssstart = 0\<rparr>"

text \<open>What one section header adds; unknown names are only reported on the console of the simulator.\<close>

definition add_section :: "u8 list \<Rightarrow> elf32_shdr \<Rightarrow> simple_elf \<Rightarrow> simple_elf" where
  "add_section section_name sh se =
     (if named ''.text'' section_name
      then se\<lparr>e_txtoff := sh_offset sh, e_txtlen := sh_size sh, e_txtstart := sh_addr sh\<rparr>
      else if named ''.rodata'' section_name
      then se\<lparr>e_rodatoff := sh_offset sh, e_rodatlen := sh_size sh, e_rodatstart := sh_addr sh\<rparr>
      else if named ''.data'' section_name
      then se\<lparr>e_datoff := sh_offset sh, e_datlen := sh_size sh, e_datstart := sh_addr sh\<rparr>
      else if named ''.bss'' section_name
      then se\<lparr>e_bsslen := sh_size sh, e_bssstart := sh_addr sh\<rparr>
      else se)"

fun load_sections :: "image \<Rightarrow> u8 list \<Rightarrow> elf32_ehdr \<Rightarrow> u32 \<Rightarrow> nat list \<Rightarrow> simple_elf \<Rightarrow> int \<times> simple_elf" where
  "load_sections im fname h string_offset [] se = (ELF_SUCCESS, se)"
| "load_sections im fname h string_offset (i # is) se =
     (let (ret, bs) = getbytes im (Some fname) (sint (eh_shoff h + of_nat i * word_of_int sizeof_Shdr)) sizeof_Shdr 1;
          sh = parse_shdr bs
      in if ret \<noteq> sizeof_Shdr then (ELF_NOTELF, se)
         else if sh_name sh = 0 then load_sections im fname h string_offset is se
         else let (ret, nm) = getbytes im (Some fname) (sint (string_offset + sh_name sh)) MAX_SECTION_NAME_LEN 1
           in if ret < 0 then (ELF_NOTELF, se)
              else load_sections im fname h string_offset is (add_section nm sh se))"

definition elf_load_helper :: "image \<Rightarrow> u8 list \<Rightarrow> int \<times> simple_elf" where
  "elf_load_helper im fname =
     (let (ret, bs) = getbytes im (Some fname) 0 sizeof_Ehdr 1; h = parse_ehdr bs
      in if ret \<noteq> sizeof_Ehdr then (ELF_NOTELF, blank_elf)
         else let se = blank_elf\<lparr>e_entry := eh_entry h, e_fname := Some fname\<rparr>;
                  (ret, bs) = getbytes im (Some fname) (sint (eh_shoff h + eh_shstrndx h * word_of_int sizeof_Shdr)) sizeof_Shdr 1
           in if ret \<noteq> sizeof_Shdr then (ELF_NOTELF, se)
              else load_sections im fname h (sh_offset (parse_shdr bs)) [0..<unat (eh_shnum h)] se)"

section \<open>Copying a program into memory\<close>

definition load_segment :: "image \<Rightarrow> u8 list option \<Rightarrow> u32 \<Rightarrow> int \<Rightarrow> int \<Rightarrow> (int, 'a mstate_scheme) kop" where
  "load_segment im filename start len offset =
     (if len > 0 then kbind (smalloc (word_of_int len)) (\<lambda>buf.
        if buf = 0 then kret ERR_NOMEM
        else let (ret, bs) = getbytes im filename offset len buf
          in kthen (vstore_bytes buf bs)
            (if ret < 0 then kthen (sfree buf (word_of_int len)) (kret ret)
             else kthen (vmemcpy start buf (nat len)) (kthen (sfree buf (word_of_int len)) (kret 0))))
      else kret 0)"

definition load_program :: "image \<Rightarrow> simple_elf \<Rightarrow> (int, 'a mstate_scheme) kop" where
  "load_program im se =
     kcheck (load_segment im (e_fname se) (e_txtstart se) (sint (e_txtlen se)) (sint (e_txtoff se)))
       (kcheck (load_segment im (e_fname se) (e_datstart se) (sint (e_datlen se)) (sint (e_datoff se)))
         (kcheck (load_segment im (e_fname se) (e_rodatstart se) (sint (e_rodatlen se)) (sint (e_rodatoff se)))
           (kthen (vmemset (e_bssstart se) 0 (unat (e_bsslen se))) (kret 0))))"

section \<open>Reads and the end of the file\<close>

lemma wrap32_id: "- (2 ^ 31) \<le> x \<Longrightarrow> x < 2 ^ 31 \<Longrightarrow> wrap32 x = x"
  by (simp add: wrap32_def sint_sbintrunc' signed_take_bit_int_eq_self)

lemma wrap32_over: "2 ^ 31 \<le> x \<Longrightarrow> x < 2 ^ 32 \<Longrightarrow> wrap32 x = x - 2 ^ 32"
proof -
  assume x: "2 ^ 31 \<le> x" "x < 2 ^ 32"
  have "(x + 2 ^ 31) mod 2 ^ 32 = (x + 2 ^ 31 - 2 ^ 32) mod 2 ^ 32" by (simp only: minus_mod_self2)
  also have "\<dots> = x - 2 ^ 31" using x by simp
  finally show ?thesis by (simp add: wrap32_def sint_sbintrunc' signed_take_bit_eq_take_bit_shift take_bit_int_def)
qed

definition file_slice :: "toc_entry \<Rightarrow> int \<Rightarrow> int \<Rightarrow> u8 list" where
  "file_slice e offset n = map (\<lambda>i. execbytes e (offset + i)) [0..n - 1]"

lemma getbytes_found:
  assumes "find (file_named name) (userapp_TOC im) = Some e" "4 \<le> sz" "0 \<le> offset" "buf \<noteq> 0"
  shows "getbytes im (Some name) offset sz buf =
    (let n = (if wrap32 (offset + sz) \<le> execlen e then sz else wrap32 (execlen e - offset))
     in if n \<le> 0 then (ERR_FAILURE, []) else (n, file_slice e offset n))"
  using assms by (simp add: getbytes_def file_slice_def Let_def)

definition hello :: image where
  "hello = \<lparr>userapp_TOC = [\<lparr>execname = ascii ''hello'', execbytes = (\<lambda>i. word_of_int (i + 1)), execlen = 10\<rparr>],
     iret_fun = 0x100000\<rparr>"

lemma hello_find:
  "find (file_named (ascii ''hello'')) (userapp_TOC hello) =
     Some \<lparr>execname = ascii ''hello'', execbytes = (\<lambda>i. word_of_int (i + 1)), execlen = 10\<rparr>"
proof -
  have "strncmp s s n = 0" for s :: cstring and n by (induction n arbitrary: s) auto
  then show ?thesis by (simp add: hello_def file_named_def)
qed

section \<open>The properties\<close>



text \<open>
  C20: When \<open>offset + size\<close> overflows, the check against the length of the file is passed and \<^verbatim>\<open>getbytes\<close>
  copies \<open>size\<close> bytes from behind the end of the file.
\<close>

theorem getbytes_overflow_reads_past_end:
  assumes "find (file_named name) (userapp_TOC im) = Some e" "0 \<le> execlen e"
    and "4 \<le> sz" "sz < 2 ^ 31" "0 \<le> offset" "offset < 2 ^ 31" "2 ^ 31 \<le> offset + sz" "buf \<noteq> 0"
  shows "getbytes im (Some name) offset sz buf = (sz, file_slice e offset sz)"
proof -
  have "wrap32 (offset + sz) = offset + sz - 2 ^ 32" using assms by (intro wrap32_over) simp_all
  then show ?thesis using assms getbytes_found [OF assms(1), of sz offset buf] by (simp add: Let_def)
qed

theorem getbytes_overflow_reads_past_end_witness:
  "fst (getbytes hello (Some (ascii ''hello'')) 0x7FFFFFFF 16 1) = 16"
  using getbytes_overflow_reads_past_end [OF hello_find, of 16 "0x7FFFFFFF" 1] by simp

end
