(* ===== verification/Task.thy ===== *)
theory Task
  imports Loader
begin

text \<open>
  Tasks: creating a task, loading a program into it and building the stacks it starts on,
  \<^verbatim>\<open>kern/core/task.c\<close>.
\<close>

section \<open>Creating a task\<close>

text \<open>
  \<^verbatim>\<open>sizeof(task_struct_t)\<close>: three words, a list head, two words, four list heads and links, the three
  words of the exception handler, a condition variable and five mutexes.
\<close>

definition sizeof_task :: u32 where
  "sizeof_task = 12 + 8 + 8 + 4 * 8 + 12 + 24 + 5 * 12"

definition init_task_structures :: "addr \<Rightarrow> (unit, 'a mstate_scheme) kop" where
  "init_task_structures t = kseq
     [kmodify (upd_links (init_head (Thread_head, t))),
      kmodify (upd_links (init_head (Child_task_head, t))),
      kmodify (upd_links (init_head (Dead_child_head, t))),
      ignore_int (mutex_init (Some (Child_list_mutex, t))),
      ignore_int (mutex_init (Some (Thread_list_mutex, t))),
      ignore_int (mutex_init (Some (Vanish_mutex, t))),
      ignore_int (cond_init (Some (Exit_cond, t))),
      kmodify (upd_task t (\<lambda>x. x\<lparr>swexn_eip := 0, swexn_args := 0\<rparr>)),
      ignore_int (mutex_init (Some (Fork_mutex, t))),
      ignore_int (mutex_init (Some (Exec_mutex, t)))]"

definition create_task :: "addr \<Rightarrow> (addr, 'a mstate_scheme) kop" where
  "create_task parent_t = kbind (smalloc sizeof_task) (\<lambda>t.
     if t = 0 then kret 0
     else kthen (kmodify (upd_task t (\<lambda>x. x\<lparr>parent := parent_t\<rparr>)))
       (kthen (init_task_structures t)
         (kbind (create_thread t) (\<lambda>th.
           if th = 0 then kthen (sfree t sizeof_task) (kret 0)
           else kthen (kmodify (\<lambda>s. upd_task t (\<lambda>x. x\<lparr>thr := th, task_id := thr_id (threads s th)\<rparr>) s)) (kret t)))))"

section \<open>The stacks of a new program\<close>

abbreviation (input) DEFAULT_STACK_OFFSET :: u32 where "DEFAULT_STACK_OFFSET \<equiv> 56"
abbreviation (input) DS_OFFSET :: u32 where "DS_OFFSET \<equiv> 1"
abbreviation (input) STACK_OFFSET :: u32 where "STACK_OFFSET \<equiv> 2"
abbreviation (input) EFLAGS_OFFSET :: u32 where "EFLAGS_OFFSET \<equiv> 3"
abbreviation (input) CS_OFFSET :: u32 where "CS_OFFSET \<equiv> 4"
abbreviation (input) EIP_OFFSET :: u32 where "EIP_OFFSET \<equiv> 5"
abbreviation (input) PUSHA_OFFSET :: u32 where "PUSHA_OFFSET \<equiv> 13"
abbreviation (input) PUSHA_SIZE :: u32 where "PUSHA_SIZE \<equiv> 32"
abbreviation (input) IRET_FUN_OFFSET :: u32 where "IRET_FUN_OFFSET \<equiv> 14"

text \<open>\<^verbatim>\<open>get_eflags\<close>: the interrupt flag is kept apart from the other flags.\<close>

definition get_eflags :: "'a mstate_scheme \<Rightarrow> u32" where
  "get_eflags s = (if int_flag s then eflags s OR EFLAGS_IF else eflags s AND NOT EFLAGS_IF)"

definition setup_user_eflags :: "'a mstate_scheme \<Rightarrow> u32" where
  "setup_user_eflags s = (get_eflags s OR 2 OR 0 OR EFLAGS_IF) AND 0xFFFBFFFF"

definition set_task_stack :: "image \<Rightarrow> u32 \<Rightarrow> u32 \<Rightarrow> u32 \<Rightarrow> (unit, 'a mstate_scheme) kop" where
  "set_task_stack im base eip user_stack_top = kbind (kgets setup_user_eflags) (\<lambda>fl. kseq
     [poke (below base DS_OFFSET) SEGSEL_USER_DS,
      poke (below base STACK_OFFSET) user_stack_top,
      poke (below base EFLAGS_OFFSET) fl,
      poke (below base CS_OFFSET) SEGSEL_USER_CS,
      poke (below base EIP_OFFSET) eip,
      kmodify (upd_mem (memset (below base PUSHA_OFFSET) 0 PUSHA_SIZE)),
      poke (below base IRET_FUN_OFFSET) (iret_fun im)])"

text \<open>The loop of \<^verbatim>\<open>copy_user_args\<close>: the strings go down the user stack, their addresses into the kernel's vector.\<close>

fun push_args :: "u32 \<Rightarrow> nat \<Rightarrow> u8 list list \<Rightarrow> u32 \<Rightarrow> (u32, 'a mstate_scheme) kop" where
  "push_args argvec_copy i [] sp = kret sp"
| "push_args argvec_copy i (a # as) sp =
     (let sp' = sp - (of_nat (length a) + 1)
      in kthen (vstore_bytes sp' (a @ [0]))
        (kthen (poke (argvec_copy + 4 * of_nat i) sp') (push_args argvec_copy (i + 1) as sp')))"

abbreviation (input) STACK_END :: u32 where "STACK_END \<equiv> STACK_START - DEFAULT_STACK_SIZE"

definition copy_user_args :: "u8 list list \<Rightarrow> (u32, 'a mstate_scheme) kop" where
  "copy_user_args argvec =
     (let num_args = length argvec; vsize = (of_nat num_args + 1) * 4
      in kbind (smalloc vsize) (\<lambda>argvec_copy.
        if argvec_copy = 0 then kret 0
        else kbind (push_args argvec_copy 0 argvec STACK_START) (\<lambda>sp.
          let sp = sp - 1; vec = sp - vsize
          in kthen (kseq
            [vstore8 sp 0,
             poke (argvec_copy + 4 * of_nat num_args) sp,
             vmemcpy vec argvec_copy (unat vsize),
             vstore32 (vec - 4) STACK_END,
             vstore32 (vec - 8) STACK_START,
             vstore32 (vec - 12) vec,
             vstore8 (vec - 16) (of_nat num_args),
             vstore8 (vec - 20) 0,
             sfree argvec_copy vsize]) (kret (vec - 20)))))"

section \<open>Loading\<close>

definition load_task :: "image \<Rightarrow> u8 list \<Rightarrow> u8 list list \<Rightarrow> addr \<Rightarrow> (int, 'a mstate_scheme) kop" where
  "load_task im prog_name argvec t = kbind create_page_directory (\<lambda>pd_addr.
     if pd_addr = 0 then kret ERR_NOMEM
     else kthen (kmodify (set_cur_pd pd_addr))
       (kthen (kmodify (upd_task t (\<lambda>x. x\<lparr>pdbr := pd_addr\<rparr>)))
         (let se_hdr = snd (elf_load_helper im prog_name)
          in kcheck (setup_page_table (Some se_hdr) pd_addr)
            (kcheck (load_program im se_hdr)
              (kbind (copy_user_args argvec) (\<lambda>user_stack_top.
                if user_stack_top = 0 then kret ERR_FAILURE
                else kbind (kgets (\<lambda>s. thr (tasks s t))) (\<lambda>th.
                  kbind (kgets (\<lambda>s. k_stack_base (threads s th))) (\<lambda>base. kthen (kseq
                    [set_task_stack im base (e_entry se_hdr) user_stack_top,
                     kmodify (upd_thread th (\<lambda>x. x\<lparr>cur_esp := base - DEFAULT_STACK_OFFSET\<rparr>))])
                    (kret 0)))))))))"

definition load_init_task :: "image \<Rightarrow> u8 list \<Rightarrow> (unit, 'a mstate_scheme) kop" where
  "load_init_task im prog_name = kbind (create_task 0) (\<lambda>t. kseq
     [kernel_assert (t \<noteq> 0),
      kbind (load_task im prog_name [prog_name] t) (\<lambda>retval. kernel_assert (retval = 0)),
      kmodify (\<lambda>s. s\<lparr>init_task := t\<rparr>),
      kmodify (\<lambda>s. runq_add_thread_interruptible (thr (tasks s t)) s)])"

text \<open>
  \<^verbatim>\<open>call_iret\<close> leaves the kernel; what it hands to the processor is the frame with the user segments, the
  stack at \<^verbatim>\<open>STACK_START\<close>, the flags and the entry point.
\<close>

record user_frame =
  uf_ss :: u32
  uf_esp :: u32
  uf_eflags :: u32
  uf_cs :: u32
  uf_eip :: u32

definition call_iret :: "u32 \<Rightarrow> u32 \<Rightarrow> (user_frame, 'a mstate_scheme) kop" where
  "call_iret fl eip = kret \<lparr>uf_ss = SEGSEL_USER_DS, uf_esp = STACK_START, uf_eflags = fl,
     uf_cs = SEGSEL_USER_CS, uf_eip = eip\<rparr>"

definition load_bootstrap_task :: "image \<Rightarrow> u8 list \<Rightarrow> (user_frame, 'a mstate_scheme) kop" where
  "load_bootstrap_task im prog_name = kbind create_page_directory (\<lambda>pd_addr.
     kthen (kernel_assert (pd_addr \<noteq> 0)) (kthen (kmodify (set_cur_pd pd_addr))
       (kbind (create_task 0) (\<lambda>t. kthen (kernel_assert (t \<noteq> 0))
         (kthen (kmodify (upd_task t (\<lambda>x. x\<lparr>pdbr := pd_addr\<rparr>)))
           (let se_hdr = snd (elf_load_helper im prog_name)
            in kthen (kbind (setup_page_table (Some se_hdr) pd_addr) (\<lambda>retval. kernel_assert (retval = 0)))
              (kthen (kbind (load_program im se_hdr) (\<lambda>retval. kernel_assert (retval = 0)))
                (kbind (kgets (\<lambda>s. thr (tasks s t))) (\<lambda>th. kthen (kseq
                  [kmodify (set_running_thread th), kmodify (set_status th RUNNING),
                   kmodify (\<lambda>s. set_esp0 (k_stack_base (threads s th)) s)])
                  (kbind (kgets setup_user_eflags) (\<lambda>fl. kthen (kseq
                    [kmodify (\<lambda>s. s\<lparr>idle_task := t\<rparr>), enable_mutex_lib])
                    (call_iret fl (e_entry se_hdr)))))))))))))"

end
