(* ===== verification/Lifecycle.thy ===== *)
theory Lifecycle
  imports Task
begin

text \<open>
  The life cycle of tasks and threads: \<^verbatim>\<open>kern/core/fork.c\<close>, \<^verbatim>\<open>kern/core/exec.c\<close> and
  \<^verbatim>\<open>kern/core/wait_vanish.c\<close>.
\<close>

section \<open>fork and thread\_fork\<close>

definition thread_free_resources :: "addr \<Rightarrow> (unit, 'a mstate_scheme) kop" where
  "thread_free_resources t = kseq
     [mutex_destroy (Some (Deschedule_mutex, t)), cond_destroy (Some (Deschedule_cond, t)), sfree t sizeof_thread]"

text \<open>The child continues on a copy of a kernel stack, from \<^verbatim>\<open>iret_fun\<close> on.\<close>

definition clone_stack :: "image \<Rightarrow> addr \<Rightarrow> addr \<Rightarrow> (unit, 'a mstate_scheme) kop" where
  "clone_stack im child t = kseq
     [kmodify (upd_mem (memcpy (k_stack child) (k_stack t) KERNEL_STACK_SIZE)),
      kbind (kgets (\<lambda>s. k_stack_base (threads s child))) (\<lambda>base. kseq
        [poke (below base IRET_FUN_OFFSET) (iret_fun im),
         kmodify (upd_thread child (\<lambda>x. x\<lparr>cur_esp := base - DEFAULT_STACK_OFFSET\<rparr>))])]"

definition do_fork :: "image \<Rightarrow> (int, 'a mstate_scheme) kop" where
  "do_fork im = kbind (kgets get_curr_task) (\<lambda>curr_task.
     kthen (mutex_lock (Some (Fork_mutex, curr_task)))
      (kbind (create_task curr_task) (\<lambda>child_task.
        if child_task = 0 then kthen (mutex_unlock (Some (Fork_mutex, curr_task))) (kret ERR_NOMEM)
        else kthen (kseq
          [mutex_lock (Some (Vanish_mutex, curr_task)),
           kmodify (upd_links (add_to_tail (Child_task_link, child_task) (Child_task_head, curr_task))),
           mutex_unlock (Some (Vanish_mutex, curr_task))])
         (kbind (kgets (\<lambda>s. thr (tasks s child_task))) (\<lambda>child_thr.
          kbind (kbind (kgets (\<lambda>s. pdbr (tasks s curr_task))) clone_paging_info) (\<lambda>new_pd_addr.
           if new_pd_addr = 0 then kthen (kseq
             [thread_free_resources child_thr, sfree child_task sizeof_task,
              mutex_unlock (Some (Fork_mutex, curr_task))]) (kret ERR_FAILURE)
           else kthen (kseq
             [kmodify (upd_task child_task (\<lambda>x. x\<lparr>pdbr := new_pd_addr\<rparr>)),
              kmodify (\<lambda>s. upd_task child_task (\<lambda>x. x\<lparr>swexn_eip := swexn_eip (tasks s curr_task),
                swexn_args := swexn_args (tasks s curr_task), swexn_esp := swexn_esp (tasks s curr_task)\<rparr>) s),
              kbind (kgets (\<lambda>s. thr (tasks s curr_task))) (clone_stack im child_thr),
              kmodify (runq_add_thread child_thr),
              kmodify (\<lambda>s. set_cur_pd (pdbr (tasks s curr_task)) s),
              mutex_unlock (Some (Fork_mutex, curr_task))])
             (kgets (\<lambda>s. task_id (tasks s child_task)))))))))"

definition do_thread_fork :: "image \<Rightarrow> (int, 'a mstate_scheme) kop" where
  "do_thread_fork im = kbind (kgets get_curr_task) (\<lambda>curr_task. kbind (kgets get_curr_thread) (\<lambda>t.
     kbind (create_thread curr_task) (\<lambda>child_thread.
       if child_thread = 0 then kret ERR_FAILURE
       else kthen (kseq [clone_stack im child_thread t, kmodify (runq_add_thread child_thread)])
         (kgets (\<lambda>s. thr_id (threads s child_thread))))))"

section \<open>exec\<close>

abbreviation (input) EXECNAME_MAX :: nat where "EXECNAME_MAX \<equiv> 255"
abbreviation (input) NUM_ARGS_MAX :: nat where "NUM_ARGS_MAX \<equiv> 16"
abbreviation (input) ARGNAME_MAX :: nat where "ARGNAME_MAX \<equiv> 255"

text \<open>The string at a kernel address, at most \<open>n\<close> characters.\<close>

definition kernel_string :: "nat \<Rightarrow> memory \<Rightarrow> u32 \<Rightarrow> u8 list" where
  "kernel_string n m p = takeWhile (\<lambda>b. b \<noteq> 0) (map (at m p) [0..<n])"

definition free_args :: "u32 \<Rightarrow> nat \<Rightarrow> (unit, 'a mstate_scheme) kop" where
  "free_args argvec num_args = kseq
     [kfor [0..<num_args] (\<lambda>i. kbind (peek (argvec + 4 * of_nat i)) (\<lambda>p. sfree p (of_nat ARGNAME_MAX))),
      kbind (peek (argvec + 4 * of_nat num_args)) (\<lambda>p. sfree p 1),
      sfree argvec ((of_nat num_args + 1) * 4)]"

definition copy_args :: "nat \<Rightarrow> u32 \<Rightarrow> (u32, 'a mstate_scheme) kop" where
  "copy_args num_args argvec = kbind (smalloc ((of_nat num_args + 1) * 4)) (\<lambda>argvec_kern.
     if argvec_kern = 0 then kret 0
     else kbind (kuntil [0..<num_args] (\<lambda>i. kbind (smalloc (of_nat ARGNAME_MAX)) (\<lambda>arg.
         if arg = 0 then kthen (free_args argvec_kern i) (kret (Some 0))
         else kbind (vload32 (argvec + 4 * of_nat i)) (\<lambda>p.
           kbind (copy_user_data arg p (int ARGNAME_MAX)) (\<lambda>r.
             if r < 0 then kthen (free_args argvec_kern i) (kret (Some 0))
             else kthen (poke (argvec_kern + 4 * of_nat i) arg) (kret None))))))
       (\<lambda>r. case r of
           Some x \<Rightarrow> kret x
         | None \<Rightarrow> kbind (smalloc 1) (\<lambda>arg.
             if arg = 0 then kthen (free_args argvec_kern num_args) (kret 0)
             else kthen (kseq
               [kmodify (upd_mem (\<lambda>m. m(arg := 0))), poke (argvec_kern + 4 * of_nat num_args) arg])
               (kret argvec_kern))))"

text \<open>The loop of \<^verbatim>\<open>get_num_args\<close>; \<open>n\<close> arguments may still follow the \<open>count\<close> found so far.\<close>

fun count_args :: "nat \<Rightarrow> u32 \<Rightarrow> nat \<Rightarrow> (int, 'a mstate_scheme) kop" where
  "count_args 0 argvec count = kret ERR_BIG"
| "count_args (Suc n) argvec count =
     kbind (vload32 (argvec + 4 * of_nat count)) (\<lambda>p. kbind (is_pointer_valid p 4) (\<lambda>r.
       if r = 0 \<and> p \<noteq> 0 then count_args n argvec (count + 1) else kret (int count)))"

definition get_num_args :: "u32 \<Rightarrow> (int, 'a mstate_scheme) kop" where
  "get_num_args argvec = kbind (is_pointer_valid argvec 4) (\<lambda>r.
     if r < 0 then kret ERR_INVAL else count_args (NUM_ARGS_MAX + 1) argvec 0)"

text \<open>\<open>execname_kern\<close> is the address the compiler gives to the local array of that name.\<close>

definition do_exec :: "image \<Rightarrow> u32 \<Rightarrow> u32 \<Rightarrow> (int, 'a mstate_scheme) kop" where
  "do_exec im execname_kern arg_packet = kbind (kgets get_curr_task) (\<lambda>t.
     let fail = (\<lambda>e. kthen (mutex_unlock (Some (Exec_mutex, t))) (kret e))
     in kthen (mutex_lock (Some (Exec_mutex, t)))
      (kbind (vload32 arg_packet) (\<lambda>name. kbind (vload32 (arg_packet + 4)) (\<lambda>argvec.
       kbind (copy_user_data execname_kern name (int EXECNAME_MAX)) (\<lambda>r.
        if r < 0 then fail ERR_INVAL
        else kbind (kgets (\<lambda>s. kernel_string EXECNAME_MAX (mem s) execname_kern)) (\<lambda>prog.
         if check_program im prog = PROG_ABSENT_INVALID then fail ERR_FAILURE
         else kbind (get_num_args argvec) (\<lambda>num_args.
          if num_args < 0 then fail ERR_FAILURE
          else kbind (kgets cr3) (\<lambda>old_pd. kbind (copy_args (nat num_args) argvec) (\<lambda>argvec_kern.
           if argvec_kern = 0 then fail ERR_FAILURE
           else kbind (kgets (\<lambda>s. map (\<lambda>i. kernel_string ARGNAME_MAX (mem s)
                    (load32 (mem s) (argvec_kern + 4 * of_nat i))) [0..<nat num_args])) (\<lambda>args.
            kbind (load_task im prog args t) (\<lambda>retval.
             if retval < 0 then kthen (free_args argvec_kern (nat num_args))
               (kthen (kmodify (set_cur_pd old_pd)) (fail retval))
             else kthen (kseq
               [free_paging_info old_pd, free_args argvec_kern (nat num_args),
                mutex_unlock (Some (Exec_mutex, t))]) (kret 0))))))))))))"

section \<open>wait\<close>

definition reap_task :: "addr \<Rightarrow> (unit, 'a mstate_scheme) kop" where
  "reap_task t = kseq
     [mutex_destroy (Some (Child_list_mutex, t)), mutex_destroy (Some (Thread_list_mutex, t)),
      mutex_destroy (Some (Vanish_mutex, t)), mutex_destroy (Some (Fork_mutex, t)),
      mutex_destroy (Some (Exec_mutex, t)), cond_destroy (Some (Exit_cond, t)), sfree t sizeof_task]"

definition do_wait :: "u32 \<Rightarrow> (int, 'a mstate_scheme) kop" where
  "do_wait status_ptr =
     kbind (if status_ptr = 0 then kret False
            else kbind (is_pointer_valid status_ptr 4) (\<lambda>r. if r < 0 then kret True
              else kbind (is_memory_writable status_ptr 4) (\<lambda>r. kret (r < 0)))) (\<lambda>bad.
     if bad then kret ERR_INVAL
     else kbind (kgets get_curr_task) (\<lambda>curr_task. kbind (kgets get_curr_thread) (\<lambda>t.
       let m = Some (Child_list_mutex, curr_task)
       in kthen (mutex_lock m) (kthen
         (kwhile (\<lambda>_ s. get_first (Dead_child_head, curr_task) (links s) = None \<and>
                        get_first (Child_task_head, curr_task) (links s) \<noteq> None)
           (\<lambda>_. cond_wait (Some (Exit_cond, curr_task)) m (Cond_wait_link, t) WAITING) ())
         (kbind (kgets (\<lambda>s. get_first (Dead_child_head, curr_task) (links s))) (\<lambda>dead_head. case dead_head of
             None \<Rightarrow> kthen (mutex_unlock m) (kret ERR_FAILURE)
           | Some d \<Rightarrow> kthen (kseq [kmodify (upd_links (del_entry d)), mutex_unlock m])
               (let dead_task = get_entry d
                in kbind (kgets (\<lambda>s. task_id (tasks s dead_task))) (\<lambda>dead_task_id. kthen (kseq
                  [kbind (kgets (\<lambda>s. exit_status (tasks s dead_task))) (\<lambda>st.
                     kwhen (status_ptr \<noteq> 0) (vstore32 status_ptr (word_of_int st))),
                   reap_task dead_task]) (kret dead_task_id)))))))))"

section \<open>vanish\<close>

definition remove_thread_from_task :: "addr \<Rightarrow> (unit, 'a mstate_scheme) kop" where
  "remove_thread_from_task t = kseq
     [kbind (kgets (\<lambda>s. thr_id (threads s t))) remove_thread_from_map,
      kmodify (upd_links (del_entry (Task_thread_link, t)))]"

partial_function (option) reparent_loop :: "link \<Rightarrow> addr \<Rightarrow> link \<Rightarrow> 'a mstate_scheme \<Rightarrow> (unit \<times> 'a mstate_scheme) option" where
  "reparent_loop task_list init_t node s =
     (if node = task_list then Some ((), s)
      else reparent_loop task_list init_t (nxt (links s) node)
        (upd_task (get_entry node) (\<lambda>x. x\<lparr>parent := init_t\<rparr>) s))"

definition reparent_to_init :: "link \<Rightarrow> addr \<Rightarrow> (unit, 'a mstate_scheme) kop" where
  "reparent_to_init task_list init_t = (\<lambda>s. case get_first task_list (links s) of
      None \<Rightarrow> Ok () s
    | Some node \<Rightarrow> kloop (reparent_loop task_list init_t node) s)"

definition update_to_dead_thr_stack :: "u32 \<Rightarrow> 'a mstate_scheme \<Rightarrow> 'a mstate_scheme" where
  "update_to_dead_thr_stack new_esp s =
     (upd_mem (store32 (new_esp - 4) (load32 (mem s) (esp s))) s)\<lparr>esp := new_esp - 4, ebp := new_esp - 4\<rparr>"

definition orphan_children :: "addr \<Rightarrow> addr \<Rightarrow> (unit, 'a mstate_scheme) kop" where
  "orphan_children curr_task init_t = kseq
     [kmodify disable_interrupts,
      mutex_lock (Some (Vanish_mutex, curr_task)),
      reparent_to_init (Child_task_head, curr_task) init_t,
      reparent_to_init (Dead_child_head, curr_task) init_t,
      mutex_lock (Some (Child_list_mutex, init_t)),
      kmodify (upd_links (concat_lists (Child_task_head, init_t) (Child_task_head, curr_task))),
      kmodify (upd_links (concat_lists (Dead_child_head, init_t) (Dead_child_head, curr_task))),
      mutex_unlock (Some (Child_list_mutex, init_t)),
      mutex_unlock (Some (Vanish_mutex, curr_task)),
      kmodify enable_interrupts]"

definition notify_parent :: "addr \<Rightarrow> (unit, 'a mstate_scheme) kop" where
  "notify_parent curr_task = kseq
     [kmodify disable_interrupts,
      kbind (kgets (\<lambda>s. parent (tasks s curr_task))) (\<lambda>parent_task. kseq
        [kmodify (upd_links (del_entry (Child_task_link, curr_task))),
         kmodify (upd_links (add_to_tail (Dead_child_link, curr_task) (Dead_child_head, parent_task))),
         kbind (kgets (\<lambda>s. get_first (Child_task_head, parent_task) (links s))) (\<lambda>alive.
           if alive = None then cond_broadcast (Some (Exit_cond, parent_task))
           else cond_signal (Some (Exit_cond, parent_task)))])]"

definition do_vanish :: "('r, 'a mstate_scheme) kop" where
  "do_vanish = kbind (kgets get_curr_task) (\<lambda>curr_task. kbind (kgets get_curr_thread) (\<lambda>t.
     kbind (kgets get_init_task) (\<lambda>init_t.
       kthen (kseq [mutex_lock (Some (Thread_list_mutex, curr_task)), remove_thread_from_task t])
        (kbind (kgets (\<lambda>s. get_first (Thread_head, curr_task) (links s))) (\<lambda>thread_head. kthen (kseq
          [mutex_unlock (Some (Thread_list_mutex, curr_task)),
           kwhen (thread_head = None) (kseq
             [orphan_children curr_task init_t,
              kbind (kgets (\<lambda>s. pdbr (tasks s curr_task))) (\<lambda>curr_pdbr. kseq
                [kmodify (\<lambda>s. upd_task curr_task (\<lambda>x. x\<lparr>pdbr := get_kernel_pd s\<rparr>) s),
                 set_kernel_pd,
                 free_paging_info curr_pdbr]),
              notify_parent curr_task]),
           kmodify disable_interrupts,
           kmodify (\<lambda>s. update_to_dead_thr_stack (get_dead_thr_kernel_stack s) s),
           kbind (kgets get_curr_thread) thread_free_resources,
           kmodify (set_running_thread 0)])
          (\<lambda>s. Gone (context_switch s)))))))"

end
