(* ===== verification/Keyhelp.thy ===== *)
theory Keyhelp
  imports Prelude
begin

text \<open>
  Translation of keyboard scancodes, \<^verbatim>\<open>410kern/x86/keyhelp.c\<close>: the tables of keys, the modifier keys
  and the multi-byte sequences.  A \<^verbatim>\<open>kh_type\<close> is a word whose two upper bytes are flags and whose lower
  bytes are the raw and the translated character.
\<close>

section \<open>Codes and flags\<close>

type_synonym u16 = "16 word"

abbreviation (input) KH_STATE_SHIFT :: nat where "KH_STATE_SHIFT \<equiv> 16"
abbreviation (input) KH_STATE_SMASK :: u16 where "KH_STATE_SMASK \<equiv> 0xFF00"
abbreviation (input) KH_RMODS_SHIFT :: nat where "KH_RMODS_SHIFT \<equiv> 16"
abbreviation (input) KH_RAWCHAR_SHIFT :: nat where "KH_RAWCHAR_SHIFT \<equiv> 8"
abbreviation (input) KH_CHAR_SHIFT :: nat where "KH_CHAR_SHIFT \<equiv> 0"
abbreviation (input) KH_CHAR_SMASK :: u32 where "KH_CHAR_SMASK \<equiv> 0xFF"
abbreviation (input) KH_LSHIFT_KEY :: u16 where "KH_LSHIFT_KEY \<equiv> 0x8000"
abbreviation (input) KH_RSHIFT_KEY :: u16 where "KH_RSHIFT_KEY \<equiv> 0x4000"
abbreviation (input) KH_LCONTROL_KEY :: u16 where "KH_LCONTROL_KEY \<equiv> 0x2000"
abbreviation (input) KH_RCONTROL_KEY :: u16 where "KH_RCONTROL_KEY \<equiv> 0x1000"
abbreviation (input) KH_LALT_KEY :: u16 where "KH_LALT_KEY \<equiv> 0x0800"
abbreviation (input) KH_RALT_KEY :: u16 where "KH_RALT_KEY \<equiv> 0x0400"
abbreviation (input) KH_CAPS_LOCK :: u16 where "KH_CAPS_LOCK \<equiv> 0x0200"
abbreviation (input) KH_NUM_LOCK :: u16 where "KH_NUM_LOCK \<equiv> 0x0100"
abbreviation (input) KH_RESULT_HASRAW :: u32 where "KH_RESULT_HASRAW \<equiv> 0x08"
abbreviation (input) KH_RESULT_HASDATA :: u32 where "KH_RESULT_HASDATA \<equiv> 0x04"
abbreviation (input) KH_RESULT_NUMPAD :: u32 where "KH_RESULT_NUMPAD \<equiv> 0x02"
abbreviation (input) KH_RESULT_MAKE :: u32 where "KH_RESULT_MAKE \<equiv> 0x01"
abbreviation (input) KH_PRSCR_UP_SCAN :: u16 where "KH_PRSCR_UP_SCAN \<equiv> 8"
abbreviation (input) KH_PRSCR_DOWN_SCAN :: u16 where "KH_PRSCR_DOWN_SCAN \<equiv> 4"
abbreviation (input) KH_PAUSE_SCAN :: u16 where "KH_PAUSE_SCAN \<equiv> 2"
abbreviation (input) KH_EXTENDED_SCAN :: u16 where "KH_EXTENDED_SCAN \<equiv> 1"

definition KH_GETCHAR :: "u32 \<Rightarrow> u32" where
  "KH_GETCHAR k = drop_bit KH_CHAR_SHIFT k AND KH_CHAR_SMASK"

definition KH_HASDATA :: "u32 \<Rightarrow> bool" where
  "KH_HASDATA k \<longleftrightarrow> drop_bit KH_RMODS_SHIFT k AND KH_RESULT_HASDATA \<noteq> 0"

definition KH_ISMAKE :: "u32 \<Rightarrow> bool" where
  "KH_ISMAKE k \<longleftrightarrow> drop_bit KH_RMODS_SHIFT k AND KH_RESULT_MAKE \<noteq> 0"

datatype kh_extended =
    KHE_UNDEFINED | KHE_ARROW_UP | KHE_ARROW_LEFT | KHE_ARROW_DOWN | KHE_ARROW_RIGHT
  | KHE_LALT | KHE_RALT | KHE_LCTL | KHE_RCTL | KHE_LSHIFT | KHE_RSHIFT | KHE_CAPSLOCK | KHE_NUMLOCK
  | KHE_F1 | KHE_F2 | KHE_F3 | KHE_F4 | KHE_F5 | KHE_F6 | KHE_F7 | KHE_F8 | KHE_F9 | KHE_F10
  | KHE_F11 | KHE_F12 | KHE_PAUSE | KHE_PRINT_SCREEN

primrec khe :: "kh_extended \<Rightarrow> u8" where
  "khe KHE_UNDEFINED = 0x80"
| "khe KHE_ARROW_UP = 0x81"
| "khe KHE_ARROW_LEFT = 0x82"
| "khe KHE_ARROW_DOWN = 0x83"
| "khe KHE_ARROW_RIGHT = 0x84"
| "khe KHE_LALT = 0x85"
| "khe KHE_RALT = 0x86"
| "khe KHE_LCTL = 0x87"
| "khe KHE_RCTL = 0x88"
| "khe KHE_LSHIFT = 0x89"
| "khe KHE_RSHIFT = 0x8A"
| "khe KHE_CAPSLOCK = 0x8B"
| "khe KHE_NUMLOCK = 0x8C"
| "khe KHE_F1 = 0x8D"
| "khe KHE_F2 = 0x8E"
| "khe KHE_F3 = 0x8F"
| "khe KHE_F4 = 0x90"
| "khe KHE_F5 = 0x91"
| "khe KHE_F6 = 0x92"
| "khe KHE_F7 = 0x93"
| "khe KHE_F8 = 0x94"
| "khe KHE_F9 = 0x95"
| "khe KHE_F10 = 0x96"
| "khe KHE_F11 = 0x97"
| "khe KHE_F12 = 0x98"
| "khe KHE_PAUSE = 0x99"
| "khe KHE_PRINT_SCREEN = 0x9A"

record keyhelp =
  key_state :: u16
  key_internal_state :: u16
  key_sequence :: int

section \<open>The tables of keys\<close>

text \<open>
  What a key of the switch in \<^verbatim>\<open>process_simple_scan\<close> does: it has one character, one that depends on
  the shift keys, on shift and control, or on shift, control and caps lock, or it is on the numeric pad.
\<close>

datatype key_action =
    Plain u8
  | Shift u8 u8
  | Shift_ctl u8 u8 u8
  | Shift_caps_ctl u8 u8 u8
  | Numpad u8

definition chr :: "char \<Rightarrow> u8" where
  "chr c = of_char c"

definition number_keys :: "(u8 \<times> key_action) list" where
  "number_keys = [
    (0x1, Plain 0x1B), (0x2, Shift (chr CHR ''!'') (chr CHR ''1'')),
    (0x3, Shift_ctl 0x00 (chr CHR ''@'') (chr CHR ''2'')), (0x4, Shift (chr CHR ''#'') (chr CHR ''3'')),
    (0x5, Shift (chr CHR ''$'') (chr CHR ''4'')), (0x6, Shift (chr CHR ''%'') (chr CHR ''5'')),
    (0x7, Shift_ctl 0x1E (chr CHR ''^'') (chr CHR ''6'')), (0x8, Shift (chr CHR ''&'') (chr CHR ''7'')),
    (0x9, Shift (chr CHR ''*'') (chr CHR ''8'')), (0xA, Shift (chr CHR ''('') (chr CHR ''9'')),
    (0xB, Shift (chr CHR '')'') (chr CHR ''0'')), (0xC, Shift_ctl 0x1F (chr CHR ''_'') (chr CHR ''-'')),
    (0xD, Shift (chr CHR ''+'') (chr CHR ''='')), (0xE, Plain 0x08), (0xF, Plain 0x09)]"

definition upper_keys :: "(u8 \<times> key_action) list" where
  "upper_keys = [
    (0x10, Shift_caps_ctl 0x11 (chr CHR ''Q'') (chr CHR ''q'')),
    (0x11, Shift_caps_ctl 0x17 (chr CHR ''W'') (chr CHR ''w'')),
    (0x12, Shift_caps_ctl 0x05 (chr CHR ''E'') (chr CHR ''e'')),
    (0x13, Shift_caps_ctl 0x12 (chr CHR ''R'') (chr CHR ''r'')),
    (0x14, Shift_caps_ctl 0x14 (chr CHR ''T'') (chr CHR ''t'')),
    (0x15, Shift_caps_ctl 0x19 (chr CHR ''Y'') (chr CHR ''y'')),
    (0x16, Shift_caps_ctl 0x15 (chr CHR ''U'') (chr CHR ''u'')),
    (0x17, Shift_caps_ctl 0x09 (chr CHR ''I'') (chr CHR ''i'')),
    (0x18, Shift_caps_ctl 0x0F (chr CHR ''O'') (chr CHR ''o'')),
    (0x19, Shift_caps_ctl 0x10 (chr CHR ''P'') (chr CHR ''p'')),
    (0x1A, Shift_caps_ctl 0x1B (chr CHR ''{'') (chr CHR ''['')),
    (0x1B, Shift_caps_ctl 0x1D (chr CHR ''}'') (chr CHR '']'')), (0x1C, Plain 0x0A)]"

definition home_keys :: "(u8 \<times> key_action) list" where
  "home_keys = [
    (0x1E, Shift_caps_ctl 0x01 (chr CHR ''A'') (chr CHR ''a'')),
    (0x1F, Shift_caps_ctl 0x13 (chr CHR ''S'') (chr CHR ''s'')),
    (0x20, Shift_caps_ctl 0x04 (chr CHR ''D'') (chr CHR ''d'')),
    (0x21, Shift_caps_ctl 0x06 (chr CHR ''F'') (chr CHR ''f'')),
    (0x22, Shift_caps_ctl 0x07 (chr CHR ''G'') (chr CHR ''g'')),
    (0x23, Shift_caps_ctl 0x08 (chr CHR ''H'') (chr CHR ''h'')),
    (0x24, Shift_caps_ctl 0x0A (chr CHR ''J'') (chr CHR ''j'')),
    (0x25, Shift_caps_ctl 0x0B (chr CHR ''K'') (chr CHR ''k'')),
    (0x26, Shift_caps_ctl 0x0C (chr CHR ''L'') (chr CHR ''l'')),
    (0x27, Shift (chr CHR '':'') (chr CHR '';'')), (0x28, Shift 0x22 0x27),
    (0x29, Shift (chr CHR ''~'') 0x60)]"

definition lower_keys :: "(u8 \<times> key_action) list" where
  "lower_keys = [
    (0x2B, Shift_ctl 0x1C (chr CHR ''|'') 0x5C),
    (0x2C, Shift_caps_ctl 0x1A (chr CHR ''Z'') (chr CHR ''z'')),
    (0x2D, Shift_caps_ctl 0x18 (chr CHR ''X'') (chr CHR ''x'')),
    (0x2E, Shift_caps_ctl 0x03 (chr CHR ''C'') (chr CHR ''c'')),
    (0x2F, Shift_caps_ctl 0x16 (chr CHR ''V'') (chr CHR ''v'')),
    (0x30, Shift_caps_ctl 0x02 (chr CHR ''B'') (chr CHR ''b'')),
    (0x31, Shift_caps_ctl 0x0E (chr CHR ''N'') (chr CHR ''n'')),
    (0x32, Shift_caps_ctl 0x0D (chr CHR ''M'') (chr CHR ''m'')),
    (0x33, Shift (chr CHR ''<'') (chr CHR '','')), (0x34, Shift (chr CHR ''>'') (chr CHR ''.'')),
    (0x35, Shift (chr CHR ''?'') (chr CHR ''/'')), (0x37, Numpad (chr CHR ''*'')),
    (0x39, Plain (chr CHR '' ''))]"

definition function_keys :: "(u8 \<times> key_action) list" where
  "function_keys = [
    (0x3B, Plain (khe KHE_F1)), (0x3C, Plain (khe KHE_F2)), (0x3D, Plain (khe KHE_F3)),
    (0x3E, Plain (khe KHE_F4)), (0x3F, Plain (khe KHE_F5)), (0x40, Plain (khe KHE_F6)),
    (0x41, Plain (khe KHE_F7)), (0x42, Plain (khe KHE_F8)), (0x43, Plain (khe KHE_F9)),
    (0x44, Plain (khe KHE_F10)), (0x57, Plain (khe KHE_F11)), (0x58, Plain (khe KHE_F12))]"

definition numpad_keys :: "(u8 \<times> key_action) list" where
  "numpad_keys = [
    (0x47, Numpad (chr CHR ''7'')), (0x48, Numpad (chr CHR ''8'')), (0x49, Numpad (chr CHR ''9'')),
    (0x4A, Numpad (chr CHR ''-'')), (0x4B, Numpad (chr CHR ''4'')), (0x4C, Numpad (chr CHR ''5'')),
    (0x4D, Numpad (chr CHR ''6'')), (0x4E, Numpad (chr CHR ''+'')), (0x4F, Numpad (chr CHR ''1'')),
    (0x50, Numpad (chr CHR ''2'')), (0x51, Numpad (chr CHR ''3'')), (0x52, Numpad (chr CHR ''0'')),
    (0x53, Numpad (chr CHR ''.''))]"

definition simple_keys :: "u8 \<Rightarrow> key_action option" where
  "simple_keys = map_of (number_keys @ upper_keys @ home_keys @ lower_keys @ function_keys @ numpad_keys)"

definition KHS_SHIFT_CORE :: "keyhelp \<Rightarrow> bool" where
  "KHS_SHIFT_CORE k \<longleftrightarrow> key_state k AND (KH_LSHIFT_KEY OR KH_RSHIFT_KEY) \<noteq> 0"

definition KHS_CTL_CORE :: "keyhelp \<Rightarrow> bool" where
  "KHS_CTL_CORE k \<longleftrightarrow> key_state k AND (KH_LCONTROL_KEY OR KH_RCONTROL_KEY) \<noteq> 0"

definition KHS_SHIFT :: "keyhelp \<Rightarrow> u8 \<Rightarrow> u8 \<Rightarrow> u8" where
  "KHS_SHIFT k s u = (if KHS_SHIFT_CORE k then s else u)"

definition KHS_SHIFTCTL :: "keyhelp \<Rightarrow> u8 \<Rightarrow> u8 \<Rightarrow> u8 \<Rightarrow> u8" where
  "KHS_SHIFTCTL k cc s u = (if KHS_CTL_CORE k then cc else KHS_SHIFT k s u)"

definition caps_lock :: "keyhelp \<Rightarrow> bool" where
  "caps_lock k \<longleftrightarrow> key_state k AND KH_CAPS_LOCK \<noteq> 0"

definition KHS_SHIFTCAPSCTL :: "keyhelp \<Rightarrow> u8 \<Rightarrow> u8 \<Rightarrow> u8 \<Rightarrow> u8" where
  "KHS_SHIFTCAPSCTL k cc s u =
     (if KHS_CTL_CORE k then cc
      else if (KHS_SHIFT_CORE k \<or> caps_lock k) \<and> \<not> (KHS_SHIFT_CORE k \<and> caps_lock k) then s else u)"

text \<open>The translated and the raw character of a key and whether it is on the numeric pad.\<close>

fun key_codes :: "keyhelp \<Rightarrow> key_action \<Rightarrow> u8 \<times> u8 \<times> bool" where
  "key_codes k (Plain c) = (c, c, False)"
| "key_codes k (Shift s u) = (KHS_SHIFT k s u, u, False)"
| "key_codes k (Shift_ctl cc s u) = (KHS_SHIFTCTL k cc s u, u, False)"
| "key_codes k (Shift_caps_ctl cc s u) = (KHS_SHIFTCAPSCTL k cc s u, u, False)"
| "key_codes k (Numpad c) = (c, c, True)"

section \<open>Scancodes\<close>

definition kh_result :: "u8 \<times> u8 \<times> bool \<Rightarrow> u32" where
  "kh_result r = (case r of (code, rcode, numpad) \<Rightarrow>
     let hasdata = rcode \<noteq> khe KHE_UNDEFINED \<and> code \<noteq> khe KHE_UNDEFINED
     in (if numpad then push_bit KH_RMODS_SHIFT KH_RESULT_NUMPAD else 0)
        OR (if hasdata then push_bit KH_RMODS_SHIFT KH_RESULT_HASDATA else 0)
        OR push_bit KH_CHAR_SHIFT (ucast (if hasdata then code else 0))
        OR push_bit KH_RAWCHAR_SHIFT (ucast rcode)
        OR push_bit KH_RMODS_SHIFT KH_RESULT_HASRAW)"

text \<open>A modifier key has a raw code only.\<close>

definition modifier_result :: "kh_extended \<Rightarrow> u32" where
  "modifier_result e = kh_result (khe KHE_UNDEFINED, khe e, False)"

definition hold :: "u16 \<Rightarrow> bool \<Rightarrow> keyhelp \<Rightarrow> keyhelp" where
  "hold m pressed k = k\<lparr>key_state := (if pressed then key_state k OR m else key_state k AND NOT m)\<rparr>"

definition toggle :: "u16 \<Rightarrow> bool \<Rightarrow> keyhelp \<Rightarrow> keyhelp" where
  "toggle m pressed k = (if pressed then k\<lparr>key_state := (if key_state k AND m \<noteq> 0
       then key_state k AND NOT m else key_state k OR m)\<rparr> else k)"

definition scanning :: "u16 \<Rightarrow> keyhelp \<Rightarrow> bool" where
  "scanning m k \<longleftrightarrow> key_internal_state k AND m \<noteq> 0"

definition start_scan :: "u16 \<Rightarrow> keyhelp \<Rightarrow> keyhelp" where
  "start_scan m k = k\<lparr>key_internal_state := key_internal_state k OR m\<rparr>"

definition stop_scan :: "u16 \<Rightarrow> keyhelp \<Rightarrow> keyhelp" where
  "stop_scan m k = k\<lparr>key_internal_state := key_internal_state k AND NOT m\<rparr>"

definition next_stage :: "keyhelp \<Rightarrow> keyhelp" where
  "next_stage k = k\<lparr>key_sequence := key_sequence k + 1\<rparr>"

definition abort_pause :: "keyhelp \<Rightarrow> keyhelp" where
  "abort_pause k = (stop_scan KH_PAUSE_SCAN k)\<lparr>key_sequence := 0\<rparr>"

text \<open>The keys that take part in the pause sequence: control, num lock and the prefix itself.\<close>

definition lctl_scan :: "bool \<Rightarrow> keyhelp \<Rightarrow> u32 \<times> keyhelp" where
  "lctl_scan pressed k =
     (if scanning KH_PAUSE_SCAN k \<and> key_sequence k = 0 then (0, next_stage k)
      else (modifier_result KHE_LCTL, hold KH_LCONTROL_KEY pressed (abort_pause k)))"

definition numlock_scan :: "bool \<Rightarrow> keyhelp \<Rightarrow> u32 \<times> keyhelp" where
  "numlock_scan pressed k =
     (if scanning KH_PAUSE_SCAN k \<and> key_sequence k = 1 then (0, next_stage k)
      else (modifier_result KHE_NUMLOCK, toggle KH_NUM_LOCK pressed (abort_pause k)))"

definition pause_scan :: "keyhelp \<Rightarrow> u32 \<times> keyhelp" where
  "pause_scan k =
     (if \<not> scanning KH_PAUSE_SCAN k then (0, (start_scan KH_PAUSE_SCAN k)\<lparr>key_sequence := 0\<rparr>)
      else if key_sequence k = 2 then (0, next_stage k)
      else (modifier_result KHE_UNDEFINED, abort_pause k))"

definition process_simple_scan :: "u8 \<Rightarrow> bool \<Rightarrow> keyhelp \<Rightarrow> u32 \<times> keyhelp" where
  "process_simple_scan scancode pressed k =
     (let c = scancode AND 0x7F
      in case simple_keys c of
        Some a \<Rightarrow> (kh_result (key_codes k a), k)
      | None \<Rightarrow>
          if c = 0x1D then lctl_scan pressed k
          else if c = 0x2A then (modifier_result KHE_LSHIFT, hold KH_LSHIFT_KEY pressed k)
          else if c = 0x36 then (modifier_result KHE_RSHIFT, hold KH_RSHIFT_KEY pressed k)
          else if c = 0x38 then (modifier_result KHE_LALT, hold KH_LALT_KEY pressed k)
          else if c = 0x3A then (modifier_result KHE_CAPSLOCK, toggle KH_CAPS_LOCK pressed k)
          else if c = 0x45 then numlock_scan pressed k
          else if c = 0x61 then pause_scan k
          else (modifier_result KHE_UNDEFINED, k))"

definition extended_keys :: "u8 \<Rightarrow> key_action option" where
  "extended_keys = map_of [
     (0x1C, Numpad 0x0A), (0x35, Numpad (chr CHR ''/'')), (0x48, Plain (khe KHE_ARROW_UP)),
     (0x4B, Plain (khe KHE_ARROW_LEFT)), (0x4D, Plain (khe KHE_ARROW_RIGHT)),
     (0x50, Plain (khe KHE_ARROW_DOWN)), (0x53, Plain 0x7F)]"

definition process_extended_scan :: "u8 \<Rightarrow> bool \<Rightarrow> keyhelp \<Rightarrow> u32 \<times> keyhelp" where
  "process_extended_scan keypress pressed k =
     (let c = keypress AND 0x7F; fin = stop_scan KH_EXTENDED_SCAN;
          print_screen = key_codes k (Plain (khe KHE_PRINT_SCREEN))
      in case extended_keys c of
        Some a \<Rightarrow> (kh_result (key_codes k a), fin k)
      | None \<Rightarrow>
          if c = 0x1D then (modifier_result KHE_RCTL, fin (hold KH_RCONTROL_KEY pressed k))
          else if c = 0x2A then
            if scanning KH_PRSCR_UP_SCAN k then (kh_result print_screen, fin (stop_scan KH_PRSCR_UP_SCAN k))
            else (0, fin (start_scan KH_PRSCR_DOWN_SCAN k))
          else if c = 0x37 then
            if scanning KH_PRSCR_DOWN_SCAN k then (kh_result print_screen, fin (stop_scan KH_PRSCR_DOWN_SCAN k))
            else (0, fin (start_scan KH_PRSCR_UP_SCAN k))
          else if c = 0x38 then (modifier_result KHE_RALT, fin (hold KH_RALT_KEY pressed k))
          else (modifier_result KHE_UNDEFINED, fin k))"

definition state_bits :: "keyhelp \<Rightarrow> u32" where
  "state_bits k = push_bit KH_STATE_SHIFT (ucast (key_state k AND KH_STATE_SMASK))"

definition finish_scan :: "bool \<Rightarrow> u32 \<times> keyhelp \<Rightarrow> u32 \<times> keyhelp" where
  "finish_scan pressed r = (case r of (res, k) \<Rightarrow>
     (res OR (if pressed then push_bit KH_RMODS_SHIFT KH_RESULT_MAKE else 0) OR state_bits k, k))"

definition deflt :: "u8 \<Rightarrow> bool \<Rightarrow> keyhelp \<Rightarrow> u32 \<times> keyhelp" where
  "deflt keycode pressed k = finish_scan pressed
     (process_simple_scan keycode pressed (stop_scan (KH_PRSCR_UP_SCAN OR KH_PRSCR_DOWN_SCAN) k))"

definition process_scancode :: "u8 \<Rightarrow> keyhelp \<Rightarrow> u32 \<times> keyhelp" where
  "process_scancode keypress k =
     (let pressed = (keypress AND 0x80 = 0); keycode = keypress AND 0x7F
      in if scanning KH_EXTENDED_SCAN k then finish_scan pressed (process_extended_scan keycode pressed k)
      else if keypress = 0x9D then
        if scanning KH_PAUSE_SCAN k \<and> key_sequence k = 3 then (0, next_stage k)
        else deflt keycode pressed (abort_pause k)
      else if keypress = 0xC5 then
        if scanning KH_PAUSE_SCAN k \<and> key_sequence k = 4 then
          finish_scan pressed
            (push_bit KH_CHAR_SHIFT (ucast (khe KHE_PAUSE)) OR push_bit KH_RAWCHAR_SHIFT (ucast (khe KHE_PAUSE))
               OR push_bit KH_RMODS_SHIFT KH_RESULT_HASDATA, stop_scan KH_PAUSE_SCAN k)
        else deflt keycode pressed (abort_pause k)
      else if keypress = 0xE0 then (push_bit KH_STATE_SHIFT (ucast (key_state k)), start_scan KH_EXTENDED_SCAN k)
      else deflt keycode pressed k)"

section \<open>Properties\<close>

lemma kh_fields:
  "KH_HASDATA r \<longleftrightarrow> bit r 18" "KH_ISMAKE r \<longleftrightarrow> bit r 16" "KH_GETCHAR r = take_bit 8 r"
proof -
  have "x AND 4 = 0 \<longleftrightarrow> \<not> bit x 2" "x AND 1 = 0 \<longleftrightarrow> \<not> bit x 0" for x :: u32
    using and_exp_eq_0_iff_not_bit [of x 2] and_exp_eq_0_iff_not_bit [of x 0] by simp_all
  then show "KH_HASDATA r \<longleftrightarrow> bit r 18" "KH_ISMAKE r \<longleftrightarrow> bit r 16"
    by (simp_all add: KH_HASDATA_def KH_ISMAKE_def bit_drop_bit_eq)
  show "KH_GETCHAR r = take_bit 8 r"
    by (simp add: KH_GETCHAR_def take_bit_eq_mask mask_eq_exp_minus_1)
qed

lemma scan_data:
  assumes "code \<noteq> 0x80" "rcode \<noteq> 0x80"
    and r: "r = kh_result (code, rcode, np) OR ((if p then push_bit KH_RMODS_SHIFT KH_RESULT_MAKE else 0)
      OR state_bits k)"
  shows "KH_HASDATA r \<and> (KH_ISMAKE r \<longleftrightarrow> p) \<and> KH_GETCHAR r = ucast code"
proof -
  have *: "r = (if np then 0x20000 else 0) OR 0x40000 OR ucast code OR push_bit 8 (ucast rcode) OR 0x80000
      OR (if p then 0x10000 else 0) OR push_bit 16 (ucast (key_state k AND 0xFF00))"
    unfolding r using assms(1,2) by (simp add: kh_result_def state_bits_def or.assoc)
  have "bit r 18" unfolding * by (simp add: bit_or_iff)
  moreover have "bit r 16 \<longleftrightarrow> p"
    unfolding * by (auto simp: bit_or_iff bit_and_iff bit_push_bit_iff bit_ucast_iff dest: bit_imp_le_length)
  moreover have "take_bit 8 r = ucast code"
  proof -
    have "take_bit 8 (ucast c :: u32) = ucast c" for c :: u8
      by (rule bit_word_eqI) (auto simp: bit_simps dest: bit_imp_le_length)
    then show ?thesis unfolding * by (simp add: take_bit_or take_bit_push_bit)
  qed
  ultimately show ?thesis by (simp add: kh_fields)
qed

lemmas key_tables = number_keys_def upper_keys_def home_keys_def lower_keys_def function_keys_def numpad_keys_def

lemma simple_keys_member:
  assumes "e \<in> set (number_keys @ upper_keys @ home_keys @ lower_keys @ function_keys @ numpad_keys)"
  shows "simple_keys (fst e) = Some (snd e)"
proof -
  have "distinct (map fst (number_keys @ upper_keys @ home_keys @ lower_keys @ function_keys @ numpad_keys))"
    by (simp add: key_tables)
  then show ?thesis
    unfolding simple_keys_def using assms by (intro map_of_is_SomeI) simp_all
qed

text \<open>Where the letters are.\<close>

definition letter_keys :: "(u8 \<times> u8) list" where
  "letter_keys = [
     (0x61, 0x1E), (0x62, 0x30), (0x63, 0x2E), (0x64, 0x20), (0x65, 0x12), (0x66, 0x21), (0x67, 0x22),
     (0x68, 0x23), (0x69, 0x17), (0x6A, 0x24), (0x6B, 0x25), (0x6C, 0x26), (0x6D, 0x32), (0x6E, 0x31),
     (0x6F, 0x18), (0x70, 0x19), (0x71, 0x10), (0x72, 0x13), (0x73, 0x1F), (0x74, 0x14), (0x75, 0x16),
     (0x76, 0x2F), (0x77, 0x11), (0x78, 0x2D), (0x79, 0x15), (0x7A, 0x2C)]"

lemma letter_keys_found:
  "list_all (\<lambda>(u, sc). sc < 0x80 \<and> sc \<notin> {0x1D, 0x45, 0x60} \<and> u \<noteq> 0x80 \<and> u - 0x20 \<noteq> 0x80 \<and> u AND 0x1F \<noteq> 0x80
     \<and> (sc, Shift_caps_ctl (u AND 0x1F) (u - 0x20) u) \<in> set (upper_keys @ home_keys @ lower_keys)) letter_keys"
  by (simp add: letter_keys_def upper_keys_def home_keys_def lower_keys_def chr_def)

lemma letter_in_keys:
  assumes "0x61 \<le> u" "u \<le> 0x7A"
  shows "u \<in> fst ` set letter_keys"
proof -
  have u: "u = word_of_nat (unat u)" by simp
  have "unat u \<in> set [0x61..<0x7B]"
    using assms unfolding set_upt atLeastLessThan_iff by (simp add: word_le_nat_alt)
  then have "u \<in> word_of_nat ` set [0x61..<0x7B]" using u by (metis imageI)
  also have "word_of_nat ` set [0x61..<0x7B] = fst ` set letter_keys"
    by (simp add: letter_keys_def upt_rec_numeral del: set_upt)
  finally show ?thesis .
qed

lemma letter_key:
  assumes "0x61 \<le> u" "u \<le> 0x7A"
  shows "\<exists>sc. sc < 0x80 \<and> sc \<notin> {0x1D, 0x45, 0x60} \<and> u \<noteq> 0x80 \<and> u - 0x20 \<noteq> 0x80 \<and> u AND 0x1F \<noteq> 0x80
     \<and> simple_keys sc = Some (Shift_caps_ctl (u AND 0x1F) (u - 0x20) u)"
proof -
  obtain sc where sc: "(u, sc) \<in> set letter_keys" using letter_in_keys [OF assms] by auto
  then have *: "sc < 0x80 \<and> sc \<notin> {0x1D, 0x45, 0x60} \<and> u \<noteq> 0x80 \<and> u - 0x20 \<noteq> 0x80 \<and> u AND 0x1F \<noteq> 0x80
     \<and> (sc, Shift_caps_ctl (u AND 0x1F) (u - 0x20) u) \<in> set (upper_keys @ home_keys @ lower_keys)"
    using letter_keys_found by (auto simp only: list_all_iff split: prod.splits)
  then have "simple_keys sc = Some (Shift_caps_ctl (u AND 0x1F) (u - 0x20) u)"
    using simple_keys_member [of "(sc, Shift_caps_ctl (u AND 0x1F) (u - 0x20) u)"] by auto
  then show ?thesis using * by blast
qed

lemma scancode_bits:
  assumes "sc < (0x80 :: u8)"
  shows "sc AND 0x7F = sc" "(sc OR 0x80) AND 0x7F = sc" "sc AND 0x80 = 0" "(sc OR 0x80) AND 0x80 \<noteq> 0"
    and "sc OR 0x80 = x \<Longrightarrow> sc = x AND 0x7F"
proof -
  have low: "y AND 0x7F = y" if "y < 0x80" for y :: u8
  proof -
    have "unat (y AND mask 7) = unat y" using that by (simp add: unat_and_mask word_less_nat_alt)
    then show ?thesis by (simp add: word_unat_eq_iff mask_eq_exp_minus_1)
  qed
  have split: "(y OR 0x80) AND 0x7F = y AND 0x7F" for y :: u8
    by (simp add: bit.conj_disj_distrib2)
  show "sc AND 0x7F = sc" "(sc OR 0x80) AND 0x7F = sc" using low [OF assms] split by simp_all
  have "sc AND 0x80 = (sc AND 0x7F) AND 0x80" using low [OF assms] by simp
  also have "\<dots> = 0" by (simp add: and.assoc)
  finally show "sc AND 0x80 = 0" .
  show "(sc OR 0x80) AND 0x80 \<noteq> 0" by (simp add: bit.conj_disj_distrib2 \<open>sc AND 0x80 = 0\<close>)
  show "sc = x AND 0x7F" if "sc OR 0x80 = x" using that split [of sc] low [OF assms] by simp
qed



fun scan_all :: "u8 list \<Rightarrow> keyhelp \<Rightarrow> u32 list \<times> keyhelp" where
  "scan_all [] k = ([], k)"
| "scan_all (c # cs) k = (let (r, k') = process_scancode c k; (rs, k'') = scan_all cs k' in (r # rs, k''))"

lemma scanning_bits:
  "scanning KH_EXTENDED_SCAN k \<longleftrightarrow> bit (key_internal_state k) 0"
  "scanning KH_PAUSE_SCAN k \<longleftrightarrow> bit (key_internal_state k) 1"
  using and_exp_eq_0_iff_not_bit [of "key_internal_state k" 0] and_exp_eq_0_iff_not_bit [of "key_internal_state k" 1]
  by (simp_all add: scanning_def)

lemma scan_state_simps:
  "scanning KH_PAUSE_SCAN (start_scan KH_PAUSE_SCAN k)"
  "scanning KH_EXTENDED_SCAN (start_scan KH_PAUSE_SCAN k) = scanning KH_EXTENDED_SCAN k"
  "scanning m (next_stage k) = scanning m k" "scanning m (key_sequence_update f k) = scanning m k"
  "\<not> scanning KH_PAUSE_SCAN (stop_scan KH_PAUSE_SCAN k)"
  "scanning KH_EXTENDED_SCAN (stop_scan KH_PAUSE_SCAN k) = scanning KH_EXTENDED_SCAN k"
  "scanning KH_EXTENDED_SCAN (stop_scan 12 k) = scanning KH_EXTENDED_SCAN k"
  "scanning KH_PAUSE_SCAN (stop_scan 12 k) = scanning KH_PAUSE_SCAN k"
  unfolding scanning_bits
  by (simp_all add: start_scan_def stop_scan_def next_stage_def scanning_def bit_or_iff bit_and_iff bit_not_iff)

lemma scan_sequence_simps:
  "key_sequence (next_stage k) = key_sequence k + 1" "key_state (next_stage k) = key_state k"
  "key_sequence (stop_scan m k) = key_sequence k" "key_state (stop_scan m k) = key_state k"
  "key_sequence (start_scan m k) = key_sequence k" "key_state (start_scan m k) = key_state k"
  by (simp_all add: next_stage_def stop_scan_def start_scan_def)

lemma prefix_keys: "simple_keys 0x1D = None" "simple_keys 0x45 = None" "simple_keys 0x61 = None"
  by (simp_all add: simple_keys_def key_tables)

lemma pause_stages:
  assumes "\<not> scanning KH_EXTENDED_SCAN k"
  shows "\<not> scanning KH_PAUSE_SCAN k \<Longrightarrow> \<exists>k'. process_scancode 0xE1 k = (state_bits k, k')
      \<and> \<not> scanning KH_EXTENDED_SCAN k' \<and> scanning KH_PAUSE_SCAN k' \<and> key_sequence k' = 0 \<and> key_state k' = key_state k"
    and "scanning KH_PAUSE_SCAN k \<Longrightarrow> key_sequence k = 0 \<Longrightarrow>
      \<exists>k'. process_scancode 0x1D k = (push_bit KH_RMODS_SHIFT KH_RESULT_MAKE OR state_bits k, k')
      \<and> \<not> scanning KH_EXTENDED_SCAN k' \<and> scanning KH_PAUSE_SCAN k' \<and> key_sequence k' = 1 \<and> key_state k' = key_state k"
    and "scanning KH_PAUSE_SCAN k \<Longrightarrow> key_sequence k = 1 \<Longrightarrow>
      \<exists>k'. process_scancode 0x45 k = (push_bit KH_RMODS_SHIFT KH_RESULT_MAKE OR state_bits k, k')
      \<and> \<not> scanning KH_EXTENDED_SCAN k' \<and> scanning KH_PAUSE_SCAN k' \<and> key_sequence k' = 2 \<and> key_state k' = key_state k"
    and "scanning KH_PAUSE_SCAN k \<Longrightarrow> key_sequence k = 2 \<Longrightarrow>
      \<exists>k'. process_scancode 0xE1 k = (state_bits k, k')
      \<and> \<not> scanning KH_EXTENDED_SCAN k' \<and> scanning KH_PAUSE_SCAN k' \<and> key_sequence k' = 3 \<and> key_state k' = key_state k"
    and "scanning KH_PAUSE_SCAN k \<Longrightarrow> key_sequence k = 3 \<Longrightarrow>
      \<exists>k'. process_scancode 0x9D k = (0, k')
      \<and> \<not> scanning KH_EXTENDED_SCAN k' \<and> scanning KH_PAUSE_SCAN k' \<and> key_sequence k' = 4 \<and> key_state k' = key_state k"
    and "scanning KH_PAUSE_SCAN k \<Longrightarrow> key_sequence k = 4 \<Longrightarrow>
      \<exists>k'. process_scancode 0xC5 k = ((push_bit KH_CHAR_SHIFT (ucast (khe KHE_PAUSE)) OR push_bit KH_RAWCHAR_SHIFT (ucast (khe KHE_PAUSE))
        OR push_bit KH_RMODS_SHIFT KH_RESULT_HASDATA) OR state_bits k, k')
      \<and> \<not> scanning KH_EXTENDED_SCAN k' \<and> \<not> scanning KH_PAUSE_SCAN k' \<and> key_state k' = key_state k"
  using assms
  by (simp_all add: process_scancode_def deflt_def process_simple_scan_def prefix_keys finish_scan_def state_bits_def
      lctl_scan_def numlock_scan_def pause_scan_def scan_state_simps scan_sequence_simps)

lemma pause_fields:
  "\<not> KH_HASDATA (state_bits k)"
  "\<not> KH_HASDATA (push_bit KH_RMODS_SHIFT KH_RESULT_MAKE OR state_bits k)"
  "\<not> KH_HASDATA 0"
  "KH_HASDATA ((push_bit KH_CHAR_SHIFT (ucast (khe KHE_PAUSE)) OR push_bit KH_RAWCHAR_SHIFT (ucast (khe KHE_PAUSE))
        OR push_bit KH_RMODS_SHIFT KH_RESULT_HASDATA) OR state_bits k)"
  "KH_GETCHAR ((push_bit KH_CHAR_SHIFT (ucast (khe KHE_PAUSE)) OR push_bit KH_RAWCHAR_SHIFT (ucast (khe KHE_PAUSE))
        OR push_bit KH_RMODS_SHIFT KH_RESULT_HASDATA) OR state_bits k) = ucast (khe KHE_PAUSE)"
  by (simp_all add: kh_fields state_bits_def bit_or_iff bit_and_iff bit_push_bit_iff bit_ucast_iff
      take_bit_or take_bit_push_bit)

text \<open>
  The pause key.  Its six bytes are recognised from every state outside a multi-byte sequence: the
  first five give no character, the last one gives the pause code, and neither the control nor the num
  lock state changes although the sequence contains their scancodes.
\<close>

lemma pause_sequence_recognised:
  assumes "\<not> scanning KH_EXTENDED_SCAN k" "\<not> scanning KH_PAUSE_SCAN k"
  shows "\<exists>rs r k'. scan_all [0xE1, 0x1D, 0x45, 0xE1, 0x9D, 0xC5] k = (rs @ [r], k') \<and> list_all (Not \<circ> KH_HASDATA) rs
    \<and> KH_HASDATA r \<and> KH_GETCHAR r = ucast (khe KHE_PAUSE) \<and> key_state k' = key_state k
    \<and> \<not> scanning KH_EXTENDED_SCAN k' \<and> \<not> scanning KH_PAUSE_SCAN k'"
proof -
  obtain k1 where k1: "process_scancode 0xE1 k = (state_bits k, k1)" "\<not> scanning KH_EXTENDED_SCAN k1"
    "scanning KH_PAUSE_SCAN k1" "key_sequence k1 = 0" "key_state k1 = key_state k"
    using pause_stages(1) [OF assms] by blast
  obtain k2 where k2: "process_scancode 0x1D k1 = (push_bit KH_RMODS_SHIFT KH_RESULT_MAKE OR state_bits k1, k2)"
    "\<not> scanning KH_EXTENDED_SCAN k2" "scanning KH_PAUSE_SCAN k2" "key_sequence k2 = 1" "key_state k2 = key_state k1"
    using pause_stages(2) [OF k1(2-4)] by blast
  obtain k3 where k3: "process_scancode 0x45 k2 = (push_bit KH_RMODS_SHIFT KH_RESULT_MAKE OR state_bits k2, k3)"
    "\<not> scanning KH_EXTENDED_SCAN k3" "scanning KH_PAUSE_SCAN k3" "key_sequence k3 = 2" "key_state k3 = key_state k2"
    using pause_stages(3) [OF k2(2-4)] by blast
  obtain k4 where k4: "process_scancode 0xE1 k3 = (state_bits k3, k4)" "\<not> scanning KH_EXTENDED_SCAN k4"
    "scanning KH_PAUSE_SCAN k4" "key_sequence k4 = 3" "key_state k4 = key_state k3"
    using pause_stages(4) [OF k3(2-4)] by blast
  obtain k5 where k5: "process_scancode 0x9D k4 = (0, k5)" "\<not> scanning KH_EXTENDED_SCAN k5"
    "scanning KH_PAUSE_SCAN k5" "key_sequence k5 = 4" "key_state k5 = key_state k4"
    using pause_stages(5) [OF k4(2-4)] by blast
  obtain k6 r where k6: "process_scancode 0xC5 k5 = (r, k6)" "KH_HASDATA r" "KH_GETCHAR r = ucast (khe KHE_PAUSE)"
    "\<not> scanning KH_EXTENDED_SCAN k6" "\<not> scanning KH_PAUSE_SCAN k6" "key_state k6 = key_state k5"
    using pause_stages(6) [OF k5(2-4)] pause_fields(4,5) [of k5] by blast
  have "scan_all [0xE1, 0x1D, 0x45, 0xE1, 0x9D, 0xC5] k =
    ([state_bits k, push_bit KH_RMODS_SHIFT KH_RESULT_MAKE OR state_bits k1,
      push_bit KH_RMODS_SHIFT KH_RESULT_MAKE OR state_bits k2, state_bits k3, 0] @ [r], k6)"
    by (simp add: k1(1) k2(1) k3(1) k4(1) k5(1) k6(1))
  moreover have "key_state k6 = key_state k" using k1(5) k2(5) k3(5) k4(5) k5(5) k6(6) by simp
  moreover have "list_all (Not \<circ> KH_HASDATA) [state_bits k, push_bit KH_RMODS_SHIFT KH_RESULT_MAKE OR state_bits k1,
      push_bit KH_RMODS_SHIFT KH_RESULT_MAKE OR state_bits k2, state_bits k3, 0]"
    using pause_fields(1,3) pause_fields(2) [of k1] pause_fields(2) [of k2] by simp
  ultimately show ?thesis using k6(2-5) by blast
qed

end
