(* ===== verification/Device.thy ===== *)
theory Device
  imports Lifecycle Keyhelp
begin

text \<open>
  The state of the device drivers and the interrupt controller, \<^verbatim>\<open>410kern/x86/pic.c\<close> and
  \<^verbatim>\<open>410kern/x86/interrupts.c\<close>.  What is written to the I/O ports is recorded in \<open>port_log\<close>, the oldest
  write first.  \<open>stack_junk\<close> is what an uninitialised local variable holds.
\<close>

section \<open>State\<close>

text \<open>The only function ever passed to \<^verbatim>\<open>initialize_timer\<close>.\<close>

datatype callback_fn = Tickback

record dstate = mstate +
  cursor_row :: int
  cursor_col :: int
  console_color :: u8
  empty_char :: "u8 \<times> u8"
  key_buf :: "int \<Rightarrow> int"
  start_ptr :: int
  end_ptr :: int
  newline_ptr :: int
  keyhelp_state :: keyhelp
  timer_callback :: "callback_fn option"
  idt_base :: u32
  stack_junk :: u32
  port_log :: "(u32 \<times> u8) list"

definition outb :: "u32 \<Rightarrow> u8 \<Rightarrow> 'a dstate_scheme \<Rightarrow> 'a dstate_scheme" where
  "outb port b s = s\<lparr>port_log := port_log s @ [(port, b)]\<rparr>"

definition outbs :: "(u32 \<times> u8) list \<Rightarrow> 'a dstate_scheme \<Rightarrow> 'a dstate_scheme" where
  "outbs = fold (\<lambda>(port, b). outb port b)"

lemma outbs_log [simp]: "outbs ws s = s\<lparr>port_log := port_log s @ ws\<rparr>"
  by (induction ws arbitrary: s) (auto simp: outbs_def outb_def)

section \<open>The interrupt controller\<close>

abbreviation (input) MASTER_ICW :: u32 where "MASTER_ICW \<equiv> 0x20"
abbreviation (input) MASTER_OCW :: u32 where "MASTER_OCW \<equiv> 0x21"
abbreviation (input) SLAVE_ICW :: u32 where "SLAVE_ICW \<equiv> 0xA0"
abbreviation (input) SLAVE_OCW :: u32 where "SLAVE_OCW \<equiv> 0xA1"
abbreviation (input) PICM_ICW1 :: u8 where "PICM_ICW1 \<equiv> 0x11"
abbreviation (input) PICM_ICW3 :: u8 where "PICM_ICW3 \<equiv> 0x04"
abbreviation (input) PICM_ICW4 :: u8 where "PICM_ICW4 \<equiv> 0x01"
abbreviation (input) PICS_ICW1 :: u8 where "PICS_ICW1 \<equiv> 0x11"
abbreviation (input) PICS_ICW3 :: u8 where "PICS_ICW3 \<equiv> 0x02"
abbreviation (input) PICS_ICW4 :: u8 where "PICS_ICW4 \<equiv> 0x01"
abbreviation (input) NON_SPEC_EOI :: u8 where "NON_SPEC_EOI \<equiv> 0x20"
abbreviation (input) SPECIFIC_EOI :: u8 where "SPECIFIC_EOI \<equiv> 0x60"
abbreviation (input) X86_PIC_MASTER_IRQ_BASE :: u8 where "X86_PIC_MASTER_IRQ_BASE \<equiv> 0x20"
abbreviation (input) X86_PIC_SLAVE_IRQ_BASE :: u8 where "X86_PIC_SLAVE_IRQ_BASE \<equiv> 0x28"

definition pic_init :: "u8 \<Rightarrow> u8 \<Rightarrow> 'a dstate_scheme \<Rightarrow> 'a dstate_scheme" where
  "pic_init master_base slave_base = outbs
     [(MASTER_ICW, PICM_ICW1), (MASTER_OCW, master_base), (MASTER_OCW, PICM_ICW3), (MASTER_OCW, PICM_ICW4),
      (SLAVE_ICW, PICS_ICW1), (SLAVE_OCW, slave_base), (SLAVE_OCW, PICS_ICW3), (SLAVE_OCW, PICS_ICW4),
      (MASTER_ICW, NON_SPEC_EOI), (SLAVE_ICW, NON_SPEC_EOI),
      (SLAVE_OCW, 0), (MASTER_OCW, 0)]"

definition pic_acknowledge :: "u8 \<Rightarrow> 'a dstate_scheme \<Rightarrow> 'a dstate_scheme" where
  "pic_acknowledge irq =
     (if irq \<le> 7 then outb MASTER_ICW (SPECIFIC_EOI OR irq)
      else if irq \<le> 15 then outbs [(SLAVE_ICW, SPECIFIC_EOI OR (irq AND 0x07)), (MASTER_ICW, SPECIFIC_EOI OR PICS_ICW3)]
      else id)"

definition pic_acknowledge_any_master :: "'a dstate_scheme \<Rightarrow> 'a dstate_scheme" where
  "pic_acknowledge_any_master = outb MASTER_ICW NON_SPEC_EOI"

definition pic_acknowledge_any_slave :: "'a dstate_scheme \<Rightarrow> 'a dstate_scheme" where
  "pic_acknowledge_any_slave = outbs [(SLAVE_ICW, NON_SPEC_EOI), (MASTER_ICW, SPECIFIC_EOI OR PICS_ICW3)]"

definition interrupt_setup :: "'a dstate_scheme \<Rightarrow> 'a dstate_scheme" where
  "interrupt_setup = pic_init X86_PIC_MASTER_IRQ_BASE X86_PIC_SLAVE_IRQ_BASE"

definition acknowledge_interrupt :: "'a dstate_scheme \<Rightarrow> 'a dstate_scheme" where
  "acknowledge_interrupt = outb MASTER_ICW NON_SPEC_EOI"

end
