(* ===== verification/Console.thy ===== *)
theory Console
  imports Device
begin

text \<open>
  The console driver, \<^verbatim>\<open>kern/drivers/console/console.c\<close> and \<^verbatim>\<open>console_util.c\<close>: a logical cursor, the
  colour of what is printed and the video memory, two bytes for each of the 25 times 80 positions.
  The functions do not block and are modelled as functions on the state; \<open>get_cursor\<close> and
  \<open>get_term_color\<close> return what they store through their arguments.
\<close>

section \<open>Constants\<close>

abbreviation (input) CRTC_IDX_REG :: u32 where "CRTC_IDX_REG \<equiv> 0x3D4"
abbreviation (input) CRTC_DATA_REG :: u32 where "CRTC_DATA_REG \<equiv> 0x3D5"
abbreviation (input) CRTC_CURSOR_LSB_IDX :: u8 where "CRTC_CURSOR_LSB_IDX \<equiv> 15"
abbreviation (input) CRTC_CURSOR_MSB_IDX :: u8 where "CRTC_CURSOR_MSB_IDX \<equiv> 14"
definition CONSOLE_MEM_BASE :: u32 where "CONSOLE_MEM_BASE = 0xB8000"
definition CONSOLE_WIDTH :: int where "CONSOLE_WIDTH = 80"
definition CONSOLE_HEIGHT :: int where "CONSOLE_HEIGHT = 25"
abbreviation (input) FGND_WHITE :: u8 where "FGND_WHITE \<equiv> 0xF"
abbreviation (input) BGND_BLACK :: u8 where "BGND_BLACK \<equiv> 0"

definition CONSOLE_MEM_END :: u32 where
  "CONSOLE_MEM_END = CONSOLE_MEM_BASE + word_of_int (CONSOLE_HEIGHT * CONSOLE_WIDTH * 2)"

named_theorems console_consts \<open>the constants of the console\<close>

lemmas console_const_defs [console_consts] =
  CONSOLE_MEM_BASE_def
  CONSOLE_WIDTH_def CONSOLE_HEIGHT_def CONSOLE_MEM_END_def

section \<open>Utilities\<close>

definition set_logical_cursor :: "int \<Rightarrow> int \<Rightarrow> 'a dstate_scheme \<Rightarrow> 'a dstate_scheme" where
  "set_logical_cursor row col s =
     s\<lparr>cursor_row := (if row < 0 then 0 else row), cursor_col := (if col < 0 then 0 else col)\<rparr>"

definition empty_fill :: "u32 \<Rightarrow> int \<Rightarrow> 'a dstate_scheme \<Rightarrow> 'a dstate_scheme" where
  "empty_fill a num s = upd_mem (fold (\<lambda>i m.
      m(a + of_nat (i * 2) := fst (empty_char s), a + of_nat (i * 2) + 1 := snd (empty_char s))) [0..<nat num]) s"

definition set_hardware_cursor :: "int \<Rightarrow> int \<Rightarrow> 'a dstate_scheme \<Rightarrow> 'a dstate_scheme" where
  "set_hardware_cursor row col s =
     (let position = word_of_int (row * 80 + col) :: u16
      in outbs [(CRTC_IDX_REG, CRTC_CURSOR_LSB_IDX), (CRTC_DATA_REG, ucast (position AND 0xFF)),
                (CRTC_IDX_REG, CRTC_CURSOR_MSB_IDX), (CRTC_DATA_REG, ucast (drop_bit 8 position AND 0xFF))] s)"

definition is_valid_color :: "u32 \<Rightarrow> int" where
  "is_valid_color color =
     (let bg_color = sint (color AND 0xF); fg_color = sint (signed_drop_bit 4 color AND 0xF)
      in if fg_color < 0 \<or> fg_color > 0xF \<or> bg_color < 0 \<or> bg_color > 0x8 then ERR_INVAL else 0)"

definition cell :: "int \<Rightarrow> int \<Rightarrow> u32" where
  "cell row col = CONSOLE_MEM_BASE + word_of_int (2 * (row * CONSOLE_WIDTH + col))"

definition print_char :: "u8 \<Rightarrow> int \<Rightarrow> int \<Rightarrow> u8 \<Rightarrow> 'a dstate_scheme \<Rightarrow> 'a dstate_scheme" where
  "print_char ch row col color s =
     (if ch = 0x0A \<or> ch = 0x0D then s
      else upd_mem (\<lambda>m. m(cell row col := ch, cell row col + 1 := color)) s)"

definition scroll_screen :: "int \<Rightarrow> 'a dstate_scheme \<Rightarrow> 'a dstate_scheme" where
  "scroll_screen num_rows s =
     (if num_rows \<le> 0 then s
      else if num_rows \<ge> CONSOLE_HEIGHT then s
      else let offset = num_rows * CONSOLE_WIDTH * 2
        in empty_fill (CONSOLE_MEM_END - word_of_int offset) offset
          (upd_mem (memcpy CONSOLE_MEM_BASE (CONSOLE_MEM_BASE + word_of_int offset)
             (word_of_int (CONSOLE_HEIGHT * CONSOLE_WIDTH * 2 - offset))) s))"

definition is_cursor_hidden :: "'a dstate_scheme \<Rightarrow> int" where
  "is_cursor_hidden s =
     (if cursor_row s \<ge> CONSOLE_HEIGHT \<or> cursor_col s \<ge> CONSOLE_WIDTH then 0 else ERR_INVAL)"

section \<open>The driver\<close>

definition off_screen :: "int \<Rightarrow> int \<Rightarrow> bool" where
  "off_screen row col \<longleftrightarrow> row < 0 \<or> row \<ge> CONSOLE_HEIGHT \<or> col < 0 \<or> col \<ge> CONSOLE_WIDTH"

definition set_cursor :: "int \<Rightarrow> int \<Rightarrow> 'a dstate_scheme \<Rightarrow> int \<times> 'a dstate_scheme" where
  "set_cursor row col s =
     (if off_screen row col then (ERR_INVAL, s)
      else let s' = set_logical_cursor row col s
        in if is_cursor_hidden s' = 0 then (0, s') else (0, set_hardware_cursor row col s'))"

definition putbyte :: "u8 \<Rightarrow> 'a dstate_scheme \<Rightarrow> 'a dstate_scheme" where
  "putbyte ch s =
     (if ch = 0x08 then
        let s' = (if cursor_col s = 0 then set_logical_cursor (cursor_row s - 1) (CONSOLE_WIDTH - 1) s
                  else set_logical_cursor (cursor_row s) (cursor_col s - 1) s)
        in print_char 0x20 (cursor_row s') (cursor_col s') (console_color s') s'
      else
        let s1 = (if ch = 0x0A then set_logical_cursor (cursor_row s + 1) 0 s
                  else if ch = 0x0D then set_logical_cursor (cursor_row s) 0 s
                  else if cursor_col s = CONSOLE_WIDTH then set_logical_cursor (cursor_row s + 1) 0 s
                  else s);
            s2 = (if cursor_row s1 = CONSOLE_HEIGHT then
                    (let t = scroll_screen 1 s1 in set_logical_cursor (cursor_row t - 1) (cursor_col t) t)
                  else s1);
            s3 = print_char ch (cursor_row s2) (cursor_col s2) (console_color s2) s2
        in if ch \<noteq> 0x0A \<and> ch \<noteq> 0x0D \<and> ch \<noteq> 0x08
           then set_logical_cursor (cursor_row s3) (cursor_col s3 + 1) s3 else s3)"

text \<open>\<^verbatim>\<open>putbytes\<close> on the bytes of the string, which its callers read from memory.\<close>

definition putbytes :: "u8 list \<Rightarrow> 'a dstate_scheme \<Rightarrow> 'a dstate_scheme" where
  "putbytes = fold putbyte"

definition set_term_color :: "u32 \<Rightarrow> 'a dstate_scheme \<Rightarrow> int \<times> 'a dstate_scheme" where
  "set_term_color color s =
     (if is_valid_color color = - 1 then (ERR_INVAL, s) else (0, s\<lparr>console_color := ucast color\<rparr>))"

definition get_term_color :: "'a dstate_scheme \<Rightarrow> int" where
  "get_term_color s = sint (console_color s)"

definition hide_cursor :: "'a dstate_scheme \<Rightarrow> 'a dstate_scheme" where
  "hide_cursor = set_hardware_cursor (CONSOLE_HEIGHT + 1) (CONSOLE_WIDTH + 1)"

definition show_cursor :: "'a dstate_scheme \<Rightarrow> 'a dstate_scheme" where
  "show_cursor s = set_hardware_cursor (cursor_row s) (cursor_col s) s"

definition clear_console :: "'a dstate_scheme \<Rightarrow> 'a dstate_scheme" where
  "clear_console s = snd (set_cursor 0 0 (empty_fill CONSOLE_MEM_BASE (CONSOLE_HEIGHT * CONSOLE_WIDTH) s))"

definition draw_char :: "int \<Rightarrow> int \<Rightarrow> u32 \<Rightarrow> u32 \<Rightarrow> 'a dstate_scheme \<Rightarrow> 'a dstate_scheme" where
  "draw_char row col ch color s =
     (if off_screen row col \<or> is_valid_color color = - 1 then s
      else print_char (ucast ch) row col (ucast color) s)"

definition get_char :: "int \<Rightarrow> int \<Rightarrow> 'a dstate_scheme \<Rightarrow> u8" where
  "get_char row col s = (if off_screen row col then 0 else mem s (cell row col))"

definition get_color :: "int \<Rightarrow> int \<Rightarrow> 'a dstate_scheme \<Rightarrow> u8" where
  "get_color row col s = (if off_screen row col then 0 else mem s (cell row col + 1))"

definition get_cursor :: "'a dstate_scheme \<Rightarrow> int \<times> int" where
  "get_cursor s = (cursor_row s, cursor_col s)"

definition set_default_color :: "'a dstate_scheme \<Rightarrow> 'a dstate_scheme" where
  "set_default_color s =
     s\<lparr>console_color := BGND_BLACK OR FGND_WHITE, empty_char := (0x20, BGND_BLACK OR FGND_WHITE)\<rparr>"

section \<open>Video memory\<close>

lemma cell_uint:
  assumes "0 \<le> r" "r \<le> 50" "0 \<le> c" "c \<le> 100"
  shows "uint (cell r c) = 0xB8000 + 2 * (80 * r + c)" "uint (cell r c + 1) = 0xB8000 + 2 * (80 * r + c) + 1"
proof -
  have c: "cell r c = word_of_int (0xB8000 + 2 * (80 * r + c))"
    by (simp add: cell_def console_consts algebra_simps)
  show "uint (cell r c) = 0xB8000 + 2 * (80 * r + c)"
    unfolding c uint_word_of_int using assms by (subst mod_pos_pos_trivial) simp_all
  have "cell r c + 1 = word_of_int (0xB8000 + 2 * (80 * r + c) + 1)" by (simp add: c)
  then have "uint (cell r c + 1) = (0xB8000 + 2 * (80 * r + c) + 1) mod 2 ^ 32" by (simp only: uint_word_of_int) simp
  also have "\<dots> = 0xB8000 + 2 * (80 * r + c) + 1" using assms by (intro mod_pos_pos_trivial) simp_all
  finally show "uint (cell r c + 1) = 0xB8000 + 2 * (80 * r + c) + 1" .
qed

lemma fill_effect:
  fixes a b :: u32
  assumes "2 * n < 2 ^ 32"
  shows "fold (\<lambda>i m. m(a + of_nat (i * 2) := c1, a + of_nat (i * 2) + 1 := c2)) [0..<n] m b
    = (if unat (b - a) < 2 * n then if even (unat (b - a)) then c1 else c2 else m b)"
  using assms
proof (induction n)
  case (Suc n)
  let ?o = "unat (b - a)"
  have b: "b = a + x \<longleftrightarrow> b - a = x" for x by (auto simp: algebra_simps)
  have n1: "b - a = of_nat (n * 2) \<longleftrightarrow> ?o = 2 * n"
  proof -
    have "unat (of_nat (n * 2) :: u32) = 2 * n"
      using Suc.prems unfolding unat_of_nat by (subst mod_less) simp_all
    then show ?thesis unfolding word_unat_eq_iff by simp
  qed
  have n2: "b - a = of_nat (n * 2) + 1 \<longleftrightarrow> ?o = 2 * n + 1"
  proof -
    have "unat (of_nat (n * 2 + 1) :: u32) = 2 * n + 1"
      using Suc.prems unfolding unat_of_nat by (subst mod_less) simp_all
    then show ?thesis unfolding word_unat_eq_iff by (simp add: add.commute)
  qed
  have "fold (\<lambda>i m. m(a + of_nat (i * 2) := c1, a + of_nat (i * 2) + 1 := c2)) [0..<Suc n] m b
     = (if b = a + (of_nat (n * 2) + 1) then c2 else if b = a + of_nat (n * 2) then c1
        else fold (\<lambda>i m. m(a + of_nat (i * 2) := c1, a + of_nat (i * 2) + 1 := c2)) [0..<n] m b)"
    by (simp add: add.assoc)
  also have "\<dots> = (if ?o = 2 * n + 1 then c2 else if ?o = 2 * n then c1
        else if ?o < 2 * n then if even ?o then c1 else c2 else m b)"
    unfolding b n1 n2 by (subst Suc.IH) (use Suc.prems in simp_all)
  also have "\<dots> = (if ?o < 2 * Suc n then if even ?o then c1 else c2 else m b)" by (auto simp: less_Suc_eq)
  finally show ?case .
qed simp

lemma empty_fill_mem:
  assumes "2 * num < 2 ^ 32"
  shows "mem (empty_fill a num s) b = (if unat (b - a) < 2 * nat num
     then if even (unat (b - a)) then fst (empty_char s) else snd (empty_char s) else mem s b)"
  using fill_effect [of "nat num" a "fst (empty_char s)" "snd (empty_char s)" "mem s" b] assms
  by (simp add: empty_fill_def upd_mem_def)

lemma scroll_mem:
  "mem (scroll_screen 1 s) b =
     (if unat (b - CONSOLE_MEM_BASE) < 3840 then mem s (b + 160)
      else if unat (b - CONSOLE_MEM_BASE) < 4160 then
        if even (unat (b - CONSOLE_MEM_BASE)) then fst (empty_char s) else snd (empty_char s)
      else mem s b)"
proof -
  let ?o = "unat (b - CONSOLE_MEM_BASE)"
  have o: "unat (b - (CONSOLE_MEM_BASE + 3840)) = (if 3840 \<le> ?o then ?o - 3840 else ?o + (2 ^ 32 - 3840))"
  proof -
    have "b - (CONSOLE_MEM_BASE + 3840) = (b - CONSOLE_MEM_BASE) - 3840" by simp
    moreover have "unat (x - 3840) = (if 3840 \<le> unat x then unat x - 3840 else unat x + (2 ^ 32 - 3840))" for x :: u32
      by (simp add: unat_sub_if')
    ultimately show ?thesis by (simp only:)
  qed
  have e: "CONSOLE_MEM_END - 160 = CONSOLE_MEM_BASE + 3840" by (simp add: console_consts)
  have "scroll_screen 1 s = empty_fill (CONSOLE_MEM_BASE + 3840) 160
     (upd_mem (memcpy CONSOLE_MEM_BASE (CONSOLE_MEM_BASE + 160) 3840) s)"
    unfolding scroll_screen_def CONSOLE_WIDTH_def CONSOLE_HEIGHT_def by (simp add: e del: diff_eq_eq)
  moreover have "memcpy CONSOLE_MEM_BASE (CONSOLE_MEM_BASE + 160) 3840 (mem s) b
      = (if ?o < 3840 then mem s (b + 160) else mem s b)"
  proof -
    have "b - CONSOLE_MEM_BASE < 3840 \<longleftrightarrow> ?o < 3840" by (simp add: word_less_nat_alt)
    moreover have "CONSOLE_MEM_BASE + 160 + (b - CONSOLE_MEM_BASE) = b + 160" by simp
    ultimately show ?thesis by (simp only: memcpy_def)
  qed
  ultimately show ?thesis
    by (auto simp: empty_fill_mem upd_mem_def o)
qed

lemma logical_cursor_fields [simp]:
  "mem (set_logical_cursor r c s) = mem s" "empty_char (set_logical_cursor r c s) = empty_char s"
  "console_color (set_logical_cursor r c s) = console_color s"
  "cursor_row (set_logical_cursor r c s) = max 0 r" "cursor_col (set_logical_cursor r c s) = max 0 c"
  by (simp_all add: set_logical_cursor_def max_def)

lemma upd_mem_dfields [simp]:
  "cursor_row (upd_mem f s) = cursor_row s" "cursor_col (upd_mem f s) = cursor_col s"
  "empty_char (upd_mem f s) = empty_char s" "console_color (upd_mem f s) = console_color s"
  by (simp_all add: upd_mem_def)

lemma empty_fill_fields [simp]:
  "cursor_row (empty_fill a n s) = cursor_row s" "cursor_col (empty_fill a n s) = cursor_col s"
  "empty_char (empty_fill a n s) = empty_char s" "console_color (empty_fill a n s) = console_color s"
  by (simp_all add: empty_fill_def)

lemma print_char_fields [simp]:
  "cursor_row (print_char ch r c col s) = cursor_row s" "cursor_col (print_char ch r c col s) = cursor_col s"
  "empty_char (print_char ch r c col s) = empty_char s" "console_color (print_char ch r c col s) = console_color s"
  by (simp_all add: print_char_def)

lemma scroll_fields [simp]:
  "cursor_row (scroll_screen n s) = cursor_row s" "cursor_col (scroll_screen n s) = cursor_col s"
  "empty_char (scroll_screen n s) = empty_char s" "console_color (scroll_screen n s) = console_color s"
  by (simp_all add: scroll_screen_def Let_def)

section \<open>What a terminal does\<close>

text \<open>
  The abstract terminal: a cursor and a grid of characters with colours.  \<open>scrolled\<close> moves every line
  up and clears the last one, \<open>tty_down\<close> goes to the start of the next line.
\<close>

type_synonym grid = "int \<Rightarrow> int \<Rightarrow> u8 \<times> u8"
type_synonym tty = "int \<times> int \<times> grid"

definition scrolled :: "u8 \<times> u8 \<Rightarrow> grid \<Rightarrow> grid" where
  "scrolled blank g = (\<lambda>r c. if off_screen r c then g r c else if r = 24 then blank else g (r + 1) c)"

definition written :: "int \<Rightarrow> int \<Rightarrow> u8 \<times> u8 \<Rightarrow> grid \<Rightarrow> grid" where
  "written r c x g = g(r := (g r)(c := x))"

definition tty_down :: "u8 \<times> u8 \<Rightarrow> tty \<Rightarrow> tty" where
  "tty_down blank t = (case t of (r, c, g) \<Rightarrow> if r = 24 then (24, 0, scrolled blank g) else (r + 1, 0, g))"

definition tty_put :: "u8 \<times> u8 \<Rightarrow> u8 \<Rightarrow> u8 \<Rightarrow> tty \<Rightarrow> tty" where
  "tty_put blank color ch t = (case t of (r, c, g) \<Rightarrow>
     if ch = 0x08 then
       let (r', c') = (if c = 0 then (max 0 (r - 1), 79) else (r, c - 1))
       in (r', c', written r' c' (0x20, color) g)
     else if ch = 0x0A then tty_down blank t
     else if ch = 0x0D then (r, 0, g)
     else let (r', c', g') = (if c = 80 then tty_down blank t else t)
       in (r', c' + 1, written r' c' (ch, color) g'))"

definition grid_of :: "'a dstate_scheme \<Rightarrow> grid" where
  "grid_of s = (\<lambda>r c. (get_char r c s, get_color r c s))"

definition tty_of :: "'a dstate_scheme \<Rightarrow> tty" where
  "tty_of s = (cursor_row s, cursor_col s, grid_of s)"

definition console_ok :: "'a dstate_scheme \<Rightarrow> bool" where
  "console_ok s \<longleftrightarrow> 0 \<le> cursor_row s \<and> cursor_row s < CONSOLE_HEIGHT \<and> 0 \<le> cursor_col s \<and> cursor_col s \<le> CONSOLE_WIDTH"

lemma cell_distinct:
  assumes "\<not> off_screen r c" "\<not> off_screen r' c'"
  shows "cell r c = cell r' c' \<longleftrightarrow> r = r' \<and> c = c'" "cell r c + 1 = cell r' c' + 1 \<longleftrightarrow> r = r' \<and> c = c'"
    "cell r c \<noteq> cell r' c' + 1" "cell r c + 1 \<noteq> cell r' c'"
proof -
  have b: "0 \<le> r" "r \<le> 50" "0 \<le> c" "c \<le> 100" "c < 80" "0 \<le> r'" "r' \<le> 50" "0 \<le> c'" "c' \<le> 100" "c' < 80"
    using assms by (auto simp: off_screen_def console_consts)
  note u = cell_uint [OF b(1-4)] cell_uint [OF b(6-9)]
  have "(80 * x + y) div 80 = x \<and> (80 * x + y) mod 80 = y" if "0 \<le> y" "y < 80" for x y :: int
    using that by simp
  then have "80 * r + c = 80 * r' + c' \<longleftrightarrow> r = r' \<and> c = c'" using b by metis
  then show "cell r c = cell r' c' \<longleftrightarrow> r = r' \<and> c = c'" "cell r c + 1 = cell r' c' + 1 \<longleftrightarrow> r = r' \<and> c = c'"
    unfolding word_uint_eq_iff u by auto
  have parity: "0xB8000 + 2 * x \<noteq> 0xB8000 + 2 * y + 1" for x y :: int
  proof
    assume "0xB8000 + 2 * x = 0xB8000 + 2 * y + 1"
    then have "even (0xB8000 + 2 * y + 1)" by (metis dvd_add dvd_triv_left even_numeral)
    then show False by simp
  qed
  show "cell r c \<noteq> cell r' c' + 1" "cell r c + 1 \<noteq> cell r' c'"
    unfolding word_uint_eq_iff u by (rule parity, rule parity [symmetric])
qed

lemma grid_print_char:
  assumes "\<not> off_screen r c" "ch \<noteq> 0x0A" "ch \<noteq> 0x0D"
  shows "grid_of (print_char ch r c color s) = written r c (ch, color) (grid_of s)"
proof (intro ext)
  fix r' c'
  show "grid_of (print_char ch r c color s) r' c' = written r c (ch, color) (grid_of s) r' c'"
    using assms cell_distinct [of r' c' r c]
    by (cases "off_screen r' c'")
      (auto simp: grid_of_def get_char_def get_color_def print_char_def upd_mem_def written_def)
qed

lemma cell_offset:
  assumes "\<not> off_screen r c"
  shows "unat (cell r c - CONSOLE_MEM_BASE) = nat (2 * (80 * r + c))"
    "unat (cell r c + 1 - CONSOLE_MEM_BASE) = nat (2 * (80 * r + c) + 1)"
    "cell r c + 160 = cell (r + 1) c" "cell r c + 1 + 160 = cell (r + 1) c + 1"
proof -
  have b: "0 \<le> r" "r < 25" "0 \<le> c" "c < 80"
    using assms by (auto simp: off_screen_def console_consts)
  have "cell r c - CONSOLE_MEM_BASE = word_of_int (2 * (80 * r + c))"
    "cell r c + 1 - CONSOLE_MEM_BASE = word_of_int (2 * (80 * r + c) + 1)"
    by (simp_all add: cell_def console_consts algebra_simps)
  then show "unat (cell r c - CONSOLE_MEM_BASE) = nat (2 * (80 * r + c))"
    "unat (cell r c + 1 - CONSOLE_MEM_BASE) = nat (2 * (80 * r + c) + 1)"
    using b by (simp_all only: unat_eq_nat_uint uint_word_of_int) (subst mod_pos_pos_trivial; simp)+
  show "cell r c + 160 = cell (r + 1) c" "cell r c + 1 + 160 = cell (r + 1) c + 1"
    by (simp_all add: cell_def console_consts algebra_simps)
qed

lemma grid_scroll: "grid_of (scroll_screen 1 s) = scrolled (empty_char s) (grid_of s)"
proof (intro ext)
  fix r c
  show "grid_of (scroll_screen 1 s) r c = scrolled (empty_char s) (grid_of s) r c"
  proof (cases "off_screen r c")
    case False
    then have b: "0 \<le> r" "r < 25" "0 \<le> c" "c < 80" by (auto simp: off_screen_def console_consts)
    show ?thesis
    proof (cases "r = 24")
      case True
      then show ?thesis
        using b \<open>\<not> off_screen r c\<close>
        by (simp add: scrolled_def grid_of_def get_char_def get_color_def scroll_mem cell_offset even_nat_iff nat_less_iff)
    next
      case False
      then have "\<not> off_screen (r + 1) c" using b by (simp add: off_screen_def console_consts)
      then show ?thesis
        using b False \<open>\<not> off_screen r c\<close>
        by (simp add: scrolled_def grid_of_def get_char_def get_color_def scroll_mem cell_offset nat_less_iff)
    qed
  qed (simp add: scrolled_def grid_of_def get_char_def get_color_def)
qed

lemma grid_cursor [simp]: "grid_of (set_logical_cursor r c s) = grid_of s"
  by (intro ext) (simp add: grid_of_def get_char_def get_color_def)

text \<open>Printing below the last line scrolls; the two steps together are \<open>tty_down\<close>.\<close>

lemma next_line:
  assumes "console_ok s" "s1 = set_logical_cursor (cursor_row s + 1) 0 s"
    "s2 = (if cursor_row s1 = CONSOLE_HEIGHT
       then (let t = scroll_screen 1 s1 in set_logical_cursor (cursor_row t - 1) (cursor_col t) t) else s1)"
  shows "tty_of s2 = tty_down (empty_char s) (tty_of s)" "console_ok s2" "cursor_col s2 = 0"
    "empty_char s2 = empty_char s" "console_color s2 = console_color s"
    "\<And>b. 4160 \<le> unat (b - CONSOLE_MEM_BASE) \<Longrightarrow> mem s2 b = mem s b"
  using assms
  by (auto simp: tty_of_def tty_down_def console_ok_def grid_scroll Let_def scroll_mem CONSOLE_HEIGHT_def
      CONSOLE_WIDTH_def)

lemma print_char_frame:
  assumes "\<not> off_screen r c" "4000 \<le> unat (b - CONSOLE_MEM_BASE)"
  shows "mem (print_char ch r c color s) b = mem s b"
proof -
  have "unat (cell r c - CONSOLE_MEM_BASE) < 4000" "unat (cell r c + 1 - CONSOLE_MEM_BASE) < 4000"
    unfolding cell_offset [OF assms(1)] using assms(1)
    by (auto simp: off_screen_def CONSOLE_HEIGHT_def CONSOLE_WIDTH_def nat_less_iff)
  then have "b \<noteq> cell r c" "b \<noteq> cell r c + 1" using assms(2) by auto
  then show ?thesis by (simp add: print_char_def upd_mem_def)
qed

lemma put_visible:
  assumes "console_ok s" "ch \<noteq> 0x0A" "ch \<noteq> 0x0D" "cursor_col s < CONSOLE_WIDTH"
    "s3 = print_char ch (cursor_row s) (cursor_col s) (console_color s) s"
    "s4 = set_logical_cursor (cursor_row s3) (cursor_col s3 + 1) s3"
  shows "tty_of s4 = (cursor_row s, cursor_col s + 1, written (cursor_row s) (cursor_col s) (ch, console_color s) (grid_of s))"
    "console_ok s4" "empty_char s4 = empty_char s" "console_color s4 = console_color s"
    "\<And>b. 4000 \<le> unat (b - CONSOLE_MEM_BASE) \<Longrightarrow> mem s4 b = mem s b"
proof -
  have "\<not> off_screen (cursor_row s) (cursor_col s)" using assms(1,4) by (auto simp: console_ok_def off_screen_def)
  then show "tty_of s4 = (cursor_row s, cursor_col s + 1, written (cursor_row s) (cursor_col s) (ch, console_color s) (grid_of s))"
    "\<And>b. 4000 \<le> unat (b - CONSOLE_MEM_BASE) \<Longrightarrow> mem s4 b = mem s b"
    using assms by (auto simp: tty_of_def grid_print_char console_ok_def print_char_frame)
  show "console_ok s4" "empty_char s4 = empty_char s" "console_color s4 = console_color s"
    using assms by (auto simp: console_ok_def)
qed

lemma put_backspace:
  assumes "console_ok s"
  shows "tty_of (putbyte 0x08 s) = tty_put (empty_char s) (console_color s) 0x08 (tty_of s) \<and> console_ok (putbyte 0x08 s)
     \<and> empty_char (putbyte 0x08 s) = empty_char s \<and> console_color (putbyte 0x08 s) = console_color s
     \<and> (\<forall>b. 4160 \<le> unat (b - CONSOLE_MEM_BASE) \<longrightarrow> mem (putbyte 0x08 s) b = mem s b)"
proof -
  let ?r = "if cursor_col s = 0 then max 0 (cursor_row s - 1) else cursor_row s"
  let ?c = "if cursor_col s = 0 then 79 else cursor_col s - 1"
  let ?s = "set_logical_cursor ?r ?c s"
  have on: "\<not> off_screen ?r ?c" "?r = max 0 ?r" "?c = max 0 ?c"
    using assms by (auto simp: console_ok_def off_screen_def console_consts)
  have p: "putbyte 0x08 s = print_char 0x20 ?r ?c (console_color s) ?s"
    using on assms by (auto simp: putbyte_def Let_def set_logical_cursor_def console_consts console_ok_def)
  have "grid_of (print_char 0x20 ?r ?c (console_color s) ?s) = written ?r ?c (0x20, console_color s) (grid_of s)"
    using grid_print_char [OF on(1), of "0x20" "console_color s" ?s] by simp
  moreover have "console_ok (print_char 0x20 ?r ?c (console_color s) ?s)"
    using assms by (auto simp: console_ok_def console_consts)
  ultimately show ?thesis
    unfolding p using on by (auto simp: tty_of_def tty_put_def print_char_frame)
qed

lemma putbyte_refines:
  assumes "console_ok s"
  shows "tty_of (putbyte ch s) = tty_put (empty_char s) (console_color s) ch (tty_of s) \<and> console_ok (putbyte ch s)
     \<and> empty_char (putbyte ch s) = empty_char s \<and> console_color (putbyte ch s) = console_color s
     \<and> (\<forall>b. 4160 \<le> unat (b - CONSOLE_MEM_BASE) \<longrightarrow> mem (putbyte ch s) b = mem s b)"
proof -
  define s1 where "s1 = set_logical_cursor (cursor_row s + 1) 0 s"
  define s2 where "s2 = (if cursor_row s1 = CONSOLE_HEIGHT
       then (let t = scroll_screen 1 s1 in set_logical_cursor (cursor_row t - 1) (cursor_col t) t) else s1)"
  note down = next_line [OF assms s1_def s2_def]
  have low: "cursor_row s \<noteq> CONSOLE_HEIGHT" using assms by (simp add: console_ok_def)
  consider "ch = 0x08" | "ch = 0x0A" | "ch = 0x0D"
    | "ch \<notin> {0x08, 0x0A, 0x0D}" "cursor_col s = CONSOLE_WIDTH" | "ch \<notin> {0x08, 0x0A, 0x0D}" "cursor_col s < CONSOLE_WIDTH"
  proof -
    have "cursor_col s = CONSOLE_WIDTH \<or> cursor_col s < CONSOLE_WIDTH" using assms by (auto simp: console_ok_def)
    then show ?thesis using that by blast
  qed
  then show ?thesis
  proof cases
    case 1
    then show ?thesis using put_backspace [OF assms] by simp
  next
    case 2
    then have "putbyte ch s = s2" by (simp add: putbyte_def Let_def s1_def s2_def print_char_def)
    then show ?thesis using 2 down by (simp add: tty_put_def split: prod.splits)
  next
    case 3
    then have "putbyte ch s = set_logical_cursor (cursor_row s) 0 s"
      using low assms by (auto simp: putbyte_def Let_def print_char_def console_ok_def)
    then show ?thesis using 3 assms by (simp add: tty_put_def tty_of_def console_ok_def console_consts)
  next
    case 4
    have col: "cursor_col s2 < CONSOLE_WIDTH" using down(3) by (simp add: console_consts)
    have "putbyte ch s = set_logical_cursor (cursor_row s2) (cursor_col s2 + 1)
        (print_char ch (cursor_row s2) (cursor_col s2) (console_color s2) s2)"
      using 4 by (simp add: putbyte_def Let_def s1_def s2_def)
    moreover note put_visible [OF down(2) _ _ col refl refl, of ch]
    ultimately show ?thesis
      using 4 down by (auto simp: tty_put_def tty_of_def CONSOLE_WIDTH_def split: prod.splits)
  next
    case 5
    have "putbyte ch s = set_logical_cursor (cursor_row s) (cursor_col s + 1)
        (print_char ch (cursor_row s) (cursor_col s) (console_color s) s)"
      using 5 low by (simp add: putbyte_def Let_def)
    moreover note put_visible [OF assms _ _ 5(2) refl refl, of ch]
    ultimately show ?thesis
      using 5 by (auto simp: tty_put_def tty_of_def CONSOLE_WIDTH_def)
  qed
qed

text \<open>
  C24: The console is a terminal.  With the cursor on the screen, \<^verbatim>\<open>putbytes\<close> does on the video memory
  and the cursor what the abstract terminal does on its grid, byte after byte: backspace, newline,
  carriage return, wrapping at column 80 and scrolling at line 25.  The cursor stays on the screen, and
  no memory is written but the 4000 bytes of the screen and the 160 bytes behind them.
\<close>

theorem putbytes_refines_terminal:
  assumes "console_ok s"
  shows "tty_of (putbytes bs s) = fold (tty_put (empty_char s) (console_color s)) bs (tty_of s)
     \<and> console_ok (putbytes bs s) \<and> (\<forall>b. 4160 \<le> unat (b - CONSOLE_MEM_BASE) \<longrightarrow> mem (putbytes bs s) b = mem s b)"
  unfolding putbytes_def using assms
  by (induction bs arbitrary: s) (auto simp: putbyte_refines)

text \<open>
  C40: Scrolling overruns the screen: it clears \<^verbatim>\<open>offset\<close> positions of two bytes where \<^verbatim>\<open>offset\<close> already
  counts bytes, so the 160 bytes behind the video memory of the screen are overwritten with blanks.
\<close>

theorem scroll_screen_overruns:
  "i < 80 \<Longrightarrow> mem (scroll_screen 1 s) (CONSOLE_MEM_END + 2 * of_nat i) = fst (empty_char s)
     \<and> mem (scroll_screen 1 s) (CONSOLE_MEM_END + 2 * of_nat i + 1) = snd (empty_char s)"
proof -
  assume i: "i < 80"
  have e: "CONSOLE_MEM_END + 2 * of_nat i - CONSOLE_MEM_BASE = of_nat (4000 + 2 * i)"
    "CONSOLE_MEM_END + 2 * of_nat i + 1 - CONSOLE_MEM_BASE = of_nat (4000 + 2 * i + 1)"
    by (simp_all add: console_consts)
  have u: "unat (of_nat (4000 + 2 * i) :: u32) = 4000 + 2 * i" "unat (of_nat (4000 + 2 * i + 1) :: u32) = 4000 + 2 * i + 1"
    unfolding unat_of_nat using i by (subst mod_less; simp)+
  show ?thesis unfolding scroll_mem e u using i by simp
qed

text \<open>A machine whose cursor is behind the last position of the screen.\<close>

definition blank_console :: dstate where
  "blank_console = mstate.extend idle_machine (dstate.fields 24 80 0x0F (0x20, 0x0F) (\<lambda>_. 0) 0 0 (- 1)
     \<lparr>key_state = 0, key_internal_state = 0, key_sequence = 0\<rparr> None 0x1000 0 [])"

lemma blank_console_fields [simp]:
  "cursor_row blank_console = 24" "cursor_col blank_console = 80" "empty_char blank_console = (0x20, 0x0F)"
  "console_color blank_console = 0x0F" "key_buf blank_console = (\<lambda>_. 0)" "start_ptr blank_console = 0"
  "end_ptr blank_console = 0" "newline_ptr blank_console = - 1"
  unfolding blank_console_def mstate.extend_def dstate.fields_def by simp_all

theorem putbytes_refines_terminal_witness:
  "console_ok blank_console \<and> tty_of (putbytes [0x41, 0x08] blank_console) =
     (24, 0, written 24 0 (0x20, 0x0F) (written 24 0 (0x41, 0x0F) (scrolled (0x20, 0x0F) (grid_of blank_console))))"
proof -
  have ok: "console_ok blank_console" by (simp add: console_ok_def console_consts)
  have "tty_of (putbytes [0x41, 0x08] blank_console) = fold (tty_put (0x20, 0x0F) 0x0F) [0x41, 0x08] (tty_of blank_console)"
    using putbytes_refines_terminal [OF ok, of "[0x41, 0x08]"] unfolding blank_console_fields by blast
  also have "\<dots> = tty_put (0x20, 0x0F) 0x0F 0x08 (24, 1, written 24 0 (0x41, 0x0F) (scrolled (0x20, 0x0F) (grid_of blank_console)))"
    by (simp add: tty_put_def tty_down_def tty_of_def)
  also have "\<dots> = (24, 0, written 24 0 (0x20, 0x0F) (written 24 0 (0x41, 0x0F) (scrolled (0x20, 0x0F) (grid_of blank_console))))"
    by (simp add: tty_put_def)
  finally show ?thesis using ok by simp
qed

theorem scroll_screen_overruns_witness:
  "mem (scroll_screen 1 blank_console) CONSOLE_MEM_END = 0x20"
  using scroll_screen_overruns [of 0 blank_console] by simp

end
