(* ===== verification/Idt.thy ===== *)
theory Idt
  imports Console
begin

text \<open>
  The interrupt descriptor table, \<^verbatim>\<open>kern/interrupts/idt_entry.c\<close>, and the routines that fill it:
  \<^verbatim>\<open>interrupt_handlers.c\<close>, \<^verbatim>\<open>syscall_handlers.c\<close> and the set-up of the timer and the keyboard.  The
  addresses the linker gives to the assembly entry points are a parameter.
\<close>

section \<open>Entries\<close>

abbreviation (input) TRAP_GATE :: int where "TRAP_GATE \<equiv> 0"
abbreviation (input) INTERRUPT_GATE :: int where "INTERRUPT_GATE \<equiv> 1"
abbreviation (input) KERNEL_DPL :: u32 where "KERNEL_DPL \<equiv> 0"
abbreviation (input) USER_DPL :: u32 where "USER_DPL \<equiv> 3"
abbreviation (input) TRAP_GATE_FLAGS :: u32 where "TRAP_GATE_FLAGS \<equiv> 15"
abbreviation (input) INTERRUPT_GATE_FLAGS :: u32 where "INTERRUPT_GATE_FLAGS \<equiv> 14"
abbreviation (input) ZEROES :: u32 where "ZEROES \<equiv> 0"
abbreviation (input) PRESENT :: u32 where "PRESENT \<equiv> 1"
abbreviation (input) SEGSEL_KERNEL_CS :: u32 where "SEGSEL_KERNEL_CS \<equiv> 0x10"

record idt_entry =
  offset_1 :: u32
  seg_selector :: u32
  reserved :: u32
  zeroes :: u32
  gate_flags :: u32
  gate_dpl :: u32
  present :: u32
  offset_2 :: u32

text \<open>The two words of an entry; every member is cut to the width of its bit field.\<close>

definition entry_words :: "idt_entry \<Rightarrow> u32 \<times> u32" where
  "entry_words e =
     (take_bit 16 (offset_1 e) OR push_bit 16 (take_bit 16 (seg_selector e)),
      take_bit 5 (reserved e) OR push_bit 5 (take_bit 3 (zeroes e)) OR push_bit 8 (take_bit 5 (gate_flags e))
        OR push_bit 13 (take_bit 2 (gate_dpl e)) OR push_bit 15 (take_bit 1 (present e))
        OR push_bit 16 (take_bit 16 (offset_2 e)))"

definition uninit_entry :: "u32 \<Rightarrow> idt_entry" where
  "uninit_entry j = \<lparr>offset_1 = j, seg_selector = j, reserved = j, zeroes = j, gate_flags = j, gate_dpl = j,
     present = j, offset_2 = j\<rparr>"

definition get_default_trap_idt :: "idt_entry \<Rightarrow> u32 \<Rightarrow> idt_entry" where
  "get_default_trap_idt e dpl = e\<lparr>seg_selector := SEGSEL_KERNEL_CS, zeroes := ZEROES, gate_flags := TRAP_GATE_FLAGS,
     gate_dpl := dpl, present := PRESENT\<rparr>"

definition get_default_interrupt_idt :: "idt_entry \<Rightarrow> u32 \<Rightarrow> idt_entry" where
  "get_default_interrupt_idt e dpl = e\<lparr>seg_selector := SEGSEL_KERNEL_CS, zeroes := ZEROES,
     gate_flags := INTERRUPT_GATE_FLAGS, gate_dpl := dpl, present := PRESENT\<rparr>"

definition add_idt_entry :: "u32 \<Rightarrow> u32 \<Rightarrow> int \<Rightarrow> u32 \<Rightarrow> (int, 'a dstate_scheme) kop" where
  "add_idt_entry hdl interrupt_num type dpl =
     (if type \<noteq> TRAP_GATE \<and> type \<noteq> INTERRUPT_GATE then kret ERR_FAILURE
      else kbind (kgets (\<lambda>s. uninit_entry (stack_junk s))) (\<lambda>e.
        let e1 = (if type = TRAP_GATE then get_default_trap_idt e dpl else get_default_interrupt_idt e dpl);
            e2 = e1\<lparr>offset_1 := hdl AND 0xFFFF, offset_2 := drop_bit 16 hdl AND 0xFFFF\<rparr>
        in kbind (kgets (\<lambda>s. idt_base s + 8 * interrupt_num)) (\<lambda>a. kthen (kseq
             [poke a (fst (entry_words e2)), poke (a + 4) (snd (entry_words e2))]) (kret 0))))"

section \<open>Vectors and entry points\<close>

datatype handler =
    Timer_handler | Keyboard_handler
  | Divide_error_handler | Debug_exception_handler | Non_maskable_interrupt_handler | Breakpoint_handler
  | Overflow_handler | Bound_range_handler | Undefined_opcode_handler | No_math_coprocessor_handler
  | Cso_handler | Invalid_tss_handler | Snp_handler | Ssf_handler | Gpf_handler | Page_fault_handler
  | Math_fault_handler | Alignment_check_handler | Machine_check_handler | Floating_point_exp_handler
  | Print_handler | Fork_handler | Thread_fork_handler | Exec_handler | Set_status_handler | Halt_handler
  | Wait_handler | Vanish_handler | New_pages_handler | Remove_pages_handler | Readline_handler
  | Yield_handler | Memory_check_handler | Gettid_handler | Deschedule_handler | Make_runnable_handler
  | Get_ticks_handler | Sleep_handler | Swexn_handler | Readfile_handler | Set_term_color_handler
  | Set_cursor_pos_handler | Get_cursor_pos_handler | Getchar_handler

type_synonym entry_points = "handler \<Rightarrow> u32"

text \<open>
  The vectors of \<^verbatim>\<open>410kern/x86/idt.h\<close>, \<^verbatim>\<open>timer_defines.h\<close>, \<^verbatim>\<open>keyhelp.h\<close> and
  \<^verbatim>\<open>spec/syscall_int.h\<close>, which are macros there and abbreviations here.
\<close>

abbreviation (input) IDT_DE :: u32 where "IDT_DE \<equiv> 0"
abbreviation (input) IDT_DB :: u32 where "IDT_DB \<equiv> 1"
abbreviation (input) IDT_NMI :: u32 where "IDT_NMI \<equiv> 2"
abbreviation (input) IDT_BP :: u32 where "IDT_BP \<equiv> 3"
abbreviation (input) IDT_OF :: u32 where "IDT_OF \<equiv> 4"
abbreviation (input) IDT_BR :: u32 where "IDT_BR \<equiv> 5"
abbreviation (input) IDT_UD :: u32 where "IDT_UD \<equiv> 6"
abbreviation (input) IDT_NM :: u32 where "IDT_NM \<equiv> 7"
abbreviation (input) IDT_CSO :: u32 where "IDT_CSO \<equiv> 9"
abbreviation (input) IDT_TS :: u32 where "IDT_TS \<equiv> 10"
abbreviation (input) IDT_NP :: u32 where "IDT_NP \<equiv> 11"
abbreviation (input) IDT_SS :: u32 where "IDT_SS \<equiv> 12"
abbreviation (input) IDT_GP :: u32 where "IDT_GP \<equiv> 13"
abbreviation (input) IDT_PF :: u32 where "IDT_PF \<equiv> 14"
abbreviation (input) IDT_MF :: u32 where "IDT_MF \<equiv> 16"
abbreviation (input) IDT_AC :: u32 where "IDT_AC \<equiv> 17"
abbreviation (input) IDT_MC :: u32 where "IDT_MC \<equiv> 18"
abbreviation (input) IDT_XF :: u32 where "IDT_XF \<equiv> 19"
abbreviation (input) TIMER_IDT_ENTRY :: u32 where "TIMER_IDT_ENTRY \<equiv> 0x20"
abbreviation (input) KEY_IDT_ENTRY :: u32 where "KEY_IDT_ENTRY \<equiv> 0x21"
abbreviation (input) FORK_INT :: u32 where "FORK_INT \<equiv> 0x41"
abbreviation (input) EXEC_INT :: u32 where "EXEC_INT \<equiv> 0x42"
abbreviation (input) WAIT_INT :: u32 where "WAIT_INT \<equiv> 0x44"
abbreviation (input) YIELD_INT :: u32 where "YIELD_INT \<equiv> 0x45"
abbreviation (input) DESCHEDULE_INT :: u32 where "DESCHEDULE_INT \<equiv> 0x46"
abbreviation (input) MAKE_RUNNABLE_INT :: u32 where "MAKE_RUNNABLE_INT \<equiv> 0x47"
abbreviation (input) GETTID_INT :: u32 where "GETTID_INT \<equiv> 0x48"
abbreviation (input) NEW_PAGES_INT :: u32 where "NEW_PAGES_INT \<equiv> 0x49"
abbreviation (input) REMOVE_PAGES_INT :: u32 where "REMOVE_PAGES_INT \<equiv> 0x4A"
abbreviation (input) SLEEP_INT :: u32 where "SLEEP_INT \<equiv> 0x4B"
abbreviation (input) GETCHAR_INT :: u32 where "GETCHAR_INT \<equiv> 0x4C"
abbreviation (input) READLINE_INT :: u32 where "READLINE_INT \<equiv> 0x4D"
abbreviation (input) PRINT_INT :: u32 where "PRINT_INT \<equiv> 0x4E"
abbreviation (input) SET_TERM_COLOR_INT :: u32 where "SET_TERM_COLOR_INT \<equiv> 0x4F"
abbreviation (input) SET_CURSOR_POS_INT :: u32 where "SET_CURSOR_POS_INT \<equiv> 0x50"
abbreviation (input) GET_CURSOR_POS_INT :: u32 where "GET_CURSOR_POS_INT \<equiv> 0x51"
abbreviation (input) THREAD_FORK_INT :: u32 where "THREAD_FORK_INT \<equiv> 0x52"
abbreviation (input) GET_TICKS_INT :: u32 where "GET_TICKS_INT \<equiv> 0x53"
abbreviation (input) HALT_INT :: u32 where "HALT_INT \<equiv> 0x55"
abbreviation (input) SET_STATUS_INT :: u32 where "SET_STATUS_INT \<equiv> 0x59"
abbreviation (input) VANISH_INT :: u32 where "VANISH_INT \<equiv> 0x60"
abbreviation (input) READFILE_INT :: u32 where "READFILE_INT \<equiv> 0x62"
abbreviation (input) SWEXN_INT :: u32 where "SWEXN_INT \<equiv> 0x74"
abbreviation (input) SYSCALL_RESERVED_1 :: u32 where "SYSCALL_RESERVED_1 \<equiv> 0x81"

section \<open>Fault handlers\<close>

definition install_divide_error_handler :: "entry_points \<Rightarrow> (int, 'a dstate_scheme) kop" where
  "install_divide_error_handler ep = add_idt_entry (ep Divide_error_handler) IDT_DE TRAP_GATE KERNEL_DPL"

definition install_page_fault_handler :: "entry_points \<Rightarrow> (int, 'a dstate_scheme) kop" where
  "install_page_fault_handler ep = add_idt_entry (ep Page_fault_handler) IDT_PF TRAP_GATE KERNEL_DPL"

definition install_debug_exception_handler :: "entry_points \<Rightarrow> (int, 'a dstate_scheme) kop" where
  "install_debug_exception_handler ep = add_idt_entry (ep Debug_exception_handler) IDT_DB TRAP_GATE KERNEL_DPL"

definition install_non_maskable_interrupt_handler :: "entry_points \<Rightarrow> (int, 'a dstate_scheme) kop" where
  "install_non_maskable_interrupt_handler ep = add_idt_entry (ep Non_maskable_interrupt_handler) IDT_NMI TRAP_GATE KERNEL_DPL"

definition install_breakpoint_handler :: "entry_points \<Rightarrow> (int, 'a dstate_scheme) kop" where
  "install_breakpoint_handler ep = add_idt_entry (ep Breakpoint_handler) IDT_BP TRAP_GATE KERNEL_DPL"

definition install_overflow_handler :: "entry_points \<Rightarrow> (int, 'a dstate_scheme) kop" where
  "install_overflow_handler ep = add_idt_entry (ep Overflow_handler) IDT_OF TRAP_GATE KERNEL_DPL"

definition install_bound_range_handler :: "entry_points \<Rightarrow> (int, 'a dstate_scheme) kop" where
  "install_bound_range_handler ep = add_idt_entry (ep Bound_range_handler) IDT_BR TRAP_GATE KERNEL_DPL"

definition install_undefined_opcode_handler :: "entry_points \<Rightarrow> (int, 'a dstate_scheme) kop" where
  "install_undefined_opcode_handler ep = add_idt_entry (ep Undefined_opcode_handler) IDT_OF TRAP_GATE KERNEL_DPL"

definition install_no_math_coprocessor_handler :: "entry_points \<Rightarrow> (int, 'a dstate_scheme) kop" where
  "install_no_math_coprocessor_handler ep = add_idt_entry (ep No_math_coprocessor_handler) IDT_NM TRAP_GATE KERNEL_DPL"

definition install_cso_handler :: "entry_points \<Rightarrow> (int, 'a dstate_scheme) kop" where
  "install_cso_handler ep = add_idt_entry (ep Cso_handler) IDT_CSO TRAP_GATE KERNEL_DPL"

definition install_invalid_tss_handler :: "entry_points \<Rightarrow> (int, 'a dstate_scheme) kop" where
  "install_invalid_tss_handler ep = add_idt_entry (ep Invalid_tss_handler) IDT_TS TRAP_GATE KERNEL_DPL"

definition install_snp_handler :: "entry_points \<Rightarrow> (int, 'a dstate_scheme) kop" where
  "install_snp_handler ep = add_idt_entry (ep Snp_handler) IDT_NP TRAP_GATE KERNEL_DPL"

definition install_ssf_handler :: "entry_points \<Rightarrow> (int, 'a dstate_scheme) kop" where
  "install_ssf_handler ep = add_idt_entry (ep Ssf_handler) IDT_SS TRAP_GATE KERNEL_DPL"

definition install_gpf_handler :: "entry_points \<Rightarrow> (int, 'a dstate_scheme) kop" where
  "install_gpf_handler ep = add_idt_entry (ep Gpf_handler) IDT_GP TRAP_GATE KERNEL_DPL"

definition install_math_fault_handler :: "entry_points \<Rightarrow> (int, 'a dstate_scheme) kop" where
  "install_math_fault_handler ep = add_idt_entry (ep Math_fault_handler) IDT_MF TRAP_GATE KERNEL_DPL"

definition install_alignment_check_handler :: "entry_points \<Rightarrow> (int, 'a dstate_scheme) kop" where
  "install_alignment_check_handler ep = add_idt_entry (ep Alignment_check_handler) IDT_AC TRAP_GATE KERNEL_DPL"

definition install_machine_check_handler :: "entry_points \<Rightarrow> (int, 'a dstate_scheme) kop" where
  "install_machine_check_handler ep = add_idt_entry (ep Machine_check_handler) IDT_MC TRAP_GATE KERNEL_DPL"

definition install_floating_point_exp_handler :: "entry_points \<Rightarrow> (int, 'a dstate_scheme) kop" where
  "install_floating_point_exp_handler ep = add_idt_entry (ep Floating_point_exp_handler) IDT_XF TRAP_GATE KERNEL_DPL"

section \<open>Timer and keyboard\<close>

abbreviation (input) INT_FREQ :: int where "INT_FREQ \<equiv> 10"
abbreviation (input) MILLISECONDS :: int where "MILLISECONDS \<equiv> 1000"
abbreviation (input) TIMER_RATE :: int where "TIMER_RATE \<equiv> 1193182"
abbreviation (input) TIMER_PERIOD_IO_PORT :: u32 where "TIMER_PERIOD_IO_PORT \<equiv> 0x40"
abbreviation (input) TIMER_MODE_IO_PORT :: u32 where "TIMER_MODE_IO_PORT \<equiv> 0x43"
abbreviation (input) TIMER_SQUARE_WAVE :: u8 where "TIMER_SQUARE_WAVE \<equiv> 0x36"

definition set_mode_freq :: "'a dstate_scheme \<Rightarrow> 'a dstate_scheme" where
  "set_mode_freq =
     (let output_freq = MILLISECONDS div INT_FREQ;
          freq_divider = word_of_int (TIMER_RATE div output_freq) :: u32
      in outbs [(TIMER_MODE_IO_PORT, TIMER_SQUARE_WAVE), (TIMER_PERIOD_IO_PORT, ucast (freq_divider AND 0xFF)),
                (TIMER_PERIOD_IO_PORT, ucast (drop_bit 8 freq_divider AND 0xFF))])"

definition install_timer_handler :: "entry_points \<Rightarrow> (int, 'a dstate_scheme) kop" where
  "install_timer_handler ep = add_idt_entry (ep Timer_handler) TIMER_IDT_ENTRY INTERRUPT_GATE KERNEL_DPL"

definition initialize_timer :: "entry_points \<Rightarrow> callback_fn \<Rightarrow> (int, 'a dstate_scheme) kop" where
  "initialize_timer ep tickback = kthen (kseq
     [kmodify (\<lambda>s. s\<lparr>timer_callback := Some tickback\<rparr>), kmodify set_mode_freq]) (install_timer_handler ep)"

abbreviation readline_cond_var :: "cond_ptr option" where "readline_cond_var \<equiv> Some (Readline_cond, 0)"
abbreviation readline_mutex :: "mutex_ptr option" where "readline_mutex \<equiv> Some (Readline_mutex, 0)"

definition install_keyboard_handler :: "entry_points \<Rightarrow> (int, 'a dstate_scheme) kop" where
  "install_keyboard_handler ep = kcheck (cond_init readline_cond_var) (kcheck (mutex_init readline_mutex)
     (add_idt_entry (ep Keyboard_handler) KEY_IDT_ENTRY TRAP_GATE KERNEL_DPL))"

section \<open>Installing everything\<close>

text \<open>Every call is followed by a return of its result when that is negative.\<close>

fun install_all :: "(int, 's) kop list \<Rightarrow> (int, 's) kop" where
  "install_all [] = kret 0"
| "install_all [m] = m"
| "install_all (m # n # ms) = kcheck m (install_all (n # ms))"

definition install_handlers :: "entry_points \<Rightarrow> (int, 'a dstate_scheme) kop" where
  "install_handlers ep = install_all
     [initialize_timer ep Tickback, install_keyboard_handler ep, install_divide_error_handler ep,
      install_debug_exception_handler ep, install_non_maskable_interrupt_handler ep,
      install_breakpoint_handler ep, install_overflow_handler ep, install_bound_range_handler ep,
      install_undefined_opcode_handler ep, install_no_math_coprocessor_handler ep,
      install_cso_handler ep, install_invalid_tss_handler ep, install_snp_handler ep, install_gpf_handler ep,
      install_page_fault_handler ep, install_math_fault_handler ep, install_alignment_check_handler ep,
      install_machine_check_handler ep, install_floating_point_exp_handler ep]"

section \<open>System calls\<close>

definition install_gettid_handler :: "entry_points \<Rightarrow> (int, 'a dstate_scheme) kop" where
  "install_gettid_handler ep = add_idt_entry (ep Gettid_handler) GETTID_INT TRAP_GATE USER_DPL"

definition install_print_handler :: "entry_points \<Rightarrow> (int, 'a dstate_scheme) kop" where
  "install_print_handler ep = add_idt_entry (ep Print_handler) PRINT_INT TRAP_GATE USER_DPL"

definition install_fork_handler :: "entry_points \<Rightarrow> (int, 'a dstate_scheme) kop" where
  "install_fork_handler ep = add_idt_entry (ep Fork_handler) FORK_INT TRAP_GATE USER_DPL"

definition install_thread_fork_handler :: "entry_points \<Rightarrow> (int, 'a dstate_scheme) kop" where
  "install_thread_fork_handler ep = add_idt_entry (ep Thread_fork_handler) THREAD_FORK_INT TRAP_GATE USER_DPL"

definition install_exec_handler :: "entry_points \<Rightarrow> (int, 'a dstate_scheme) kop" where
  "install_exec_handler ep = add_idt_entry (ep Exec_handler) EXEC_INT TRAP_GATE USER_DPL"

definition install_set_status_handler :: "entry_points \<Rightarrow> (int, 'a dstate_scheme) kop" where
  "install_set_status_handler ep = add_idt_entry (ep Set_status_handler) SET_STATUS_INT TRAP_GATE USER_DPL"

definition install_halt_handler :: "entry_points \<Rightarrow> (int, 'a dstate_scheme) kop" where
  "install_halt_handler ep = add_idt_entry (ep Halt_handler) HALT_INT TRAP_GATE USER_DPL"

definition install_wait_handler :: "entry_points \<Rightarrow> (int, 'a dstate_scheme) kop" where
  "install_wait_handler ep = add_idt_entry (ep Wait_handler) WAIT_INT TRAP_GATE USER_DPL"

definition install_vanish_handler :: "entry_points \<Rightarrow> (int, 'a dstate_scheme) kop" where
  "install_vanish_handler ep = add_idt_entry (ep Vanish_handler) VANISH_INT TRAP_GATE USER_DPL"

definition install_new_pages_handler :: "entry_points \<Rightarrow> (int, 'a dstate_scheme) kop" where
  "install_new_pages_handler ep = add_idt_entry (ep New_pages_handler) NEW_PAGES_INT TRAP_GATE USER_DPL"

definition install_readline_handler :: "entry_points \<Rightarrow> (int, 'a dstate_scheme) kop" where
  "install_readline_handler ep = add_idt_entry (ep Readline_handler) READLINE_INT TRAP_GATE USER_DPL"

definition install_remove_pages_handler :: "entry_points \<Rightarrow> (int, 'a dstate_scheme) kop" where
  "install_remove_pages_handler ep = add_idt_entry (ep Remove_pages_handler) REMOVE_PAGES_INT TRAP_GATE USER_DPL"

definition install_yield_handler :: "entry_points \<Rightarrow> (int, 'a dstate_scheme) kop" where
  "install_yield_handler ep = add_idt_entry (ep Yield_handler) YIELD_INT TRAP_GATE USER_DPL"

definition install_memcheck_handler :: "entry_points \<Rightarrow> (int, 'a dstate_scheme) kop" where
  "install_memcheck_handler ep = add_idt_entry (ep Memory_check_handler) SYSCALL_RESERVED_1 INTERRUPT_GATE USER_DPL"

definition install_sleep_handler :: "entry_points \<Rightarrow> (int, 'a dstate_scheme) kop" where
  "install_sleep_handler ep = add_idt_entry (ep Sleep_handler) SLEEP_INT TRAP_GATE USER_DPL"

definition install_deschedule_handler :: "entry_points \<Rightarrow> (int, 'a dstate_scheme) kop" where
  "install_deschedule_handler ep = add_idt_entry (ep Deschedule_handler) DESCHEDULE_INT TRAP_GATE USER_DPL"

definition install_make_runnable_handler :: "entry_points \<Rightarrow> (int, 'a dstate_scheme) kop" where
  "install_make_runnable_handler ep = add_idt_entry (ep Make_runnable_handler) MAKE_RUNNABLE_INT TRAP_GATE USER_DPL"

definition install_get_ticks_handler :: "entry_points \<Rightarrow> (int, 'a dstate_scheme) kop" where
  "install_get_ticks_handler ep = add_idt_entry (ep Get_ticks_handler) GET_TICKS_INT TRAP_GATE USER_DPL"

definition install_swexn_handler :: "entry_points \<Rightarrow> (int, 'a dstate_scheme) kop" where
  "install_swexn_handler ep = add_idt_entry (ep Swexn_handler) SWEXN_INT TRAP_GATE USER_DPL"

definition install_readfile_handler :: "entry_points \<Rightarrow> (int, 'a dstate_scheme) kop" where
  "install_readfile_handler ep = add_idt_entry (ep Readfile_handler) READFILE_INT TRAP_GATE USER_DPL"

definition install_set_term_color_handler :: "entry_points \<Rightarrow> (int, 'a dstate_scheme) kop" where
  "install_set_term_color_handler ep = add_idt_entry (ep Set_term_color_handler) SET_TERM_COLOR_INT TRAP_GATE USER_DPL"

definition install_set_cursor_pos_handler :: "entry_points \<Rightarrow> (int, 'a dstate_scheme) kop" where
  "install_set_cursor_pos_handler ep = add_idt_entry (ep Set_cursor_pos_handler) SET_CURSOR_POS_INT TRAP_GATE USER_DPL"

definition install_get_cursor_pos_handler :: "entry_points \<Rightarrow> (int, 'a dstate_scheme) kop" where
  "install_get_cursor_pos_handler ep = add_idt_entry (ep Get_cursor_pos_handler) GET_CURSOR_POS_INT TRAP_GATE USER_DPL"

definition install_getchar_handler :: "entry_points \<Rightarrow> (int, 'a dstate_scheme) kop" where
  "install_getchar_handler ep = add_idt_entry (ep Getchar_handler) GETCHAR_INT TRAP_GATE USER_DPL"

definition install_syscall_handlers :: "entry_points \<Rightarrow> (int, 'a dstate_scheme) kop" where
  "install_syscall_handlers ep = install_all
     [install_print_handler ep, install_fork_handler ep, install_thread_fork_handler ep,
      install_exec_handler ep, install_set_status_handler ep, install_halt_handler ep,
      install_wait_handler ep, install_vanish_handler ep, install_new_pages_handler ep,
      install_remove_pages_handler ep, install_readline_handler ep, install_yield_handler ep,
      install_memcheck_handler ep, install_gettid_handler ep, install_deschedule_handler ep,
      install_make_runnable_handler ep, install_get_ticks_handler ep, install_sleep_handler ep,
      install_swexn_handler ep, install_readfile_handler ep, install_set_term_color_handler ep,
      install_set_cursor_pos_handler ep, install_get_cursor_pos_handler ep, install_getchar_handler ep]"

section \<open>What the processor sees\<close>

text \<open>A gate as the processor decodes it: offset, segment, type, privilege level and the present bit.\<close>

type_synonym gate = "u32 \<times> u32 \<times> u32 \<times> u32 \<times> bool"

definition decode_gate :: "u32 \<Rightarrow> u32 \<Rightarrow> gate" where
  "decode_gate lo hi = ((lo AND 0xFFFF) OR (hi AND 0xFFFF0000), drop_bit 16 lo, take_bit 5 (drop_bit 8 hi),
     take_bit 2 (drop_bit 13 hi), bit hi 15)"

definition gate_at :: "'a dstate_scheme \<Rightarrow> u32 \<Rightarrow> gate" where
  "gate_at s n = (let a = idt_base s + 8 * n in decode_gate (load32 (mem s) a) (load32 (mem s) (a + 4)))"

definition gate_for :: "u32 \<Rightarrow> int \<Rightarrow> u32 \<Rightarrow> gate" where
  "gate_for hdl type dpl =
     (hdl, SEGSEL_KERNEL_CS, if type = TRAP_GATE then TRAP_GATE_FLAGS else INTERRUPT_GATE_FLAGS, dpl, True)"

definition idt_is :: "'a dstate_scheme \<Rightarrow> (u32 \<Rightarrow> gate) \<Rightarrow> bool" where
  "idt_is s f \<longleftrightarrow> 4 dvd unat (idt_base s) \<and> (\<forall>n < 256. gate_at s n = f n)"

lemma gate_fields:
  fixes d x j :: u32
  shows "take_bit 5 (drop_bit 8 (take_bit 5 j)) = 0" "take_bit 2 (drop_bit 13 (take_bit 5 j)) = 0"
    "take_bit 5 (drop_bit 8 (push_bit 13 (take_bit 2 d))) = 0" "take_bit 2 (drop_bit 13 (push_bit 13 (take_bit 2 d))) = take_bit 2 d"
    "take_bit 5 (drop_bit 8 (push_bit 16 x)) = 0" "take_bit 2 (drop_bit 13 (push_bit 16 x)) = 0"
    "drop_bit 16 (take_bit 16 x) = 0"
    "take_bit 5 j AND NOT (mask 16) = 0" "push_bit 13 (take_bit 2 d) AND NOT (mask 16) = 0"
    "push_bit 16 (take_bit 16 (drop_bit 16 x)) AND NOT (mask 16) = x AND NOT (mask 16)"
  by (rule bit_word_eqI; auto simp: bit_simps)+

lemma decode_entry_words:
  assumes "dpl < 4" "type = TRAP_GATE \<or> type = INTERRUPT_GATE"
    and "e = (if type = TRAP_GATE then get_default_trap_idt (uninit_entry j) dpl
                else get_default_interrupt_idt (uninit_entry j) dpl)\<lparr>offset_1 := hdl AND 0xFFFF, offset_2 := drop_bit 16 hdl AND 0xFFFF\<rparr>"
  shows "decode_gate (fst (entry_words e)) (snd (entry_words e)) = gate_for hdl type dpl"
proof -
  let ?g = "if type = TRAP_GATE then 15 else 14 :: u32"
  have lo16: "x AND 0xFFFF = take_bit 16 x" for x :: u32
    by (simp add: take_bit_eq_mask mask_eq_exp_minus_1)
  have m: "NOT (mask 16 :: u32) = 0xFFFF0000" by code_simp
  have d: "take_bit 2 dpl = dpl"
  proof -
    have "unat dpl < 4" using assms(1) by (simp add: word_less_nat_alt)
    then have "unat (dpl AND mask 2) = unat dpl" unfolding unat_and_mask by simp
    then show ?thesis unfolding take_bit_eq_mask by (simp only: word_unat_eq_iff)
  qed
  have w: "entry_words e = (take_bit 16 hdl OR 0x100000,
      take_bit 5 j OR push_bit 8 ?g OR push_bit 13 (take_bit 2 dpl) OR 0x8000 OR push_bit 16 (take_bit 16 (drop_bit 16 hdl)))"
    using assms(2,3)
    by (auto simp: entry_words_def get_default_trap_idt_def get_default_interrupt_idt_def uninit_entry_def lo16)
  show ?thesis
    unfolding w decode_gate_def gate_for_def prod.inject fst_conv snd_conv
  proof (intro conjI)
    show "(take_bit 16 hdl OR 0x100000) AND 0xFFFF OR
        (take_bit 5 j OR push_bit 8 ?g OR push_bit 13 (take_bit 2 dpl) OR 0x8000 OR push_bit 16 (take_bit 16 (drop_bit 16 hdl)))
          AND 0xFFFF0000 = hdl"
    proof -
      have "(take_bit 16 hdl OR 0x100000) AND 0xFFFF = take_bit 16 hdl" unfolding lo16 by (simp add: take_bit_or)
      moreover have "push_bit 8 ?g AND 0xFFFF0000 = 0" "(0x8000 :: u32) AND 0xFFFF0000 = 0" by simp_all
      moreover have "take_bit 16 hdl OR (hdl AND NOT (mask 16)) = hdl"
        unfolding take_bit_eq_mask by (simp add: bit.conj_disj_distrib [symmetric])
      ultimately show ?thesis
        using gate_fields(8) [of j] gate_fields(9) [of dpl] gate_fields(10) [of hdl]
        by (simp only: bit.conj_disj_distrib2 m [symmetric]) simp
    qed
    show "drop_bit 16 (take_bit 16 hdl OR 0x100000) = SEGSEL_KERNEL_CS"
      by (simp add: drop_bit_or gate_fields)
    show "take_bit 5 (drop_bit 8 (take_bit 5 j OR push_bit 8 ?g OR push_bit 13 (take_bit 2 dpl) OR 0x8000
        OR push_bit 16 (take_bit 16 (drop_bit 16 hdl)))) = (if type = TRAP_GATE then TRAP_GATE_FLAGS else INTERRUPT_GATE_FLAGS)"
      unfolding drop_bit_or take_bit_or gate_fields by simp
    show "take_bit 2 (drop_bit 13 (take_bit 5 j OR push_bit 8 ?g OR push_bit 13 (take_bit 2 dpl) OR 0x8000
        OR push_bit 16 (take_bit 16 (drop_bit 16 hdl)))) = dpl"
      unfolding drop_bit_or take_bit_or gate_fields by (simp add: d)
    show "bit (take_bit 5 j OR push_bit 8 ?g OR push_bit 13 (take_bit 2 dpl) OR 0x8000
        OR push_bit 16 (take_bit 16 (drop_bit 16 hdl))) 15 = True"
      by (simp add: bit_or_iff)
  qed
qed

lemma vector_neq:
  fixes m n b :: u32
  assumes "m < 256" "n < 256" "m \<noteq> n"
  shows "b + 8 * m \<noteq> b + 8 * n" "b + 8 * m + 4 \<noteq> b + 8 * n + 4" "b + 8 * m \<noteq> b + 8 * n + 4" "b + 8 * m + 4 \<noteq> b + 8 * n"
proof -
  have u: "unat (8 * x) = 8 * unat x" "unat (8 * x + 4) = 8 * unat x + 4" if "x < 256" for x :: u32
  proof -
    have "unat x < 256" using that by (simp add: word_less_nat_alt)
    then show "unat (8 * x) = 8 * unat x" "unat (8 * x + 4) = 8 * unat x + 4"
      by (simp_all add: unat_word_ariths)
  qed
  have "unat m \<noteq> unat n" using assms(3) by (simp add: word_unat_eq_iff)
  then have "8 * m \<noteq> 8 * n" "8 * m \<noteq> 8 * n + 4" "8 * m + 4 \<noteq> 8 * n"
    unfolding word_unat_eq_iff u [OF assms(1)] u [OF assms(2)] by presburger+
  then show "b + 8 * m \<noteq> b + 8 * n" "b + 8 * m + 4 \<noteq> b + 8 * n + 4" "b + 8 * m \<noteq> b + 8 * n + 4" "b + 8 * m + 4 \<noteq> b + 8 * n"
    by (simp_all add: add.assoc)
qed

lemma word_add_dvd_4: "4 dvd unat (a :: u32) \<Longrightarrow> 4 dvd unat b \<Longrightarrow> 4 dvd unat (a + b)"
  unfolding unat_word_ariths by (rule dvd_mod) simp_all

lemma vector_aligned:
  assumes "4 dvd unat (b :: u32)"
  shows "4 dvd unat (b + 8 * n)" "4 dvd unat (b + 8 * n + 4)"
proof -
  have "4 dvd unat (8 * n)" unfolding unat_word_ariths by (rule dvd_mod) simp_all
  then show "4 dvd unat (b + 8 * n)" "4 dvd unat (b + 8 * n + 4)" using assms by (simp_all add: word_add_dvd_4)
qed

lemma add_idt_entry_effect:
  assumes s: "idt_is s f" and n: "n < 256" and d: "dpl < 4" "type = TRAP_GATE \<or> type = INTERRUPT_GATE"
  shows "\<exists>g. add_idt_entry hdl n type dpl s = Ok 0 (upd_mem g s) \<and> idt_is (upd_mem g s) (f(n := gate_for hdl type dpl))"
proof -
  define e where "e = (if type = TRAP_GATE then get_default_trap_idt (uninit_entry (stack_junk s)) dpl
      else get_default_interrupt_idt (uninit_entry (stack_junk s)) dpl)\<lparr>offset_1 := hdl AND 0xFFFF, offset_2 := drop_bit 16 hdl AND 0xFFFF\<rparr>"
  define a where "a = idt_base s + 8 * n"
  define g where "g = store32 (a + 4) (snd (entry_words e)) \<circ> store32 a (fst (entry_words e))"
  have run: "add_idt_entry hdl n type dpl s = Ok 0 (upd_mem g s)"
    using d(2) by (auto simp: add_idt_entry_def kop_defs Let_def e_def a_def g_def poke_def upd_mem_def)
  have al: "4 dvd unat (idt_base s)" using s by (simp add: idt_is_def)
  have a: "4 dvd unat a" "4 dvd unat (a + 4)" "a + 4 \<noteq> a" using vector_aligned [OF al, of n] by (simp_all add: a_def)
  have "gate_at (upd_mem g s) m = (f(n := gate_for hdl type dpl)) m" if m: "m < 256" for m
  proof (cases "m = n")
    case True
    have "load32 (g (mem s)) a = fst (entry_words e)" "load32 (g (mem s)) (a + 4) = snd (entry_words e)"
      using a by (simp_all add: g_def store32_word_other)
    then show ?thesis
      using True decode_entry_words [OF d e_def] by (simp add: gate_at_def upd_mem_def a_def Let_def)
  next
    case False
    have "load32 (g (mem s)) (idt_base s + 8 * m) = load32 (mem s) (idt_base s + 8 * m)"
      "load32 (g (mem s)) (idt_base s + 8 * m + 4) = load32 (mem s) (idt_base s + 8 * m + 4)"
      using vector_neq [OF m n False, of "idt_base s"] vector_aligned [OF al, of m] a
      by (auto simp: g_def store32_word_other a_def dest: sym)
    then show ?thesis using False s m by (simp add: gate_at_def upd_mem_def Let_def idt_is_def)
  qed
  then have "idt_is (upd_mem g s) (f(n := gate_for hdl type dpl))" using al by (simp add: idt_is_def upd_mem_def)
  then show ?thesis using run by blast
qed

section \<open>Filling the table\<close>

definition installs :: "(int, 'a dstate_scheme) kop \<Rightarrow> u32 \<times> gate \<Rightarrow> bool" where
  "installs m e \<longleftrightarrow> (\<forall>s f. idt_is s f \<longrightarrow> (\<exists>s'. m s = Ok 0 s' \<and> idt_is s' (f(fst e := snd e))))"

lemma installs_add [intro]:
  assumes "n < 256" "dpl < 4" "type = TRAP_GATE \<or> type = INTERRUPT_GATE"
  shows "installs (add_idt_entry hdl n type dpl) (n, gate_for hdl type dpl)"
  using add_idt_entry_effect [OF _ assms] unfolding installs_def fst_conv snd_conv by blast

lemma installs_all:
  assumes "list_all2 installs ms es" "idt_is s f"
  shows "\<exists>s'. install_all ms s = Ok 0 s' \<and> idt_is s' (fold (\<lambda>e f. f(fst e := snd e)) es f)"
  using assms
proof (induction ms arbitrary: es s f rule: install_all.induct)
  case (3 m n ms)
  obtain e es' where es: "es = e # es'" "installs m e" "list_all2 installs (n # ms) es'"
    using 3(2) by (auto simp: list_all2_Cons1)
  obtain s1 where s1: "m s = Ok 0 s1" "idt_is s1 (f(fst e := snd e))" using es(2) 3(3) by (auto simp: installs_def)
  then show ?case using 3(1) [OF es(3) s1(2)] es(1) by (simp add: kcheck_def kbind_def)
qed (auto simp: kret_def installs_def list_all2_Cons1)

lemma idt_is_fields:
  "idt_is s' f = idt_is s f" if "mem s' = mem s" "idt_base s' = idt_base s"
  using that by (simp add: idt_is_def gate_at_def)

lemma installs_after:
  assumes "installs m e" "\<And>s f. idt_is (h s) f = idt_is s f"
  shows "installs (\<lambda>s. m (h s)) e"
  using assms unfolding installs_def by metis

lemma installs_timer: "installs (initialize_timer ep cb) (TIMER_IDT_ENTRY, gate_for (ep Timer_handler) INTERRUPT_GATE KERNEL_DPL)"
proof -
  have "initialize_timer ep cb = (\<lambda>s :: 'a dstate_scheme. add_idt_entry (ep Timer_handler) TIMER_IDT_ENTRY INTERRUPT_GATE KERNEL_DPL
      (set_mode_freq (s\<lparr>timer_callback := Some cb\<rparr>)))"
    by (simp add: fun_eq_iff initialize_timer_def install_timer_handler_def kop_defs)
  moreover have "installs (\<lambda>s :: 'a dstate_scheme. add_idt_entry (ep Timer_handler) TIMER_IDT_ENTRY INTERRUPT_GATE KERNEL_DPL
      (set_mode_freq (s\<lparr>timer_callback := Some cb\<rparr>))) (TIMER_IDT_ENTRY, gate_for (ep Timer_handler) INTERRUPT_GATE KERNEL_DPL)"
  proof (rule installs_after)
    show "installs (add_idt_entry (ep Timer_handler) TIMER_IDT_ENTRY INTERRUPT_GATE KERNEL_DPL)
        (TIMER_IDT_ENTRY, gate_for (ep Timer_handler) INTERRUPT_GATE KERNEL_DPL)"
      by (rule installs_add) simp_all
    show "idt_is (set_mode_freq (s\<lparr>timer_callback := Some cb\<rparr>)) f = idt_is s f" for s f
      by (rule idt_is_fields) (simp_all add: set_mode_freq_def Let_def)
  qed
  ultimately show ?thesis by (simp only:)
qed

lemma installs_keyboard: "installs (install_keyboard_handler ep) (KEY_IDT_ENTRY, gate_for (ep Keyboard_handler) TRAP_GATE KERNEL_DPL)"
proof -
  let ?t = "\<lambda>s :: 'a dstate_scheme. upd_links (init_head (waiting_of_mutex (Readline_mutex, 0))) (set_mutex (Readline_mutex, 0) MUTEX_VALID
      (upd_links (init_head (waiting_of_cond (Readline_cond, 0))) (upd_links (init_head (waiting_of_mutex (queue_mutex (Readline_cond, 0))))
        (set_mutex (queue_mutex (Readline_cond, 0)) MUTEX_VALID (set_cond (Readline_cond, 0) COND_VAR_VALID s)))))"
  have "install_keyboard_handler ep = (\<lambda>s. add_idt_entry (ep Keyboard_handler) KEY_IDT_ENTRY TRAP_GATE KERNEL_DPL (?t s))"
    by (simp add: fun_eq_iff install_keyboard_handler_def cond_init_def mutex_init_def kop_defs)
  moreover have "installs (\<lambda>s. add_idt_entry (ep Keyboard_handler) KEY_IDT_ENTRY TRAP_GATE KERNEL_DPL (?t s)) (KEY_IDT_ENTRY, gate_for (ep Keyboard_handler) TRAP_GATE KERNEL_DPL)"
  proof (rule installs_after)
    show "installs (add_idt_entry (ep Keyboard_handler) KEY_IDT_ENTRY TRAP_GATE KERNEL_DPL)
        (KEY_IDT_ENTRY, gate_for (ep Keyboard_handler) TRAP_GATE KERNEL_DPL)"
      by (rule installs_add) simp_all
    show "idt_is (?t s) f = idt_is s f" for s f
      by (rule idt_is_fields) (simp_all add: upd_links_def set_mutex_def set_cond_def)
  qed
  ultimately show ?thesis by (simp only:)
qed

definition fault_gates :: "entry_points \<Rightarrow> (u32 \<times> gate) list" where
  "fault_gates ep = [
      (TIMER_IDT_ENTRY, gate_for (ep Timer_handler) INTERRUPT_GATE KERNEL_DPL),
      (KEY_IDT_ENTRY, gate_for (ep Keyboard_handler) TRAP_GATE KERNEL_DPL),
      (IDT_DE, gate_for (ep Divide_error_handler) TRAP_GATE KERNEL_DPL),
      (IDT_DB, gate_for (ep Debug_exception_handler) TRAP_GATE KERNEL_DPL),
      (IDT_NMI, gate_for (ep Non_maskable_interrupt_handler) TRAP_GATE KERNEL_DPL),
      (IDT_BP, gate_for (ep Breakpoint_handler) TRAP_GATE KERNEL_DPL),
      (IDT_OF, gate_for (ep Overflow_handler) TRAP_GATE KERNEL_DPL),
      (IDT_BR, gate_for (ep Bound_range_handler) TRAP_GATE KERNEL_DPL),
      (IDT_OF, gate_for (ep Undefined_opcode_handler) TRAP_GATE KERNEL_DPL),
      (IDT_NM, gate_for (ep No_math_coprocessor_handler) TRAP_GATE KERNEL_DPL),
      (IDT_CSO, gate_for (ep Cso_handler) TRAP_GATE KERNEL_DPL),
      (IDT_TS, gate_for (ep Invalid_tss_handler) TRAP_GATE KERNEL_DPL),
      (IDT_NP, gate_for (ep Snp_handler) TRAP_GATE KERNEL_DPL),
      (IDT_GP, gate_for (ep Gpf_handler) TRAP_GATE KERNEL_DPL),
      (IDT_PF, gate_for (ep Page_fault_handler) TRAP_GATE KERNEL_DPL),
      (IDT_MF, gate_for (ep Math_fault_handler) TRAP_GATE KERNEL_DPL),
      (IDT_AC, gate_for (ep Alignment_check_handler) TRAP_GATE KERNEL_DPL),
      (IDT_MC, gate_for (ep Machine_check_handler) TRAP_GATE KERNEL_DPL),
      (IDT_XF, gate_for (ep Floating_point_exp_handler) TRAP_GATE KERNEL_DPL)]"

definition syscall_gates :: "entry_points \<Rightarrow> (u32 \<times> gate) list" where
  "syscall_gates ep = [
      (PRINT_INT, gate_for (ep Print_handler) TRAP_GATE USER_DPL),
      (FORK_INT, gate_for (ep Fork_handler) TRAP_GATE USER_DPL),
      (THREAD_FORK_INT, gate_for (ep Thread_fork_handler) TRAP_GATE USER_DPL),
      (EXEC_INT, gate_for (ep Exec_handler) TRAP_GATE USER_DPL),
      (SET_STATUS_INT, gate_for (ep Set_status_handler) TRAP_GATE USER_DPL),
      (HALT_INT, gate_for (ep Halt_handler) TRAP_GATE USER_DPL),
      (WAIT_INT, gate_for (ep Wait_handler) TRAP_GATE USER_DPL),
      (VANISH_INT, gate_for (ep Vanish_handler) TRAP_GATE USER_DPL),
      (NEW_PAGES_INT, gate_for (ep New_pages_handler) TRAP_GATE USER_DPL),
      (REMOVE_PAGES_INT, gate_for (ep Remove_pages_handler) TRAP_GATE USER_DPL),
      (READLINE_INT, gate_for (ep Readline_handler) TRAP_GATE USER_DPL),
      (YIELD_INT, gate_for (ep Yield_handler) TRAP_GATE USER_DPL),
      (SYSCALL_RESERVED_1, gate_for (ep Memory_check_handler) INTERRUPT_GATE USER_DPL),
      (GETTID_INT, gate_for (ep Gettid_handler) TRAP_GATE USER_DPL),
      (DESCHEDULE_INT, gate_for (ep Deschedule_handler) TRAP_GATE USER_DPL),
      (MAKE_RUNNABLE_INT, gate_for (ep Make_runnable_handler) TRAP_GATE USER_DPL),
      (GET_TICKS_INT, gate_for (ep Get_ticks_handler) TRAP_GATE USER_DPL),
      (SLEEP_INT, gate_for (ep Sleep_handler) TRAP_GATE USER_DPL),
      (SWEXN_INT, gate_for (ep Swexn_handler) TRAP_GATE USER_DPL),
      (READFILE_INT, gate_for (ep Readfile_handler) TRAP_GATE USER_DPL),
      (SET_TERM_COLOR_INT, gate_for (ep Set_term_color_handler) TRAP_GATE USER_DPL),
      (SET_CURSOR_POS_INT, gate_for (ep Set_cursor_pos_handler) TRAP_GATE USER_DPL),
      (GET_CURSOR_POS_INT, gate_for (ep Get_cursor_pos_handler) TRAP_GATE USER_DPL),
      (GETCHAR_INT, gate_for (ep Getchar_handler) TRAP_GATE USER_DPL)]"

lemma install_handlers_gates:
  "idt_is s f \<Longrightarrow> \<exists>s'. install_handlers ep s = Ok 0 s' \<and> idt_is s' (fold (\<lambda>e f. f(fst e := snd e)) (fault_gates ep) f)"
  unfolding install_handlers_def
  by (rule installs_all) (simp add: fault_gates_def
    install_divide_error_handler_def install_debug_exception_handler_def
    install_non_maskable_interrupt_handler_def install_breakpoint_handler_def
    install_overflow_handler_def install_bound_range_handler_def
    install_undefined_opcode_handler_def install_no_math_coprocessor_handler_def
    install_cso_handler_def install_invalid_tss_handler_def install_snp_handler_def
    install_gpf_handler_def install_page_fault_handler_def install_math_fault_handler_def
    install_alignment_check_handler_def install_machine_check_handler_def
    install_floating_point_exp_handler_def,
      intro conjI installs_timer installs_keyboard installs_add; simp)

lemma install_syscall_handlers_gates:
  "idt_is s f \<Longrightarrow> \<exists>s'. install_syscall_handlers ep s = Ok 0 s' \<and> idt_is s' (fold (\<lambda>e f. f(fst e := snd e)) (syscall_gates ep) f)"
  unfolding install_syscall_handlers_def
  by (rule installs_all) (simp add: syscall_gates_def
    install_print_handler_def install_fork_handler_def install_thread_fork_handler_def
    install_exec_handler_def install_set_status_handler_def install_halt_handler_def
    install_wait_handler_def install_vanish_handler_def install_new_pages_handler_def
    install_remove_pages_handler_def install_readline_handler_def install_yield_handler_def
    install_memcheck_handler_def install_gettid_handler_def install_deschedule_handler_def
    install_make_runnable_handler_def install_get_ticks_handler_def install_sleep_handler_def
    install_swexn_handler_def install_readfile_handler_def install_set_term_color_handler_def
    install_set_cursor_pos_handler_def install_get_cursor_pos_handler_def
    install_getchar_handler_def,
      intro conjI installs_timer installs_keyboard installs_add; simp)

text \<open>
  Installing a gate.  \<^verbatim>\<open>add_idt_entry\<close> succeeds for both kinds of gate; the processor then decodes the
  entry to the handler's address, the kernel code segment, the requested type and privilege level and
  the present bit, whatever the uninitialised bits were, and no other entry changes.
\<close>

lemma add_idt_entry_correct:
  assumes "4 dvd unat (idt_base s)" "n < 256" "dpl < 4" "type = TRAP_GATE \<or> type = INTERRUPT_GATE"
  shows "\<exists>s'. add_idt_entry hdl n type dpl s = Ok 0 s' \<and> gate_at s' n = gate_for hdl type dpl
    \<and> (\<forall>m < 256. m \<noteq> n \<longrightarrow> gate_at s' m = gate_at s m)"
proof -
  have "idt_is s (gate_at s)" using assms(1) by (simp add: idt_is_def)
  then obtain g where "add_idt_entry hdl n type dpl s = Ok 0 (upd_mem g s)"
    "idt_is (upd_mem g s) ((gate_at s)(n := gate_for hdl type dpl))"
    using add_idt_entry_effect [OF _ assms(2-4)] by blast
  then show ?thesis using assms(2) by (intro exI [of _ "upd_mem g s"]) (simp add: idt_is_def)
qed

text \<open>
  C26: The fault handlers.  After \<^verbatim>\<open>install_handlers\<close> the timer, the keyboard and the faults have their
  handlers, with two exceptions: the handler for undefined opcodes is installed for the overflow vector
  (4), replacing the overflow handler, so that the vectors 6 (undefined opcode) and 12 (stack fault) are left as they were.
\<close>

theorem install_handlers_vectors:
  assumes "4 dvd unat (idt_base s)"
  shows "\<exists>s'. install_handlers ep s = Ok 0 s' \<and> gate_at s' TIMER_IDT_ENTRY = gate_for (ep Timer_handler) INTERRUPT_GATE KERNEL_DPL
    \<and> gate_at s' KEY_IDT_ENTRY = gate_for (ep Keyboard_handler) TRAP_GATE KERNEL_DPL
    \<and> gate_at s' IDT_PF = gate_for (ep Page_fault_handler) TRAP_GATE KERNEL_DPL
    \<and> gate_at s' IDT_DE = gate_for (ep Divide_error_handler) TRAP_GATE KERNEL_DPL
    \<and> gate_at s' IDT_GP = gate_for (ep Gpf_handler) TRAP_GATE KERNEL_DPL
    \<and> gate_at s' IDT_OF = gate_for (ep Undefined_opcode_handler) TRAP_GATE KERNEL_DPL
    \<and> gate_at s' IDT_UD = gate_at s IDT_UD \<and> gate_at s' IDT_SS = gate_at s IDT_SS"
proof -
  have "idt_is s (gate_at s)" using assms by (simp add: idt_is_def)
  then obtain s' where "install_handlers ep s = Ok 0 s'"
    "idt_is s' (fold (\<lambda>e f. f(fst e := snd e)) (fault_gates ep) (gate_at s))"
    using install_handlers_gates by blast
  then show ?thesis by (intro exI [of _ s']) (simp add: idt_is_def fault_gates_def)
qed

theorem install_handlers_vectors_witness:
  "\<exists>s'. install_handlers (\<lambda>_. 0x00100000) blank_console = Ok 0 s' \<and> gate_at s' IDT_UD = gate_at blank_console IDT_UD"
proof -
  have "idt_base blank_console = 0x1000"
    unfolding blank_console_def mstate.extend_def dstate.fields_def by simp
  then show ?thesis
    using install_handlers_vectors [where s = blank_console and ep = "\<lambda>_. 0x00100000"] by auto
qed



end
