(* ===== verification/Keyboard.thy ===== *)
theory Keyboard
  imports Idt
begin

text \<open>
  The keyboard driver, \<^verbatim>\<open>kern/drivers/keyboard/keyboard.c\<close>, and its circular buffer,
  \<^verbatim>\<open>keyboard_circular_buffer.c\<close>.  The scancode that \<^verbatim>\<open>inb\<close> reads from the keyboard port is an argument of
  the interrupt handler.
\<close>

section \<open>The circular buffer\<close>

definition KEYBOARD_BUFFER_SIZE :: int where "KEYBOARD_BUFFER_SIZE = 2000"
abbreviation (input) NOT_PRESENT :: int where "NOT_PRESENT \<equiv> - 1"

definition NEXT :: "int \<Rightarrow> int" where
  "NEXT i = (i + 1) mod KEYBOARD_BUFFER_SIZE"

definition PREV :: "int \<Rightarrow> int" where
  "PREV i = (if i = 0 then KEYBOARD_BUFFER_SIZE - 1 else i - 1)"

definition add_keystroke :: "u8 \<Rightarrow> 'a dstate_scheme \<Rightarrow> 'a dstate_scheme" where
  "add_keystroke c s =
     (if NEXT (end_ptr s) = start_ptr s then s
      else let s1 = s\<lparr>key_buf := (key_buf s)(end_ptr s := sint c)\<rparr>;
               s2 = (if c = 0x0A \<and> newline_ptr s1 = - 1 then s1\<lparr>newline_ptr := end_ptr s1\<rparr> else s1)
        in if c = 0x08 then
             if end_ptr s2 \<noteq> start_ptr s2 then putbyte c (s2\<lparr>end_ptr := PREV (end_ptr s2)\<rparr>) else s2
           else let s3 = putbyte c s2 in s3\<lparr>end_ptr := NEXT (end_ptr s3)\<rparr>)"

text \<open>The loop of \<^verbatim>\<open>get_nextline\<close> with \<open>n\<close> iterations left and the number of bytes copied so far.\<close>

fun copy_line :: "nat \<Rightarrow> u32 \<Rightarrow> int \<Rightarrow> (int, 'a dstate_scheme) kop" where
  "copy_line 0 buf i = kret i"
| "copy_line (Suc n) buf i = kbind (kgets (\<lambda>s. (start_ptr s, newline_ptr s, key_buf s (start_ptr s)))) (\<lambda>(st, nl, c).
     if st = nl then kret i
     else kthen (vstore8 (buf + word_of_int i) (word_of_int c))
       (kthen (kmodify (\<lambda>s. s\<lparr>start_ptr := NEXT (start_ptr s)\<rparr>)) (copy_line n buf (i + 1))))"

partial_function (option) start_loop :: "int \<Rightarrow> int \<Rightarrow> int option" where
  "start_loop nl st = (if st = nl then Some (NEXT st) else start_loop nl (NEXT st))"

definition update_start_ptr :: "(unit, 'a dstate_scheme) kop" where
  "update_start_ptr = kloop (\<lambda>s. map_option (\<lambda>st. ((), s\<lparr>start_ptr := st\<rparr>)) (start_loop (newline_ptr s) (start_ptr s)))"

partial_function (option) newline_loop :: "(int \<Rightarrow> int) \<Rightarrow> int \<Rightarrow> int \<Rightarrow> int option" where
  "newline_loop buf e nl =
     (if buf nl \<noteq> 0x0A then if nl = e then Some NOT_PRESENT else newline_loop buf e (NEXT nl)
      else Some nl)"

definition update_newline_ptr :: "(unit, 'a dstate_scheme) kop" where
  "update_newline_ptr = kloop (\<lambda>s. map_option (\<lambda>nl. ((), s\<lparr>newline_ptr := nl\<rparr>))
     (newline_loop (key_buf s) (end_ptr s) (NEXT (newline_ptr s))))"

definition get_nextline :: "u32 \<Rightarrow> int \<Rightarrow> (int, 'a dstate_scheme) kop" where
  "get_nextline buf len =
     (if buf = 0 \<or> len \<ge> KEYBOARD_BUFFER_SIZE then kret ERR_INVAL
      else kbind (kgets newline_ptr) (\<lambda>nl.
        if nl = - 1 then kret ERR_NOTAVAIL
        else kbind (copy_line (nat len) buf 0) (\<lambda>num_bytes.
          kthen (kseq [update_start_ptr, update_newline_ptr]) (kret num_bytes))))"

definition get_nextchar :: "(int, 'a dstate_scheme) kop" where
  "get_nextchar = kbind (kgets newline_ptr) (\<lambda>nl.
     if nl = - 1 then kret ERR_NOTAVAIL
     else kbind (kgets (\<lambda>s. key_buf s (start_ptr s))) (\<lambda>c.
       kthen (kmodify (\<lambda>s. s\<lparr>start_ptr := start_ptr s + 1\<rparr>)) (kret c)))"

section \<open>The driver\<close>

definition readchar :: "(int, 'a dstate_scheme) kop" where
  "readchar = get_nextchar"

definition nextline :: "u32 \<Rightarrow> int \<Rightarrow> (int, 'a dstate_scheme) kop" where
  "nextline buf len = get_nextline buf len"

definition enqueue_scancode :: "u8 \<Rightarrow> (unit, 'a dstate_scheme) kop" where
  "enqueue_scancode in_byte =
     kbind (\<lambda>s. case process_scancode in_byte (keyhelp_state s) of (key, k) \<Rightarrow> Ok key (s\<lparr>keyhelp_state := k\<rparr>)) (\<lambda>key.
       kthen (kwhen (KH_HASDATA key \<and> \<not> KH_ISMAKE key)
         (let c = ucast (KH_GETCHAR key) :: u8
          in kthen (kmodify (add_keystroke c)) (kwhen (c = 0x0A) (cond_signal readline_cond_var))))
         (kmodify acknowledge_interrupt))"

section \<open>The buffer as a queue\<close>

text \<open>The characters between the two pointers, oldest first.\<close>

definition fill :: "'a dstate_scheme \<Rightarrow> nat" where
  "fill s = nat ((end_ptr s - start_ptr s) mod KEYBOARD_BUFFER_SIZE)"

definition keys :: "'a dstate_scheme \<Rightarrow> int list" where
  "keys s = map (\<lambda>i. key_buf s ((start_ptr s + int i) mod KEYBOARD_BUFFER_SIZE)) [0..<fill s]"

definition buffer_ok :: "'a dstate_scheme \<Rightarrow> bool" where
  "buffer_ok s \<longleftrightarrow> 0 \<le> start_ptr s \<and> start_ptr s < KEYBOARD_BUFFER_SIZE \<and> 0 \<le> end_ptr s \<and> end_ptr s < KEYBOARD_BUFFER_SIZE"

text \<open>The newline pointer is at the first newline of the queue.\<close>

definition newline_ok :: "'a dstate_scheme \<Rightarrow> bool" where
  "newline_ok s \<longleftrightarrow> newline_ptr s = (if 0x0A \<in> set (keys s)
     then (start_ptr s + int (length (takeWhile (\<lambda>c. c \<noteq> 0x0A) (keys s)))) mod KEYBOARD_BUFFER_SIZE else NOT_PRESENT)"

lemma buffer_size_pos [simp]: "0 < KEYBOARD_BUFFER_SIZE" "1 < KEYBOARD_BUFFER_SIZE"
  by (simp_all add: KEYBOARD_BUFFER_SIZE_def)

lemma ring_slot_inj:
  assumes "(a + int i) mod KEYBOARD_BUFFER_SIZE = (a + int j) mod KEYBOARD_BUFFER_SIZE"
    "int i < KEYBOARD_BUFFER_SIZE" "int j < KEYBOARD_BUFFER_SIZE"
  shows "i = j"
proof -
  have "(int i) mod KEYBOARD_BUFFER_SIZE = (int j) mod KEYBOARD_BUFFER_SIZE"
    using assms(1) mod_diff_cong [of "a + int i" KEYBOARD_BUFFER_SIZE "a + int j" a a] by simp
  then show ?thesis using assms(2,3) by simp
qed

lemma fill_less: "int (fill s) < KEYBOARD_BUFFER_SIZE"
  by (simp add: fill_def)

lemma end_slot:
  assumes "buffer_ok s"
  shows "(start_ptr s + int (fill s)) mod KEYBOARD_BUFFER_SIZE = end_ptr s"
  using assms by (simp add: fill_def buffer_ok_def mod_add_right_eq)

lemma full_iff:
  assumes "buffer_ok s"
  shows "NEXT (end_ptr s) = start_ptr s \<longleftrightarrow> int (fill s) + 1 = KEYBOARD_BUFFER_SIZE"
proof
  have "NEXT (end_ptr s) = (start_ptr s + (int (fill s) + 1)) mod KEYBOARD_BUFFER_SIZE"
    unfolding NEXT_def end_slot [OF assms, symmetric] by (simp add: mod_add_left_eq add.assoc)
  then have n: "NEXT (end_ptr s) = (start_ptr s + int (fill s + 1)) mod KEYBOARD_BUFFER_SIZE" by (simp add: add.commute)
  have s0: "start_ptr s = (start_ptr s + int 0) mod KEYBOARD_BUFFER_SIZE" using assms by (simp add: buffer_ok_def)
  show "int (fill s) + 1 = KEYBOARD_BUFFER_SIZE" if "NEXT (end_ptr s) = start_ptr s"
  proof (rule ccontr)
    assume "int (fill s) + 1 \<noteq> KEYBOARD_BUFFER_SIZE"
    then have "int (fill s + 1) < KEYBOARD_BUFFER_SIZE" using fill_less [of s] by linarith
    then have "fill s + 1 = 0" using ring_slot_inj [of "start_ptr s" "fill s + 1" 0] that n s0 by simp
    then show False by simp
  qed
  show "NEXT (end_ptr s) = start_ptr s" if "int (fill s) + 1 = KEYBOARD_BUFFER_SIZE"
    using n that s0 by (simp add: add.commute)
qed

lemma fill_after:
  assumes "buffer_ok s" "n \<le> fill s + 1" "int n < KEYBOARD_BUFFER_SIZE"
    and "start_ptr s' = start_ptr s" "end_ptr s' = (start_ptr s + int n) mod KEYBOARD_BUFFER_SIZE"
  shows "fill s' = n"
proof -
  have "(end_ptr s' - start_ptr s') mod KEYBOARD_BUFFER_SIZE = int n"
    using assms(3-5) by (simp add: mod_diff_left_eq)
  then show ?thesis by (simp add: fill_def)
qed

lemma upd_mem_kfields [simp]:
  "key_buf (upd_mem f s) = key_buf s" "start_ptr (upd_mem f s) = start_ptr s" "end_ptr (upd_mem f s) = end_ptr s"
  "newline_ptr (upd_mem f s) = newline_ptr s"
  by (simp_all add: upd_mem_def)

lemma console_kfields [simp]:
  "key_buf (set_logical_cursor r c s) = key_buf s" "start_ptr (set_logical_cursor r c s) = start_ptr s"
  "end_ptr (set_logical_cursor r c s) = end_ptr s" "newline_ptr (set_logical_cursor r c s) = newline_ptr s"
  "key_buf (print_char ch r c col s) = key_buf s" "start_ptr (print_char ch r c col s) = start_ptr s"
  "end_ptr (print_char ch r c col s) = end_ptr s" "newline_ptr (print_char ch r c col s) = newline_ptr s"
  "key_buf (scroll_screen n s) = key_buf s" "start_ptr (scroll_screen n s) = start_ptr s"
  "end_ptr (scroll_screen n s) = end_ptr s" "newline_ptr (scroll_screen n s) = newline_ptr s"
  by (simp_all add: set_logical_cursor_def print_char_def scroll_screen_def empty_fill_def Let_def)

lemma putbyte_kfields [simp]:
  "key_buf (putbyte c s) = key_buf s" "start_ptr (putbyte c s) = start_ptr s" "end_ptr (putbyte c s) = end_ptr s"
  "newline_ptr (putbyte c s) = newline_ptr s"
  by (simp_all add: putbyte_def Let_def)

lemma keys_append:
  assumes "buffer_ok s" "int (fill s) + 1 < KEYBOARD_BUFFER_SIZE" "start_ptr s' = start_ptr s" "end_ptr s' = NEXT (end_ptr s)"
    "key_buf s' = (key_buf s)(end_ptr s := c)"
  shows "buffer_ok s' \<and> keys s' = keys s @ [c]"
proof -
  have e: "end_ptr s' = (start_ptr s + int (fill s + 1)) mod KEYBOARD_BUFFER_SIZE"
    unfolding assms(4) NEXT_def end_slot [OF assms(1), symmetric] by (simp add: mod_add_left_eq mod_add_right_eq algebra_simps)
  have f: "fill s' = fill s + 1" using fill_after [OF assms(1) _ _ assms(3) e] assms(2) by simp
  have "key_buf s' ((start_ptr s + int i) mod KEYBOARD_BUFFER_SIZE) = key_buf s ((start_ptr s + int i) mod KEYBOARD_BUFFER_SIZE)"
    if "i < fill s" for i
    using that ring_slot_inj [of "start_ptr s" i "fill s"] end_slot [OF assms(1)] fill_less [of s] assms(5) by auto
  then have "keys s' = keys s @ [c]"
    unfolding keys_def f using end_slot [OF assms(1)] assms(3,5) by simp
  moreover have "buffer_ok s'" using assms(1,3) e by (simp add: buffer_ok_def)
  ultimately show ?thesis by simp
qed

lemma PREV_mod: "0 \<le> i \<Longrightarrow> i < KEYBOARD_BUFFER_SIZE \<Longrightarrow> PREV i = (i - 1) mod KEYBOARD_BUFFER_SIZE"
  by (cases "i = 0") (simp_all add: PREV_def zmod_minus1)

lemma keys_butlast:
  assumes "buffer_ok s" "end_ptr s \<noteq> start_ptr s" "start_ptr s' = start_ptr s" "end_ptr s' = PREV (end_ptr s)"
    "key_buf s' = (key_buf s)(end_ptr s := c)"
  shows "buffer_ok s' \<and> keys s \<noteq> [] \<and> keys s' = butlast (keys s)"
proof -
  have pos: "0 < fill s"
    using end_slot [OF assms(1)] assms(1,2) by (cases "fill s") (auto simp: buffer_ok_def)
  have "end_ptr s' = (end_ptr s - 1) mod KEYBOARD_BUFFER_SIZE"
    using assms(1,4) by (simp add: PREV_mod buffer_ok_def)
  also have "\<dots> = (start_ptr s + int (fill s - 1)) mod KEYBOARD_BUFFER_SIZE"
    unfolding end_slot [OF assms(1), symmetric] using pos by (simp add: mod_diff_left_eq of_nat_diff algebra_simps)
  finally have e: "end_ptr s' = (start_ptr s + int (fill s - 1)) mod KEYBOARD_BUFFER_SIZE" .
  have f: "fill s' = fill s - 1" using fill_after [OF assms(1) _ _ assms(3) e] fill_less [of s] by simp
  have same: "key_buf s' ((start_ptr s + int i) mod KEYBOARD_BUFFER_SIZE) = key_buf s ((start_ptr s + int i) mod KEYBOARD_BUFFER_SIZE)"
    if "i < fill s" for i
    using that ring_slot_inj [of "start_ptr s" i "fill s"] end_slot [OF assms(1)] fill_less [of s] assms(5) by auto
  have "keys s' = map (\<lambda>i. key_buf s ((start_ptr s + int i) mod KEYBOARD_BUFFER_SIZE)) [0..<fill s - 1]"
    unfolding keys_def f assms(3) using same by (intro map_cong) auto
  also have "\<dots> = butlast (keys s)" using pos by (cases "fill s") (simp_all add: keys_def)
  finally show ?thesis using assms(1,3) e pos by (simp add: buffer_ok_def keys_def)
qed

text \<open>What \<^verbatim>\<open>add_keystroke\<close> does to the queue and to the newline pointer.\<close>

definition after_key :: "u8 \<Rightarrow> int list \<Rightarrow> int list" where
  "after_key c ks = (if int (length ks) + 1 = KEYBOARD_BUFFER_SIZE then ks
     else if c = 0x08 then butlast ks else ks @ [sint c])"

lemma length_keys [simp]: "length (keys s) = fill s"
  by (simp add: keys_def)

lemma sint_newline: "sint (c :: u8) = 0x0A \<longleftrightarrow> c = 0x0A"
proof
  assume "sint c = 0x0A"
  then have "(of_int (sint c) :: u8) = of_int 0x0A" by (rule arg_cong)
  then show "c = 0x0A" by simp
qed simp

lemma add_keystroke_queue:
  assumes "buffer_ok s"
  shows "buffer_ok (add_keystroke c s) \<and> keys (add_keystroke c s) = after_key c (keys s)
    \<and> start_ptr (add_keystroke c s) = start_ptr s"
proof -
  let ?s = "add_keystroke c s"
  consider "NEXT (end_ptr s) = start_ptr s" | "NEXT (end_ptr s) \<noteq> start_ptr s" "c = 0x08" "end_ptr s = start_ptr s"
    | "NEXT (end_ptr s) \<noteq> start_ptr s" "c = 0x08" "end_ptr s \<noteq> start_ptr s" | "NEXT (end_ptr s) \<noteq> start_ptr s" "c \<noteq> 0x08"
    by blast
  then show ?thesis
  proof cases
    case 1
    then have "?s = s" by (simp add: add_keystroke_def)
    then show ?thesis using 1 full_iff [OF assms] assms by (simp add: after_key_def)
  next
    case 2
    then have s': "?s = s\<lparr>key_buf := (key_buf s)(end_ptr s := sint c)\<rparr>" by (simp add: add_keystroke_def)
    have "fill s = 0" "fill ?s = 0" using 2 unfolding s' by (simp_all add: fill_def)
    then show ?thesis using assms 2 unfolding s' by (simp add: buffer_ok_def keys_def after_key_def)
  next
    case 3
    have k: "start_ptr ?s = start_ptr s" "end_ptr ?s = PREV (end_ptr s)" "key_buf ?s = (key_buf s)(end_ptr s := sint c)"
      using 3 by (simp_all add: add_keystroke_def Let_def)
    show ?thesis
      using keys_butlast [OF assms 3(3) k] k(1) 3(1,2) full_iff [OF assms] by (simp add: after_key_def)
  next
    case 4
    have k: "start_ptr ?s = start_ptr s" "end_ptr ?s = NEXT (end_ptr s)" "key_buf ?s = (key_buf s)(end_ptr s := sint c)"
      using 4 by (simp_all add: add_keystroke_def Let_def)
    have "int (fill s) + 1 < KEYBOARD_BUFFER_SIZE" using 4(1) full_iff [OF assms] fill_less [of s] by linarith
    then show ?thesis
      using keys_append [OF assms _ k] k(1) 4 by (simp add: after_key_def)
  qed
qed

lemma newline_absent:
  assumes "newline_ok s"
  shows "newline_ptr s = - 1 \<longleftrightarrow> 0x0A \<notin> set (keys s)"
proof -
  have "0 \<le> x mod KEYBOARD_BUFFER_SIZE" for x by simp
  then have "x mod KEYBOARD_BUFFER_SIZE \<noteq> - 1" for x by (metis neg_0_le_iff_le not_one_le_zero)
  then show ?thesis using assms by (simp add: newline_ok_def )
qed

lemma takeWhile_butlast:
  assumes "x \<in> set (butlast xs)"
  shows "takeWhile (\<lambda>c. c \<noteq> x) (butlast xs) = takeWhile (\<lambda>c. c \<noteq> x) xs"
proof -
  have "xs \<noteq> []" using assms by auto
  then have "xs = butlast xs @ [last xs]" by simp
  then have "takeWhile (\<lambda>c. c \<noteq> x) xs = takeWhile (\<lambda>c. c \<noteq> x) (butlast xs @ [last xs])" by simp
  also have "\<dots> = takeWhile (\<lambda>c. c \<noteq> x) (butlast xs)" using assms by (subst takeWhile_append1) auto
  finally show ?thesis by simp
qed

lemma in_butlast: "x \<in> set xs \<Longrightarrow> last xs \<noteq> x \<Longrightarrow> x \<in> set (butlast xs)"
  by (cases xs rule: rev_cases) auto

lemma add_keystroke_newline:
  assumes "buffer_ok s" "newline_ok s" and b: "c = 0x08 \<Longrightarrow> keys s \<noteq> [] \<Longrightarrow> last (keys s) \<noteq> 0x0A"
  shows "newline_ok (add_keystroke c s)"
proof -
  let ?s = "add_keystroke c s"
  note q = add_keystroke_queue [OF assms(1), of c]
  have st: "start_ptr ?s = start_ptr s" using q by simp
  show ?thesis
  proof (cases "NEXT (end_ptr s) = start_ptr s")
    case True
    then show ?thesis using assms(2) by (simp add: add_keystroke_def)
  next
    case False
    then have ks: "keys ?s = (if c = 0x08 then butlast (keys s) else keys s @ [sint c])"
      using q full_iff [OF assms(1)] by (simp add: after_key_def)
    have nl: "newline_ptr ?s = (if c = 0x0A \<and> 0x0A \<notin> set (keys s) then end_ptr s else newline_ptr s)"
      using False newline_absent [OF assms(2)] by (simp add: add_keystroke_def Let_def)
    show ?thesis
    proof (cases "c = 0x08")
      case True
      have "0x0A \<in> set (keys ?s) \<longleftrightarrow> 0x0A \<in> set (keys s)"
      proof -
        have "last (keys s) \<noteq> 0x0A" if "0x0A \<in> set (keys s)" using that b True by (metis emptyE empty_set)
        then show ?thesis using in_butlast [of "0x0A" "keys s"] in_set_butlastD [of "0x0A" "keys s"] unfolding ks if_P [OF True] by blast
      qed
      moreover have "takeWhile (\<lambda>c. c \<noteq> 0x0A) (keys ?s) = takeWhile (\<lambda>c. c \<noteq> 0x0A) (keys s)" if "0x0A \<in> set (keys ?s)"
        using that takeWhile_butlast [of "0x0A" "keys s"] unfolding ks if_P [OF True] by blast
      ultimately show ?thesis using True nl assms(2) st by (simp add: newline_ok_def)
    next
      case False
      show ?thesis
      proof (cases "0x0A \<in> set (keys s)")
        case True
        then have "takeWhile (\<lambda>c. c \<noteq> 0x0A) (keys s @ [sint c]) = takeWhile (\<lambda>c. c \<noteq> 0x0A) (keys s)"
          by (intro takeWhile_append1) auto
        then show ?thesis using True nl assms(2) st \<open>c \<noteq> 0x08\<close> by (simp add: newline_ok_def ks)
      next
        case no: False
        then have tw: "takeWhile (\<lambda>c. c \<noteq> 0x0A) (keys s @ [0x0A]) = keys s" by (subst takeWhile_append2) auto
        show ?thesis
        proof (cases "c = 0x0A")
          case True
          then show ?thesis
            using no nl st tw end_slot [OF assms(1)] unfolding newline_ok_def ks by simp
        next
          case False
          then show ?thesis
            using no nl assms(2) st \<open>c \<noteq> 0x08\<close> unfolding newline_ok_def ks by (simp add: sint_newline)
        qed
      qed
    qed
  qed
qed


section \<open>Reading a line\<close>

lemma NEXT_slot: "NEXT ((a + int i) mod KEYBOARD_BUFFER_SIZE) = (a + int (Suc i)) mod KEYBOARD_BUFFER_SIZE"
  by (simp add: NEXT_def mod_add_left_eq mod_add_right_eq algebra_simps)

lemma NEXT_start: "0 \<le> a \<Longrightarrow> a < KEYBOARD_BUFFER_SIZE \<Longrightarrow> NEXT a = (a + int (Suc 0)) mod KEYBOARD_BUFFER_SIZE"
  by (simp add: NEXT_def)

lemma start_loop_end:
  assumes "int n < KEYBOARD_BUFFER_SIZE"
  shows "i \<le> n \<Longrightarrow> start_loop ((a + int n) mod KEYBOARD_BUFFER_SIZE) ((a + int i) mod KEYBOARD_BUFFER_SIZE)
    = Some ((a + int (Suc n)) mod KEYBOARD_BUFFER_SIZE)"
proof (induction "n - i" arbitrary: i)
  case 0
  then show ?case by (subst start_loop.simps) (simp add: NEXT_slot)
next
  case (Suc d)
  have "(a + int i) mod KEYBOARD_BUFFER_SIZE \<noteq> (a + int n) mod KEYBOARD_BUFFER_SIZE"
    using ring_slot_inj [of a i n] Suc assms by auto
  then show ?case using Suc.hyps(1) [of "Suc i"] Suc.hyps(2) by (subst start_loop.simps) (simp add: NEXT_slot)
qed

lemma newline_loop_end:
  assumes "int n < KEYBOARD_BUFFER_SIZE" "\<forall>j<n. buf ((a + int j) mod KEYBOARD_BUFFER_SIZE) \<noteq> 0x0A"
  shows "i \<le> n \<Longrightarrow> (n < m \<and> buf ((a + int n) mod KEYBOARD_BUFFER_SIZE) = 0x0A \<and> int m < KEYBOARD_BUFFER_SIZE \<or> m = n) \<Longrightarrow>
    newline_loop buf ((a + int m) mod KEYBOARD_BUFFER_SIZE) ((a + int i) mod KEYBOARD_BUFFER_SIZE)
      = Some (if buf ((a + int n) mod KEYBOARD_BUFFER_SIZE) = 0x0A then (a + int n) mod KEYBOARD_BUFFER_SIZE else NOT_PRESENT)"
proof (induction "n - i" arbitrary: i)
  case 0
  then show ?case by (subst newline_loop.simps) auto
next
  case (Suc d)
  have "(a + int i) mod KEYBOARD_BUFFER_SIZE \<noteq> (a + int m) mod KEYBOARD_BUFFER_SIZE"
    using ring_slot_inj [of a i m] Suc assms by auto
  moreover have "buf ((a + int i) mod KEYBOARD_BUFFER_SIZE) \<noteq> 0x0A" using Suc assms(2) by simp
  ultimately show ?case
    using Suc.hyps(1) [of "Suc i"] Suc.hyps(2) Suc.prems by (subst newline_loop.simps) (simp add: NEXT_slot)
qed

lemma copy_line_effect:
  assumes "writable_buffer s0 {} buf m pa"
  shows "i + n \<le> m \<Longrightarrow> cr3 s = cr3 s0 \<Longrightarrow> \<forall>a. a \<notin> pa ` {..<m} \<longrightarrow> mem s a = mem s0 a \<Longrightarrow>
    0 \<le> start_ptr s \<Longrightarrow> start_ptr s < KEYBOARD_BUFFER_SIZE \<Longrightarrow> int l < KEYBOARD_BUFFER_SIZE \<Longrightarrow>
    newline_ptr s = (start_ptr s + int l) mod KEYBOARD_BUFFER_SIZE \<Longrightarrow>
    \<exists>M. copy_line n buf (int i) s = Ok (int (i + min n l)) (s\<lparr>mem := M, start_ptr := (start_ptr s + int (min n l)) mod KEYBOARD_BUFFER_SIZE\<rparr>)
      \<and> (\<forall>j < min n l. M (pa (i + j)) = word_of_int (key_buf s ((start_ptr s + int j) mod KEYBOARD_BUFFER_SIZE)))
      \<and> (\<forall>a. a \<notin> pa ` {i..<i + min n l} \<longrightarrow> M a = mem s a)"
proof (induction n arbitrary: i l s)
  case 0
  then show ?case by (intro exI [of _ "mem s"]) (simp add: kret_def)
next
  case (Suc n)
  show ?case
  proof (cases l)
    case 0
    then show ?thesis using Suc.prems by (intro exI [of _ "mem s"]) (simp add: kop_defs)
  next
    case (Suc l')
    let ?c = "word_of_int (key_buf s (start_ptr s)) :: u8"
    define t where "t = s\<lparr>mem := (mem s)(pa i := ?c), start_ptr := NEXT (start_ptr s)\<rparr>"
    have pa: "vaddr s (buf + word_of_int (int i)) = Some (pa i)"
    proof -
      have "vaddr (s0\<lparr>mem := mem s\<rparr>) (buf + of_nat i) = Some (pa i)"
        using assms Suc.prems(1,3) unfolding writable_buffer_def by simp
      then show ?thesis using vaddr_cong [of s "s0\<lparr>mem := mem s\<rparr>"] Suc.prems(2) by simp
    qed
    have neq: "start_ptr s \<noteq> newline_ptr s"
      using ring_slot_inj [of "start_ptr s" 0 l] Suc.prems(4-7) \<open>l = Suc l'\<close> by auto
    have step: "copy_line (Suc n) buf (int i) s = copy_line n buf (int (Suc i)) t"
      using neq pa by (simp add: kop_defs vstore8_def upd_mem_def t_def add.commute)
    have t: "start_ptr t = (start_ptr s + int (Suc 0)) mod KEYBOARD_BUFFER_SIZE" "newline_ptr t = newline_ptr s"
      "cr3 t = cr3 s" "key_buf t = key_buf s" "mem t = (mem s)(pa i := ?c)"
      using NEXT_start [OF Suc.prems(4,5)] by (simp_all add: t_def)
    have slot: "(start_ptr t + int j) mod KEYBOARD_BUFFER_SIZE = (start_ptr s + int (Suc j)) mod KEYBOARD_BUFFER_SIZE" for j
      unfolding t(1) by (simp add: mod_add_left_eq mod_add_right_eq algebra_simps)
    have "\<exists>M. copy_line n buf (int (Suc i)) t = Ok (int (Suc i + min n l')) (t\<lparr>mem := M, start_ptr := (start_ptr t + int (min n l')) mod KEYBOARD_BUFFER_SIZE\<rparr>)
      \<and> (\<forall>j < min n l'. M (pa (Suc i + j)) = word_of_int (key_buf t ((start_ptr t + int j) mod KEYBOARD_BUFFER_SIZE)))
      \<and> (\<forall>a. a \<notin> pa ` {Suc i..<Suc i + min n l'} \<longrightarrow> M a = mem t a)"
    proof (rule Suc.IH)
      show "\<forall>a. a \<notin> pa ` {..<m} \<longrightarrow> mem t a = mem s0 a" using Suc.prems(1,3) t(5) by auto
      show "newline_ptr t = (start_ptr t + int l') mod KEYBOARD_BUFFER_SIZE"
        unfolding slot t(2) using Suc.prems(7) \<open>l = Suc l'\<close> by simp
    qed (use Suc.prems t \<open>l = Suc l'\<close> in auto)
    then obtain M where M: "copy_line n buf (int (Suc i)) t = Ok (int (Suc i + min n l')) (t\<lparr>mem := M, start_ptr := (start_ptr t + int (min n l')) mod KEYBOARD_BUFFER_SIZE\<rparr>)"
      "\<forall>j < min n l'. M (pa (Suc i + j)) = word_of_int (key_buf t ((start_ptr t + int j) mod KEYBOARD_BUFFER_SIZE))"
      "\<forall>a. a \<notin> pa ` {Suc i..<Suc i + min n l'} \<longrightarrow> M a = mem t a" by blast
    have "pa i \<notin> pa ` {Suc i..<Suc i + min n l'}"
      using assms Suc.prems(1) unfolding writable_buffer_def inj_on_def by fastforce
    then have first: "M (pa i) = ?c" using M(3) t(5) by simp
    have k: "min (Suc n) l = Suc (min n l')" using \<open>l = Suc l'\<close> by simp
    show ?thesis unfolding k
    proof (intro exI [of _ M] conjI allI impI)
      show "copy_line (Suc n) buf (int i) s = Ok (int (i + Suc (min n l')))
          (s\<lparr>mem := M, start_ptr := (start_ptr s + int (Suc (min n l'))) mod KEYBOARD_BUFFER_SIZE\<rparr>)"
        unfolding step M(1) slot by (simp add: t_def)
      show "M (pa (i + j)) = word_of_int (key_buf s ((start_ptr s + int j) mod KEYBOARD_BUFFER_SIZE))" if "j < Suc (min n l')" for j
      proof (cases j)
        case 0
        then show ?thesis using first Suc.prems(4,5) by simp
      next
        case (Suc j')
        then show ?thesis using M(2) [rule_format, of j'] that slot [of j'] t(4) by simp
      qed
      show "M a = mem s a" if "a \<notin> pa ` {i..<i + Suc (min n l')}" for a
      proof -
        have "a \<noteq> pa i" "a \<notin> pa ` {Suc i..<Suc i + min n l'}" using that by auto
        then show ?thesis using M(3) t(5) by simp
      qed
    qed
  qed
qed

text \<open>The queue after its first line has been consumed.\<close>

lemma keys_drop:
  assumes "buffer_ok s" "k \<le> fill s" "start_ptr t = (start_ptr s + int k) mod KEYBOARD_BUFFER_SIZE" "end_ptr t = end_ptr s"
    "key_buf t = key_buf s"
  shows "buffer_ok t \<and> keys t = drop k (keys s)"
proof -
  have "(end_ptr t - start_ptr t) mod KEYBOARD_BUFFER_SIZE
      = ((start_ptr s + int (fill s)) mod KEYBOARD_BUFFER_SIZE - (start_ptr s + int k) mod KEYBOARD_BUFFER_SIZE) mod KEYBOARD_BUFFER_SIZE"
    unfolding assms(3,4) end_slot [OF assms(1)] ..
  also have "\<dots> = (int (fill s) - int k) mod KEYBOARD_BUFFER_SIZE" by (simp add: mod_diff_eq)
  also have "\<dots> = int (fill s - k)" using assms(2) fill_less [of s] by (simp add: of_nat_diff)
  finally have f: "fill t = fill s - k" by (simp add: fill_def)
  have "keys t = drop k (keys s)"
  proof (rule nth_equalityI)
    show "length (keys t) = length (drop k (keys s))" by (simp add: f)
    show "keys t ! i = drop k (keys s) ! i" if "i < length (keys t)" for i
      using that f assms(2,3,5) by (simp add: keys_def less_diff_conv mod_add_left_eq mod_add_right_eq algebra_simps)
  qed
  then show ?thesis using assms by (simp add: buffer_ok_def)
qed

lemma line_slot:
  assumes "x \<in> set xs"
  shows "length (takeWhile (\<lambda>c. c \<noteq> x) xs) < length xs" "xs ! length (takeWhile (\<lambda>c. c \<noteq> x) xs) = x"
    "\<And>j. j < length (takeWhile (\<lambda>c. c \<noteq> x) xs) \<Longrightarrow> xs ! j \<noteq> x"
proof -
  show l: "length (takeWhile (\<lambda>c. c \<noteq> x) xs) < length xs"
    using assms by (induction xs) auto
  show "xs ! length (takeWhile (\<lambda>c. c \<noteq> x) xs) = x" using nth_length_takeWhile [OF l] by simp
  show "\<And>j. j < length (takeWhile (\<lambda>c. c \<noteq> x) xs) \<Longrightarrow> xs ! j \<noteq> x"
    using takeWhile_nth [of _ "\<lambda>c. c \<noteq> x" xs] nth_mem [of _ "takeWhile (\<lambda>c. c \<noteq> x) xs"] set_takeWhileD [of _ "\<lambda>c. c \<noteq> x" xs] by fastforce
qed

lemma update_newline_ptr_effect:
  assumes "buffer_ok t" "key_buf t (end_ptr t) \<noteq> 0x0A" "NEXT (newline_ptr t) = start_ptr t"
  shows "\<exists>nl. update_newline_ptr t = Ok () (t\<lparr>newline_ptr := nl\<rparr>) \<and> newline_ok (t\<lparr>newline_ptr := nl\<rparr>)"
proof -
  let ?l = "length (takeWhile (\<lambda>c. c \<noteq> 0x0A) (keys t))"
  let ?nl = "if 0x0A \<in> set (keys t) then (start_ptr t + int ?l) mod KEYBOARD_BUFFER_SIZE else NOT_PRESENT"
  have s0: "NEXT (newline_ptr t) = (start_ptr t + int 0) mod KEYBOARD_BUFFER_SIZE"
    using assms(1,3) by (simp add: buffer_ok_def)
  have slot: "key_buf t ((start_ptr t + int j) mod KEYBOARD_BUFFER_SIZE) = keys t ! j" if "j < fill t" for j
    using that by (simp add: keys_def)
  have "newline_loop (key_buf t) (end_ptr t) (NEXT (newline_ptr t)) = Some ?nl"
  proof (cases "0x0A \<in> set (keys t)")
    case True
    note L = line_slot [OF True]
    have "key_buf t ((start_ptr t + int j) mod KEYBOARD_BUFFER_SIZE) \<noteq> 0x0A" if "j < ?l" for j
      using that L(1) L(3) [OF that] slot [of j] by simp
    moreover have "key_buf t ((start_ptr t + int ?l) mod KEYBOARD_BUFFER_SIZE) = 0x0A" using L(1,2) slot [of ?l] by simp
    ultimately show ?thesis
      using newline_loop_end [of ?l "key_buf t" "start_ptr t" 0 "fill t"] L(1) fill_less [of t] True
      unfolding s0 end_slot [OF assms(1)] by simp
  next
    case False
    have "key_buf t ((start_ptr t + int j) mod KEYBOARD_BUFFER_SIZE) \<noteq> 0x0A" if "j < fill t" for j
      using that False slot [OF that] by (metis length_keys nth_mem)
    then show ?thesis
      using newline_loop_end [of "fill t" "key_buf t" "start_ptr t" 0 "fill t"] fill_less [of t] False assms(2)
      unfolding s0 end_slot [OF assms(1)] by simp
  qed
  moreover have "keys (t\<lparr>newline_ptr := nl\<rparr>) = keys t" for nl by (simp add: keys_def fill_def)
  ultimately show ?thesis
    by (intro exI [of _ ?nl]) (simp add: update_newline_ptr_def kloop_def newline_ok_def)
qed


lemma newline_loop_round:
  assumes "0 \<le> e" "e < KEYBOARD_BUFFER_SIZE" "buf e = 0x0A"
  shows "int i < KEYBOARD_BUFFER_SIZE \<Longrightarrow> \<exists>nl. newline_loop buf e ((e - int i) mod KEYBOARD_BUFFER_SIZE) = Some nl"
proof (induction i)
  case 0
  then show ?case using assms by (subst newline_loop.simps) simp
next
  case (Suc i)
  have "NEXT ((e - int (Suc i)) mod KEYBOARD_BUFFER_SIZE) = (e - int i) mod KEYBOARD_BUFFER_SIZE"
    by (simp add: NEXT_def mod_add_left_eq)
  then show ?case using Suc by (subst newline_loop.simps) auto
qed

text \<open>
  C28: Erasing a newline jams the keyboard.  When a newline is typed on an empty queue and erased
  again, the queue is empty but the newline pointer still claims a line.  The next \<^verbatim>\<open>get_nextline\<close>
  then returns an empty line and moves the start pointer past the end of the queue: the buffer now counts
  as full of 1999 old characters, and every further keystroke is dropped.
\<close>

theorem erased_newline_jams:
  assumes "buffer_ok s" "newline_ok s" "keys s = []" "buf \<noteq> 0" "len < KEYBOARD_BUFFER_SIZE"
  defines "t \<equiv> add_keystroke 0x08 (add_keystroke 0x0A s)"
  shows "keys t = [] \<and> newline_ptr t = end_ptr t \<and>
    (\<exists>u. get_nextline buf len t = Ok 0 u \<and> int (length (keys u)) = KEYBOARD_BUFFER_SIZE - 1 \<and> (\<forall>c. add_keystroke c u = u))"
proof -
  have f: "fill s = 0" using assms(3) length_keys [of s] by simp
  have e: "end_ptr s = start_ptr s" using end_slot [OF assms(1)] f assms(1) by (simp add: buffer_ok_def)
  have b: "0 \<le> start_ptr s" "start_ptr s < KEYBOARD_BUFFER_SIZE" using assms(1) by (simp_all add: buffer_ok_def)
  have next_neq: "NEXT x \<noteq> x" if "0 \<le> x" "x < KEYBOARD_BUFFER_SIZE" for x
    using ring_slot_inj [of x 0 1] that by (auto simp: NEXT_def)
  have n1: "newline_ptr s = - 1" using newline_absent [OF assms(2)] assms(3) by simp
  let ?e = "start_ptr s" let ?e1 = "NEXT ?e"
  have e1: "0 \<le> ?e1" "?e1 < KEYBOARD_BUFFER_SIZE" by (simp_all add: NEXT_def)
  have not_full: "NEXT ?e1 \<noteq> ?e"
  proof
    assume "NEXT ?e1 = ?e"
    then have "(?e + int 2) mod KEYBOARD_BUFFER_SIZE = (?e + int 0) mod KEYBOARD_BUFFER_SIZE"
      using b by (simp add: NEXT_def mod_add_left_eq add.assoc)
    then have "(2 :: nat) = 0" by (rule ring_slot_inj) (simp_all add: KEYBOARD_BUFFER_SIZE_def)
    then show False by simp
  qed
  have p: "PREV ?e1 = ?e" using PREV_mod [OF e1] b by (simp add: NEXT_def mod_diff_left_eq)
  have s1: "start_ptr (add_keystroke 0x0A s) = ?e" "end_ptr (add_keystroke 0x0A s) = ?e1"
    "newline_ptr (add_keystroke 0x0A s) = ?e" "key_buf (add_keystroke 0x0A s) = (key_buf s)(?e := 0x0A)"
    using e n1 next_neq [OF b] by (simp_all add: add_keystroke_def Let_def)
  have t: "start_ptr t = ?e" "end_ptr t = ?e" "newline_ptr t = ?e" "key_buf t = (key_buf s)(?e := 0x0A, ?e1 := 8)"
    using s1 not_full next_neq [OF b] p unfolding t_def by (simp_all add: add_keystroke_def [of "0x08"] Let_def)
  have k: "keys t = []" using t by (simp add: keys_def fill_def)
  have "(?e - int 1999 + KEYBOARD_BUFFER_SIZE) mod KEYBOARD_BUFFER_SIZE = (?e - int 1999) mod KEYBOARD_BUFFER_SIZE"
    by (rule mod_add_self2)
  then have "?e1 = (?e - int 1999) mod KEYBOARD_BUFFER_SIZE"
    by (simp add: NEXT_def KEYBOARD_BUFFER_SIZE_def add.commute)
  then obtain nl where nl: "newline_loop (key_buf t) ?e ?e1 = Some nl"
    using newline_loop_round [of ?e "key_buf t" 1999] b t(4) next_neq [OF b] by (auto simp: KEYBOARD_BUFFER_SIZE_def)
  let ?u = "t\<lparr>start_ptr := ?e1, newline_ptr := nl\<rparr>"
  have "copy_line (nat len) buf 0 t = Ok 0 t" by (cases "nat len") (use t in \<open>simp_all add: kop_defs\<close>)
  moreover have "start_loop ?e ?e = Some ?e1" by (subst start_loop.simps) simp
  ultimately have g: "get_nextline buf len t = Ok 0 ?u"
    using assms(4,5) t nl b by (simp add: get_nextline_def kop_defs update_start_ptr_def update_newline_ptr_def)
  have full: "NEXT (end_ptr ?u) = start_ptr ?u" using t by simp
  moreover have "buffer_ok ?u" using b e1 t by (simp add: buffer_ok_def)
  ultimately have "int (length (keys ?u)) = KEYBOARD_BUFFER_SIZE - 1" using full_iff [of ?u] by simp
  moreover have "\<forall>c. add_keystroke c ?u = ?u" using full by (simp add: add_keystroke_def)
  ultimately show ?thesis using k t g by auto
qed

section \<open>Witnesses\<close>

definition typed_line :: dstate where
  "typed_line = blank_console\<lparr>key_buf := (\<lambda>_. 0)(0 := 0x61, 1 := 0x0A), end_ptr := 2, newline_ptr := 1\<rparr>"

lemma typed_line_ok: "buffer_ok typed_line" "newline_ok typed_line" "keys typed_line = [0x61, 0x0A]"
proof -
  have f: "fill typed_line = 2" by (simp add: fill_def typed_line_def KEYBOARD_BUFFER_SIZE_def)
  show k: "keys typed_line = [0x61, 0x0A]"
    unfolding keys_def f by (simp add: typed_line_def KEYBOARD_BUFFER_SIZE_def upt_rec)
  show "buffer_ok typed_line" by (simp add: buffer_ok_def typed_line_def KEYBOARD_BUFFER_SIZE_def)
  show "newline_ok typed_line" unfolding newline_ok_def k by (simp add: typed_line_def KEYBOARD_BUFFER_SIZE_def)
qed


lemma kernel_buffer_writable: "writable_buffer s {} 0x2000 10 (\<lambda>i. 0x2000 + of_nat i)"
proof -
  have ten: "i = 0 \<or> i = 1 \<or> i = 2 \<or> i = 3 \<or> i = 4 \<or> i = 5 \<or> i = 6 \<or> i = 7 \<or> i = 8 \<or> i = 9" if "i < 10" for i :: nat
    using that by presburger
  have "0x2000 + of_nat i < USER_MEM_START" if "i < 10" for i using ten [OF that] by (elim disjE) (simp_all add: USER_MEM_START_def)
  moreover have "i = j" if "i < 10" "j < 10" "of_nat i = (of_nat j :: u32)" for i j
    using arg_cong [OF that(3), of unat] that(1,2) by (simp add: unat_of_nat)
  ultimately show ?thesis by (auto simp: writable_buffer_def vaddr_def inj_on_def)
qed


theorem erased_newline_jams_witness:
  "\<exists>u. get_nextline 0x2000 10 (add_keystroke 0x08 (add_keystroke 0x0A blank_console)) = Ok 0 u \<and> add_keystroke 0x61 u = u"
proof -
  have "buffer_ok blank_console" "newline_ok blank_console" "keys blank_console = []"
    by (simp_all add: buffer_ok_def newline_ok_def keys_def fill_def )
  then show ?thesis using erased_newline_jams [of blank_console "0x2000" 10] by (auto simp: KEYBOARD_BUFFER_SIZE_def)
qed

end
