(* ===== verification/Doprnt.thy ===== *)
theory Doprnt
  imports Loader Console
begin

text \<open>
  Formatted output, \<^verbatim>\<open>410kern/stdio/doprnt.c\<close>.  \<open>doprnt\<close> gives the bytes that \<^verbatim>\<open>_doprnt\<close> hands to its
  \<^verbatim>\<open>putc\<close> argument, in order.  The format is the list of its characters without the terminating NUL; the
  arguments are the words the caller pushed; \<open>str\<close> gives the NUL-terminated string at an address.
  The result is \<open>None\<close> where the code has no meaning: an argument that was not passed, a division by a
  zero radix, or a number that does not fit its buffer.
\<close>

section \<open>Numbers\<close>

definition is_digit :: "u8 \<Rightarrow> bool" where
  "is_digit d \<longleftrightarrow> sint d \<ge> 0x30 \<and> sint d \<le> 0x39"

definition Ctod :: "u8 \<Rightarrow> int" where
  "Ctod c = sint c - 0x30"

abbreviation (input) MAXBUF :: nat where "MAXBUF \<equiv> 32"

definition digs :: "u8 list" where
  "digs = map of_char ''0123456789abcdef'' @ [0]"

text \<open>
  The loop that builds a number from its last digit on, with \<open>r\<close> bytes of the buffer left in front of
  the digits \<open>acc\<close>.  The digit table has 17 bytes, the last of which is the terminator of the literal.
\<close>

fun digit_loop :: "nat \<Rightarrow> nat \<Rightarrow> nat \<Rightarrow> u8 list \<Rightarrow> u8 list option" where
  "digit_loop 0 base u acc = None"
| "digit_loop (Suc r) base u acc =
     (if base = 0 \<or> length digs \<le> u mod base then None
      else let acc' = digs ! (u mod base) # acc
        in if u div base = 0 then Some acc' else digit_loop r base (u div base) acc')"

definition printnum :: "u32 \<Rightarrow> int \<Rightarrow> u8 list option" where
  "printnum u base = digit_loop MAXBUF (unat (word_of_int base :: u32)) (unat u) []"

fun hex_loop :: "nat \<Rightarrow> u32 \<Rightarrow> u8 list \<Rightarrow> u8 list" where
  "hex_loop 0 u acc = acc"
| "hex_loop (Suc i) u acc = hex_loop i (drop_bit 4 u) (digs ! unat (u AND 0x0F) # acc)"

definition printnum_16 :: "u32 \<Rightarrow> u8 list" where
  "printnum_16 u = hex_loop 8 u []"

section \<open>Conversion specifications\<close>

record conversion =
  cv_length :: int
  cv_prec :: int
  cv_ladjust :: bool
  cv_padc :: u8
  cv_plus_sign :: u8
  cv_altfmt :: bool
  cv_longopt :: nat

definition initial_conversion :: conversion where
  "initial_conversion = \<lparr>cv_length = 0, cv_prec = - 1, cv_ladjust = False, cv_padc = 0x20, cv_plus_sign = 0,
     cv_altfmt = False, cv_longopt = 0\<rparr>"

fun scan_flags :: "u8 list \<Rightarrow> conversion \<Rightarrow> u8 list \<times> conversion" where
  "scan_flags [] k = ([], k)"
| "scan_flags (c # fmt) k =
     (if c = of_char CHR ''#'' then scan_flags fmt (k\<lparr>cv_altfmt := True\<rparr>)
      else if c = of_char CHR ''-'' then scan_flags fmt (k\<lparr>cv_ladjust := True\<rparr>)
      else if c = of_char CHR ''+'' then scan_flags fmt (k\<lparr>cv_plus_sign := of_char CHR ''+''\<rparr>)
      else if c = 0x20 then scan_flags fmt (if cv_plus_sign k = 0 then k\<lparr>cv_plus_sign := 0x20\<rparr> else k)
      else (c # fmt, k))"

definition scan_zero :: "u8 list \<times> conversion \<Rightarrow> u8 list \<times> conversion" where
  "scan_zero r = (case r of (fmt, k) \<Rightarrow>
     if fmt \<noteq> [] \<and> hd fmt = of_char CHR ''0'' then (tl fmt, k\<lparr>cv_padc := of_char CHR ''0''\<rparr>) else (fmt, k))"

fun scan_number :: "u8 list \<Rightarrow> int \<Rightarrow> u8 list \<times> int" where
  "scan_number [] n = ([], n)"
| "scan_number (c # fmt) n = (if is_digit c then scan_number fmt (wrap32 (10 * n + Ctod c)) else (c # fmt, n))"

definition va_arg :: "u32 list \<Rightarrow> (u32 \<times> u32 list) option" where
  "va_arg args = (case args of [] \<Rightarrow> None | a # as \<Rightarrow> Some (a, as))"

definition scan_width :: "u8 list \<times> conversion \<Rightarrow> u32 list \<Rightarrow> (u8 list \<times> conversion \<times> u32 list) option" where
  "scan_width r args = (case r of (fmt, k) \<Rightarrow>
     if fmt \<noteq> [] \<and> is_digit (hd fmt) then
       (case scan_number fmt (cv_length k) of (fmt', n) \<Rightarrow> Some (fmt', k\<lparr>cv_length := n\<rparr>, args))
     else if fmt \<noteq> [] \<and> hd fmt = of_char CHR ''*'' then
       Option.bind (va_arg args) (\<lambda>(a, as).
         Some (tl fmt, if sint a < 0 then k\<lparr>cv_ladjust := \<not> cv_ladjust k, cv_length := wrap32 (- sint a)\<rparr>
                       else k\<lparr>cv_length := sint a\<rparr>, as))
     else Some (fmt, k, args))"

definition scan_prec :: "u8 list \<times> conversion \<times> u32 list \<Rightarrow> (u8 list \<times> conversion \<times> u32 list) option" where
  "scan_prec r = (case r of (fmt, k, args) \<Rightarrow>
     if fmt \<noteq> [] \<and> hd fmt = of_char CHR ''.'' then
       (let fmt = tl fmt
        in if fmt \<noteq> [] \<and> is_digit (hd fmt) then
             (case scan_number fmt 0 of (fmt', n) \<Rightarrow> Some (fmt', k\<lparr>cv_prec := n\<rparr>, args))
           else if fmt \<noteq> [] \<and> hd fmt = of_char CHR ''*'' then
             Option.bind (va_arg args) (\<lambda>(a, as). Some (tl fmt, k\<lparr>cv_prec := sint a\<rparr>, as))
           else Some (fmt, k, args))
     else Some (fmt, k, args))"

fun scan_long :: "u8 list \<Rightarrow> conversion \<Rightarrow> u8 list \<times> conversion" where
  "scan_long [] k = ([], k)"
| "scan_long (c # fmt) k =
     (if c = of_char CHR ''l'' then scan_long fmt (k\<lparr>cv_longopt := cv_longopt k + 1\<rparr>) else (c # fmt, k))"

section \<open>The conversions\<close>

definition pad :: "u8 \<Rightarrow> int \<Rightarrow> u8 list" where
  "pad c n = replicate (nat n) c"

text \<open>\<open>print_num\<close>; a number is at most 64 bits wide, and \<^verbatim>\<open>_doprnt_truncates\<close> is never set.\<close>

definition print_num :: "conversion \<Rightarrow> u8 \<Rightarrow> int \<Rightarrow> 64 word \<Rightarrow> u8 list option" where
  "print_num k sign_char base u =
     (let prefix = (if u \<noteq> 0 \<and> cv_altfmt k
                    then if base = 8 then map of_char ''0'' else if base = 16 then map of_char ''0x'' else []
                    else [])
      in Option.bind (digit_loop MAXBUF (unat (word_of_int base :: 64 word)) (unat u) []) (\<lambda>ds.
        let sign = (if sign_char \<noteq> 0 then [sign_char] else []);
            len = cv_length k - int (length ds) - int (length sign) - int (length prefix);
            blank = cv_padc k = 0x20 \<and> \<not> cv_ladjust k;
            zero = cv_padc k = of_char CHR ''0'';
            len1 = (if blank then min len 0 else len);
            len2 = (if zero then min len1 0 else len1)
        in Some (pad 0x20 (if blank then len else 0) @ sign @ prefix @ pad (of_char CHR ''0'') (if zero then len1 else 0)
             @ ds @ pad 0x20 (if cv_ladjust k then len2 else 0))))"

definition va_arg64 :: "u32 list \<Rightarrow> (64 word \<times> u32 list) option" where
  "va_arg64 args = Option.bind (va_arg args) (\<lambda>(lo, as). Option.bind (va_arg as) (\<lambda>(hi, as).
     Some (ucast lo OR push_bit 32 (ucast hi), as)))"

definition print_signed :: "conversion \<Rightarrow> int \<Rightarrow> u32 list \<Rightarrow> (u8 list \<times> u32 list) option" where
  "print_signed k base args = Option.bind
     (if cv_longopt k > 1 then va_arg64 args else map_option (\<lambda>(a, as). (scast a, as)) (va_arg args)) (\<lambda>(n, as).
       map_option (\<lambda>out. (out, as))
         (if sint n \<ge> 0 then print_num k (cv_plus_sign k) base n else print_num k (of_char CHR ''-'') base (- n)))"

definition print_unsigned :: "conversion \<Rightarrow> int \<Rightarrow> u32 list \<Rightarrow> (u8 list \<times> u32 list) option" where
  "print_unsigned k base args = Option.bind
     (if cv_longopt k > 1 then va_arg64 args else map_option (\<lambda>(a, as). (ucast a, as)) (va_arg args)) (\<lambda>(u, as).
       map_option (\<lambda>out. (out, as)) (print_num k 0 base u))"

definition print_string :: "conversion \<Rightarrow> u8 list \<Rightarrow> u8 list" where
  "print_string k s =
     (let prec = (if cv_prec k = - 1 then 0x7FFFFFFF else cv_prec k);
          out = take (nat prec) s;
          n = (if prec < int (length s) then max 0 prec + 1 else int (length s))
      in pad 0x20 (if cv_length k > 0 \<and> \<not> cv_ladjust k then cv_length k - int (length out) else 0)
         @ out @ pad 0x20 (if cv_ladjust k then cv_length k - n else 0))"

text \<open>
  Bit fields: the string of \<^verbatim>\<open>%b\<close> is a base followed by bit numbers and names.  \<open>name_of\<close> and \<open>after_name\<close>
  split off the characters above the blank.  A shift by more than the width of its operand has no
  meaning.
\<close>

definition name_of :: "u8 list \<Rightarrow> u8 list" where
  "name_of p = takeWhile (\<lambda>c. sint c > 32) p"

definition after_name :: "u8 list \<Rightarrow> u8 list" where
  "after_name p = dropWhile (\<lambda>c. sint c > 32) p"

lemma length_after_name: "length (after_name p) \<le> length p"
  by (simp add: after_name_def length_dropWhile_le)

definition bit_field :: "u32 \<Rightarrow> int \<Rightarrow> int \<Rightarrow> u32 option" where
  "bit_field u i j =
     (if 1 \<le> j \<and> j \<le> 64 \<and> 0 \<le> i - j \<and> i - j \<le> 31
      then Some (drop_bit (nat (j - 1)) u AND word_of_int (wrap32 (2 * 2 ^ nat (i - j)) - 1))
      else None)"

definition separator :: "bool \<Rightarrow> u8" where
  "separator any = (if any then of_char CHR '','' else of_char CHR ''<'')"

function bit_names :: "u32 \<Rightarrow> int \<Rightarrow> u8 list \<Rightarrow> bool \<Rightarrow> u8 list option" where
  "bit_names u base p any = (case p of
     [] \<Rightarrow> Some (if any then [of_char CHR ''>''] else [])
   | i # p1 \<Rightarrow>
       if p1 = [] then None
       else if sint (hd p1) \<le> 32 then
         Option.bind (bit_field u (sint i) (sint (hd p1))) (\<lambda>f. Option.bind (printnum f base) (\<lambda>ds.
           map_option (\<lambda>out. separator any # name_of (tl p1) @ ds @ out) (bit_names u base (after_name (tl p1)) True)))
       else if sint i < 1 \<or> 32 < sint i then None
       else if bit u (nat (sint i - 1)) then
         map_option (\<lambda>out. separator any # name_of p1 @ out) (bit_names u base (after_name p1) True)
       else bit_names u base (after_name p1) any)"
  by pat_completeness auto

termination
  by (relation "measure (\<lambda>(_, _, p, _). length p)")
    (auto simp: less_Suc_eq_le intro: length_after_name le_trans [OF length_after_name])

definition print_bits :: "(u32 \<Rightarrow> u8 list) \<Rightarrow> u32 list \<Rightarrow> (u8 list \<times> u32 list) option" where
  "print_bits str args = Option.bind (va_arg args) (\<lambda>(u, as). Option.bind (va_arg as) (\<lambda>(p, as).
     case str p of
       [] \<Rightarrow> None
     | b # p \<Rightarrow> Option.bind (printnum u (sint b)) (\<lambda>ds.
         map_option (\<lambda>out. (ds @ out, as)) (if u = 0 then Some [] else bit_names u (sint b) p False))))"

text \<open>Thread identifiers of L4, the long and the short form; the first word holds task and thread.\<close>

definition print_tid_long :: "conversion \<Rightarrow> u32 \<Rightarrow> u32 \<Rightarrow> u8 list" where
  "print_tid_long k high low =
     (let n = (if cv_altfmt k then 19 else 17); fil = pad 0x20 (if cv_length k > 0 then cv_length k - n else 0)
      in (if cv_ladjust k then [] else fil) @ (if cv_altfmt k then [of_char CHR ''['']  else [])
         @ printnum_16 high @ [of_char CHR '':''] @ printnum_16 low
         @ (if cv_altfmt k then [of_char CHR '']''] else []) @ (if cv_ladjust k then fil else []))"

definition print_tid_short :: "conversion \<Rightarrow> u32 \<Rightarrow> u8 list option" where
  "print_tid_short k w =
     (let lthread = drop_bit 10 w AND 0x7F; task = drop_bit 17 w AND 0x7FF; len = cv_length k;
          m = (if lthread \<ge> 0x10 then 2 else 1);
          n0 = (if cv_altfmt k then 4 else 2) + (if task \<ge> 0x10 then 1 else 0) + (if task \<ge> 0x100 then 1 else 0);
          right = len > 0 \<and> \<not> cv_ladjust k;
          front = right \<and> (cv_padc k = 0x20 \<or> cv_padc k = of_char CHR ''0'');
          n1 = (if front then max n0 (len - 2) else n0);
          n2 = (if right then max n1 (len - m) else n1)
      in Option.bind (printnum task 16) (\<lambda>ts. Option.bind (printnum lthread 16) (\<lambda>ls.
        Some (pad 0x20 (if front \<and> cv_padc k = 0x20 then n1 - n0 else 0)
          @ (if cv_altfmt k then [of_char CHR ''['']  else [])
          @ pad (of_char CHR ''0'') (if front \<and> cv_padc k \<noteq> 0x20 then n1 - n0 else 0)
          @ ts @ [of_char CHR ''.''] @ pad (cv_padc k) (n2 - n1) @ ls
          @ (if cv_altfmt k then [of_char CHR '']''] else [])
          @ pad 0x20 (if cv_ladjust k then len - m - n2 else 0)))))"

definition print_tid :: "conversion \<Rightarrow> u32 list \<Rightarrow> (u8 list \<times> u32 list) option" where
  "print_tid k args = Option.bind (va_arg args) (\<lambda>(high, as). Option.bind (va_arg as) (\<lambda>(low, as).
     map_option (\<lambda>out. (out, as))
       (if cv_longopt k \<noteq> 0 then Some (print_tid_long k high low) else print_tid_short k high)))"

definition print_pointer :: "conversion \<Rightarrow> u32 list \<Rightarrow> (u8 list \<times> u32 list) option" where
  "print_pointer k args = map_option (\<lambda>(out, as). (map of_char ''0x'' @ out, as))
     (print_unsigned (k\<lparr>cv_padc := of_char CHR ''0'', cv_length := 8\<rparr>) 16 args)"

definition convert :: "(u32 \<Rightarrow> u8 list) \<Rightarrow> int \<Rightarrow> conversion \<Rightarrow> u8 \<Rightarrow> u32 list \<Rightarrow> (u8 list \<times> u32 list) option" where
  "convert str radix k c args =
     (if c \<in> of_char ` set ''bB'' then print_bits str args
      else if c = of_char CHR ''c'' then map_option (\<lambda>(a, as). ([ucast a], as)) (va_arg args)
      else if c = of_char CHR ''t'' then print_tid k args
      else if c = of_char CHR ''s'' then
        map_option (\<lambda>(p, as). (print_string k (if p = 0 then [] else str p), as)) (va_arg args)
      else if c \<in> of_char ` set ''oO'' then print_unsigned k 8 args
      else if c \<in> of_char ` set ''dD'' then print_signed k 10 args
      else if c \<in> of_char ` set ''uU'' then print_unsigned k 10 args
      else if c = of_char CHR ''p'' then print_pointer k args
      else if c \<in> of_char ` set ''xX'' then print_unsigned k 16 args
      else if c \<in> of_char ` set ''zZ'' then print_signed k 16 args
      else if c \<in> of_char ` set ''rR'' then print_signed k radix args
      else if c \<in> of_char ` set ''nN'' then print_unsigned k radix args
      else Some ([c], args))"

declare bit_names.simps [simp del]

section \<open>The format string\<close>

definition scan_conversion :: "u8 list \<Rightarrow> u32 list \<Rightarrow> (u8 list \<times> conversion \<times> u32 list) option" where
  "scan_conversion fmt args = Option.bind (scan_width (scan_zero (scan_flags fmt initial_conversion)) args) (\<lambda>r.
     map_option (\<lambda>(fmt, k, as). case scan_long fmt k of (fmt, k) \<Rightarrow> (fmt, k, as)) (scan_prec r))"

lemma scan_flags_length: "length (fst (scan_flags fmt k)) \<le> length fmt"
  by (induction fmt k rule: scan_flags.induct) (auto simp: le_SucI)

lemma scan_number_length: "length (fst (scan_number fmt n)) \<le> length fmt"
  by (induction fmt n rule: scan_number.induct) (auto simp: le_SucI)

lemma scan_long_length: "length (fst (scan_long fmt k)) \<le> length fmt"
  by (induction fmt k rule: scan_long.induct) (auto simp: le_SucI)

lemma scan_zero_length: "length (fst (scan_zero r)) \<le> length (fst r)"
  by (cases r) (simp add: scan_zero_def)

lemma scan_width_length: "scan_width r args = Some (fmt, k, as) \<Longrightarrow> length fmt \<le> length (fst r)"
  using scan_number_length [of "fst r" "cv_length (snd r)"]
  by (cases r) (auto simp: scan_width_def Option.bind_eq_Some_conv split: if_splits prod.splits)

lemma scan_prec_length:
  assumes "scan_prec r = Some (fmt, k, as)"
  shows "length fmt \<le> length (fst r)"
proof -
  obtain f k0 a0 where r: "r = (f, k0, a0)" by (cases r)
  have "length (fst (scan_number (tl f) 0)) \<le> length (tl f)" by (rule scan_number_length)
  then show ?thesis
    using assms unfolding r by (auto simp: scan_prec_def Let_def Option.bind_eq_Some_conv split: if_splits prod.splits)
qed

lemma scan_conversion_length:
  assumes "scan_conversion fmt args = Some (fmt', k, as)"
  shows "length fmt' \<le> length fmt"
proof -
  let ?r = "scan_zero (scan_flags fmt initial_conversion)"
  obtain r2 where r2: "scan_width ?r args = Some r2"
    using assms by (auto simp: scan_conversion_def Option.bind_eq_Some_conv)
  obtain f3 k3 a3 where r3: "scan_prec r2 = Some (f3, k3, a3)"
    using assms r2 by (cases "scan_prec r2") (auto simp: scan_conversion_def)
  then have l: "(fmt', k) = scan_long f3 k3"
    using assms r2 by (cases "scan_long f3 k3") (simp add: scan_conversion_def)
  have "length fmt' \<le> length f3" using scan_long_length [of f3 k3] unfolding l [symmetric] by simp
  also have "\<dots> \<le> length (fst r2)" by (rule scan_prec_length [OF r3])
  also have "\<dots> \<le> length (fst ?r)" using scan_width_length [of ?r args] r2 by (cases r2) auto
  also have "\<dots> \<le> length fmt" using scan_zero_length scan_flags_length by (rule le_trans)
  finally show ?thesis .
qed

function doprnt :: "(u32 \<Rightarrow> u8 list) \<Rightarrow> int \<Rightarrow> u8 list \<Rightarrow> u32 list \<Rightarrow> u8 list option" where
  "doprnt str radix fmt args = (case fmt of
     [] \<Rightarrow> Some []
   | c # fmt \<Rightarrow>
       if c \<noteq> of_char CHR ''%'' then map_option (\<lambda>out. c # out) (doprnt str radix fmt args)
       else (case scan_conversion fmt args of
           None \<Rightarrow> None
         | Some (fmt', k, as) \<Rightarrow>
             if fmt' = [] then Some []
             else (case convert str radix k (hd fmt') as of
                 None \<Rightarrow> None
               | Some (out, as') \<Rightarrow> map_option (\<lambda>rest. out @ rest) (doprnt str radix (tl fmt') as'))))"
  by pat_completeness auto

termination
  by (relation "measure (\<lambda>(_, _, fmt, _). length fmt)")
    (auto dest!: scan_conversion_length simp: less_Suc_eq_le intro: le_trans [OF diff_le_self])

declare doprnt.simps [simp del]

end
