(* ===== verification/Stdlib.thy ===== *)
theory Stdlib
  imports Cstring Doprnt
begin

text \<open>
  The part of the standard library in \<^verbatim>\<open>410kern/stdlib\<close>: character classes, the number parsers and
  the random numbers.  The parsers read a string as \<open>Cstring\<close> does and return the value together with the
  offset at which they stopped.
\<close>

section \<open>Character classes\<close>

definition isascii :: "int \<Rightarrow> bool" where "isascii c \<longleftrightarrow> c \<ge> 0 \<and> c \<le> 126"
definition iscntrl :: "int \<Rightarrow> bool" where "iscntrl c \<longleftrightarrow> c < 0x20 \<or> c > 126"
definition isdigit :: "int \<Rightarrow> bool" where "isdigit c \<longleftrightarrow> c \<ge> 0x30 \<and> c \<le> 0x39"
definition isgraph :: "int \<Rightarrow> bool" where "isgraph c \<longleftrightarrow> c > 0x20 \<and> c \<le> 126"
definition islower :: "int \<Rightarrow> bool" where "islower c \<longleftrightarrow> c \<ge> 0x61 \<and> c \<le> 0x7A"
definition isprint :: "int \<Rightarrow> bool" where "isprint c \<longleftrightarrow> c \<ge> 0x20 \<and> c \<le> 126"
definition isspace :: "int \<Rightarrow> bool" where
  "isspace c \<longleftrightarrow> c = 0x20 \<or> c = 0x0C \<or> c = 0x0A \<or> c = 0x0D \<or> c = 0x09 \<or> c = 0x0B"
definition isupper :: "int \<Rightarrow> bool" where "isupper c \<longleftrightarrow> c \<ge> 0x41 \<and> c \<le> 0x5A"
definition isxdigit :: "int \<Rightarrow> bool" where
  "isxdigit c \<longleftrightarrow> isdigit c \<or> c \<ge> 0x41 \<and> c \<le> 0x46 \<or> c \<ge> 0x61 \<and> c \<le> 0x66"
definition isalpha :: "int \<Rightarrow> bool" where "isalpha c \<longleftrightarrow> islower c \<or> isupper c"
definition isalnum :: "int \<Rightarrow> bool" where "isalnum c \<longleftrightarrow> isalpha c \<or> isdigit c"
definition ispunct :: "int \<Rightarrow> bool" where "ispunct c \<longleftrightarrow> isgraph c \<and> \<not> isalnum c"
definition toupper :: "int \<Rightarrow> int" where "toupper c = (if c \<ge> 0x61 \<and> c \<le> 0x7A then c - 0x61 + 0x41 else c)"
definition tolower :: "int \<Rightarrow> int" where "tolower c = (if c \<ge> 0x41 \<and> c \<le> 0x5A then c - 0x41 + 0x61 else c)"

section \<open>Numbers\<close>

definition abs_c :: "u32 \<Rightarrow> u32" where
  "abs_c val = (if sint val \<ge> 0 then val else - val)"

partial_function (option) skip_space :: "cstring \<Rightarrow> nat \<Rightarrow> nat option" where
  "skip_space p i = (if isspace (sint (p i)) then skip_space p (i + 1) else Some i)"

definition digit_value :: "int \<Rightarrow> int \<Rightarrow> int option" where
  "digit_value base c =
     (if c \<ge> 0x30 \<and> c \<le> 0x39 \<and> c - 0x30 < base then Some (c - 0x30)
      else if c \<ge> 0x61 \<and> c \<le> 0x7A \<and> c - 0x61 + 10 < base then Some (c - 0x61 + 10)
      else if c \<ge> 0x41 \<and> c \<le> 0x5A \<and> c - 0x41 + 10 < base then Some (c - 0x41 + 10)
      else None)"

partial_function (option) number_loop :: "cstring \<Rightarrow> int \<Rightarrow> u32 \<Rightarrow> nat \<Rightarrow> (u32 \<times> nat) option" where
  "number_loop p base v i = (case digit_value base (sint (p i)) of
     Some d \<Rightarrow> number_loop p base (v * word_of_int base + word_of_int d) (i + 1)
   | None \<Rightarrow> Some (v, i))"

text \<open>The prefix \<^verbatim>\<open>0x\<close> and the choice of the base.\<close>

definition number_base :: "cstring \<Rightarrow> int \<Rightarrow> nat \<Rightarrow> int \<times> nat" where
  "number_base p base i =
     (let (base, i) = (if (base = 16 \<or> base = 0) \<and> p i = 0x30 \<and> (p (i + 1) = 0x78 \<or> p (i + 1) = 0x58)
                       then (16, i + 2) else (base, i))
      in (if base = 0 then if p i = 0x30 then 8 else 10 else base, i))"

definition strtol :: "cstring \<Rightarrow> int \<Rightarrow> (int \<times> nat) option" where
  "strtol p base = Option.bind (skip_space p 0) (\<lambda>i.
     let is_neg = (p i = 0x2D);
         (base, i) = number_base p base (if is_neg then i + 1 else i)
     in Option.bind (number_loop p base 0 i) (\<lambda>(v, i). Some (sint (if is_neg then - v else v), i)))"

definition atol :: "cstring \<Rightarrow> int option" where
  "atol str = map_option fst (strtol str 10)"

definition strtoul :: "cstring \<Rightarrow> int \<Rightarrow> (u32 \<times> nat) option" where
  "strtoul p base = Option.bind (skip_space p 0) (\<lambda>i.
     let (base, i) = number_base p base i in number_loop p base 0 i)"

section \<open>Random numbers\<close>

text \<open>The two words of \<^verbatim>\<open>seed\<close> are the state.\<close>

definition rand :: "u32 \<times> u32 \<Rightarrow> u32 \<times> (u32 \<times> u32)" where
  "rand seed = (case seed of (s0, s1) \<Rightarrow>
     let s0 = s0 + 0xA859C317; s0 = s0 + (push_bit 13 s1 OR drop_bit 19 s1); s1 = s1 + s0
     in (s0 AND 0x7FFFFFFF, (s0, s1)))"

definition srand :: "u32 \<Rightarrow> u32 \<times> u32" where
  "srand new_seed = (new_seed, new_seed)"

section \<open>Printing and parsing\<close>

definition digits_nat :: "nat \<Rightarrow> nat list \<Rightarrow> nat" where
  "digits_nat b ds = foldl (\<lambda>v d. v * b + d) 0 ds"

lemma digits_nat_snoc: "digits_nat b (ds @ [d]) = digits_nat b ds * b + d"
  by (simp add: digits_nat_def)

lemma digit_loop_digits:
  assumes "2 \<le> b" "b \<le> 16"
  shows "u < b ^ r \<Longrightarrow> 0 < r \<Longrightarrow> \<exists>ds. digit_loop r b u acc = Some (map (\<lambda>d. digs ! d) ds @ acc) \<and> ds \<noteq> [] \<and>
    (\<forall>d \<in> set ds. d < b) \<and> digits_nat b ds = u \<and> (hd ds = 0 \<longrightarrow> ds = [0])"
proof (induction r arbitrary: u acc)
  case 0
  then show ?case by simp
next
  case (Suc r)
  have m: "u mod b < b" "u mod b < length digs" using assms by (auto simp: digs_def less_le_trans [of _ b])
  show ?case
  proof (cases "u div b = 0")
    case True
    then have "u < b" using assms by (simp add: div_eq_0_iff)
    then show ?thesis using True m by (intro exI [of _ "[u]"]) (auto simp: digits_nat_def Let_def)
  next
    case False
    have "u div b < b ^ r" using Suc.prems(1) assms by (simp add: less_mult_imp_div_less mult.commute)
    moreover have "0 < r" using False \<open>u div b < b ^ r\<close> by (cases r) auto
    ultimately obtain ds where ds: "digit_loop r b (u div b) (digs ! (u mod b) # acc) = Some (map (\<lambda>d. digs ! d) ds @ digs ! (u mod b) # acc)"
      "ds \<noteq> []" "\<forall>d \<in> set ds. d < b" "digits_nat b ds = u div b" "hd ds = 0 \<longrightarrow> ds = [0]"
      using Suc.IH [of "u div b" "digs ! (u mod b) # acc"] by auto
    have "hd ds \<noteq> 0" using ds(4,5) False by (auto simp: digits_nat_def)
    then show ?thesis
      using ds m False assms by (intro exI [of _ "ds @ [u mod b]"]) (auto simp: Let_def digits_nat_snoc)
  qed
qed

lemma digs_char: "d < 16 \<Longrightarrow> sint (digs ! d) = (if d < 10 then 48 + int d else 87 + int d)"
proof -
  have "list_all (\<lambda>d. sint (digs ! d) = (if d < 10 then 48 + int d else 87 + int d)) [0..<16]"
    by (simp add: digs_def upt_rec)
  then show "d < 16 \<Longrightarrow> ?thesis" by (simp add: list_all_iff)
qed

lemma digit_value_digs: "d < b \<Longrightarrow> b \<le> 16 \<Longrightarrow> digit_value (int b) (sint (digs ! d)) = Some (int d)"
  using digs_char [of d] by (auto simp: digit_value_def)

lemma digit_value_0 [simp]: "digit_value base 0 = None"
  by (simp add: digit_value_def)

lemma number_loop_digits:
  assumes "b \<le> 16"
  shows "(\<And>j. j < length ds \<Longrightarrow> p (i + j) = digs ! (ds ! j)) \<Longrightarrow> \<forall>d \<in> set ds. d < b \<Longrightarrow> p (i + length ds) = 0 \<Longrightarrow>
    number_loop p (int b) v i = Some (foldl (\<lambda>v d. v * of_nat b + of_nat d) v ds, i + length ds)"
proof (induction ds arbitrary: i v)
  case Nil
  then show ?case by (subst number_loop.simps) simp
next
  case (Cons d ds)
  have "p i = digs ! d" using Cons.prems(1) [of 0] by simp
  then have "digit_value (int b) (sint (p i)) = Some (int d)" using Cons.prems(2) assms digit_value_digs [of d b] by simp
  moreover have "number_loop p (int b) (v * of_nat b + of_nat d) (i + 1)
      = Some (foldl (\<lambda>v d. v * of_nat b + of_nat d) (v * of_nat b + of_nat d) ds, i + 1 + length ds)"
    using Cons.IH [of "i + 1"] Cons.prems(1) [of "Suc _"] Cons.prems(2,3) by simp
  ultimately show ?case by (subst number_loop.simps) simp
qed

lemma foldl_digits: "foldl (\<lambda>v d. v * of_nat b + of_nat d) 0 ds = (of_nat (digits_nat b ds) :: u32)"
  by (induction ds rule: rev_induct) (simp_all add: digits_nat_def)

text \<open>A printed number that starts at offset \<open>i\<close> of a string is read back.\<close>

lemma parse_digits:
  assumes "2 \<le> b" "b \<le> 16" "ds \<noteq> []" "\<forall>d \<in> set ds. d < b" "hd ds = 0 \<longrightarrow> ds = [0]"
    and "\<And>j. j < length ds \<Longrightarrow> p (i + j) = digs ! (ds ! j)" "p (i + length ds) = 0"
  shows "number_base p (int b) i = (int b, i) \<and> number_loop p (int b) 0 i = Some (of_nat (digits_nat b ds), i + length ds)
    \<and> \<not> isspace (sint (p i)) \<and> p i \<noteq> 0x2D"
proof -
  have c: "sint (p i) = (if hd ds < 10 then 48 + int (hd ds) else 87 + int (hd ds))"
    using assms(2-4) assms(6) [of 0] digs_char [of "hd ds"] by (cases ds) auto
  have "p i = 0x30 \<Longrightarrow> p (i + 1) = 0"
  proof -
    assume "p i = 0x30"
    then have "hd ds = 0" using c by (auto split: if_splits)
    then show ?thesis using assms(5,7) by simp
  qed
  then have "number_base p (int b) i = (int b, i)" using assms(1) by (auto simp: number_base_def)
  moreover have "number_loop p (int b) 0 i = Some (of_nat (digits_nat b ds), i + length ds)"
    using number_loop_digits [OF assms(2,6,4,7), where v = 0] foldl_digits [of b ds] by simp
  moreover have "\<not> isspace (sint (p i))" using c by (simp add: isspace_def)
  moreover have "p i \<noteq> 0x2D" using c by (auto split: if_splits)
  ultimately show ?thesis by blast
qed

lemma print_num_plain:
  assumes "2 \<le> b" "b \<le> 16" "unat u < b ^ 32"
  shows "\<exists>ds. print_num initial_conversion sg (int b) u = Some ((if sg \<noteq> 0 then [sg] else []) @ map (\<lambda>d. digs ! d) ds) \<and> ds \<noteq> [] \<and>
    (\<forall>d \<in> set ds. d < b) \<and> digits_nat b ds = unat u \<and> (hd ds = 0 \<longrightarrow> ds = [0])"
proof -
  have "unat (word_of_int (int b) :: 64 word) = b" using assms(2) by (simp add: unat_of_nat)
  moreover obtain ds where "digit_loop 32 b (unat u) [] = Some (map (\<lambda>d. digs ! d) ds)" "ds \<noteq> []"
    "\<forall>d \<in> set ds. d < b" "digits_nat b ds = unat u" "hd ds = 0 \<longrightarrow> ds = [0]"
    using digit_loop_digits [OF assms(1,2), of "unat u" 32 "[]"] assms(3) by auto
  ultimately show ?thesis
    by (intro exI [of _ ds]) (simp add: print_num_def initial_conversion_def pad_def Let_def)
qed

lemma doprnt_Nil: "doprnt str radix [] args = Some []"
  by (subst doprnt.simps) simp

lemma doprnt_one:
  assumes "scan_conversion [c] args = Some ([c], k, args)"
  shows "doprnt str radix [of_char CHR ''%'', c] args = map_option fst (convert str radix k c args)"
  by (subst doprnt.simps) (simp add: assms doprnt_Nil split: option.splits)

lemma scan_plain:
  "scan_conversion [of_char CHR ''d''] args = Some ([of_char CHR ''d''], initial_conversion, args)"
  "scan_conversion [of_char CHR ''x''] args = Some ([of_char CHR ''x''], initial_conversion, args)"
  by (simp_all add: scan_conversion_def scan_zero_def scan_width_def scan_prec_def is_digit_def)

text \<open>The text of a number after an optional sign, as both parsers see it.\<close>

lemma parse_printed:
  assumes "2 \<le> b" "b \<le> 16" "unat u < b ^ 32"
  shows "\<exists>ds. print_num initial_conversion sg (int b) u = Some ((if sg \<noteq> 0 then [sg] else []) @ ds) \<and>
    (let p = of_list ((if sg \<noteq> 0 then [sg] else []) @ ds); i = (if sg \<noteq> 0 then 1 else 0)
     in number_base p (int b) i = (int b, i) \<and> number_loop p (int b) 0 i = Some (ucast u, i + length ds)
        \<and> \<not> isspace (sint (p i)) \<and> p i \<noteq> 0x2D)"
proof -
  obtain ds where ds: "print_num initial_conversion sg (int b) u = Some ((if sg \<noteq> 0 then [sg] else []) @ map (\<lambda>d. digs ! d) ds)"
    "ds \<noteq> []" "\<forall>d \<in> set ds. d < b" "digits_nat b ds = unat u" "hd ds = 0 \<longrightarrow> ds = [0]"
    using print_num_plain [OF assms, of sg] by (elim exE conjE) (rule that)
  let ?p = "of_list ((if sg \<noteq> 0 then [sg] else []) @ map (\<lambda>d. digs ! d) ds)" and ?i = "if sg \<noteq> 0 then 1 else 0 :: nat"
  have "?p (?i + j) = digs ! (ds ! j)" if "j < length ds" for j using that by (simp add: of_list_def)
  moreover have "?p (?i + length ds) = 0" by (simp add: of_list_def)
  ultimately have "number_base ?p (int b) ?i = (int b, ?i) \<and> number_loop ?p (int b) 0 ?i = Some (of_nat (digits_nat b ds), ?i + length ds)
      \<and> \<not> isspace (sint (?p ?i)) \<and> ?p ?i \<noteq> 0x2D"
    by (rule parse_digits [OF assms(1,2) ds(2,3,5)])
  moreover have "(of_nat (unat u) :: u32) = ucast u" by simp
  ultimately show ?thesis
    using ds(1,4) by (intro exI [of _ "map (\<lambda>d. digs ! d) ds"]) (simp add: Let_def)
qed

lemma word_of_take_bit: "(word_of_int (take_bit 64 k) :: u32) = word_of_int k"
  by (rule bit_word_eqI) (auto simp: bit_simps)

lemma cast_word:
  fixes w :: u32
  shows "ucast (ucast w :: 64 word) = w" "ucast (scast w :: 64 word) = w" "ucast (- (scast w :: 64 word)) = - w"
proof -
  show "ucast (ucast w :: 64 word) = w" by (rule bit_word_eqI) (simp add: bit_ucast_iff)
  have s: "ucast (scast w :: 64 word) = w" by (rule bit_word_eqI) (auto simp: bit_ucast_iff bit_signed_iff)
  then show "ucast (scast w :: 64 word) = w" .
  have "ucast (- x) = (- ucast x :: u32)" for x :: "64 word"
  proof -
    have "ucast (- x) = (word_of_int (uint (- x)) :: u32)" by simp
    also have "uint (- x) = take_bit 64 (- uint x)" by (simp add: uint_word_ariths take_bit_eq_mod)
    also have "(word_of_int (take_bit 64 (- uint x)) :: u32) = word_of_int (- uint x)" by (rule word_of_take_bit)
    also have "\<dots> = - ucast x" by simp
    finally show ?thesis .
  qed
  then show "ucast (- (scast w :: 64 word)) = - w" using s by simp
qed

lemma sint_scast: "sint (scast (w :: u32) :: 64 word) = sint w"
  using sint_greater_eq [of w] sint_less [of w] by (simp add: signed_scast_eq signed_take_bit_int_eq_self)

lemma skip_nothing: "\<not> isspace (sint (p 0)) \<Longrightarrow> skip_space p 0 = Some 0"
  by (subst skip_space.simps) simp

lemma plain_fields [simp]: "cv_longopt initial_conversion = 0" "cv_plus_sign initial_conversion = 0"
  by (simp_all add: initial_conversion_def)

lemma number_room: "unat (x :: 64 word) < 10 ^ 32" "unat x < 16 ^ 32"
proof -
  have "unat x < 2 ^ 64" using unsigned_less [of x, where 'a = nat] by simp
  moreover have "(2 :: nat) ^ 64 \<le> 10 ^ 32" "(2 :: nat) ^ 64 \<le> 16 ^ 32" by simp_all
  ultimately show "unat x < 10 ^ 32" "unat x < 16 ^ 32" using less_le_trans by blast+
qed

lemma print_hex_roundtrip:
  "\<exists>xs. doprnt str radix (map of_char ''%x'') [w] = Some xs \<and> strtoul (of_list xs) 16 = Some (w, length xs)"
proof -
  obtain xs where xs: "print_num initial_conversion 0 16 (ucast w) = Some xs"
    "number_base (of_list xs) 16 0 = (16, 0)" "number_loop (of_list xs) 16 0 0 = Some (w, length xs)" "\<not> isspace (sint (of_list xs 0))"
    using parse_printed [of 16 "ucast w" 0, OF _ _ number_room(2)] unfolding Let_def by (auto simp: cast_word)
  have "doprnt str radix (map of_char ''%x'') [w] = Some xs"
    using doprnt_one [OF scan_plain(2), of str radix "[w]"] xs(1)
    by (simp add: convert_def print_unsigned_def va_arg_def)
  moreover have "strtoul (of_list xs) 16 = Some (w, length xs)"
    using xs(2-4) by (simp add: strtoul_def skip_nothing)
  ultimately show ?thesis by blast
qed

lemma print_decimal_roundtrip:
  "\<exists>ds. doprnt str radix (map of_char ''%d'') [w] = Some ds \<and> strtol (of_list ds) 10 = Some (sint w, length ds)"
proof (cases "sint w < 0")
  case True
  obtain ds where ds: "print_num initial_conversion 0x2D 10 (- scast w) = Some (0x2D # ds)"
    "number_base (of_list (0x2D # ds)) 10 1 = (10, 1)" "number_loop (of_list (0x2D # ds)) 10 0 1 = Some (- w, Suc (length ds))"
    using parse_printed [of 10 "- scast w" "0x2D", OF _ _ number_room(1)] unfolding Let_def by (auto simp: cast_word)
  have "doprnt str radix (map of_char ''%d'') [w] = Some (0x2D # ds)"
    using doprnt_one [OF scan_plain(1), of str radix "[w]"] ds(1) True sint_scast [of w]
    by (simp add: convert_def print_signed_def va_arg_def)
  moreover have "of_list (0x2D # ds) 0 = 0x2D" by (simp add: of_list_def)
  then have "strtol (of_list (0x2D # ds)) 10 = Some (sint w, length (0x2D # ds))"
    using ds(2,3) by (simp add: strtol_def skip_nothing isspace_def)
  ultimately show ?thesis by blast
next
  case False
  obtain ds where ds: "print_num initial_conversion 0 10 (scast w) = Some ds"
    "number_base (of_list ds) 10 0 = (10, 0)" "number_loop (of_list ds) 10 0 0 = Some (w, length ds)"
    "\<not> isspace (sint (of_list ds 0))" "of_list ds 0 \<noteq> 0x2D"
    using parse_printed [of 10 "scast w" 0, OF _ _ number_room(1)] unfolding Let_def by (auto simp: cast_word)
  have "doprnt str radix (map of_char ''%d'') [w] = Some ds"
    using doprnt_one [OF scan_plain(1), of str radix "[w]"] ds(1) False sint_scast [of w]
    by (simp add: convert_def print_signed_def va_arg_def)
  moreover have "strtol (of_list ds) 10 = Some (sint w, length ds)"
    using ds(2-5) by (simp add: strtol_def skip_nothing)
  ultimately show ?thesis by blast
qed

text \<open>
  C29: Printing and parsing are inverse.  The decimal text that \<^verbatim>\<open>%d\<close> prints for a word is read back by
  \<^verbatim>\<open>strtol\<close> as the same signed number, up to its end, and the text that \<^verbatim>\<open>%x\<close> prints is read back by
  \<^verbatim>\<open>strtoul\<close> in base 16.
\<close>

theorem print_parse_roundtrip:
  "(\<exists>ds. doprnt str radix (map of_char ''%d'') [w] = Some ds \<and> strtol (of_list ds) 10 = Some (sint w, length ds)) \<and>
   (\<exists>xs. doprnt str radix (map of_char ''%x'') [w] = Some xs \<and> strtoul (of_list xs) 16 = Some (w, length xs))"
  using print_decimal_roundtrip print_hex_roundtrip by blast

end
