(* ===== verification/Stdio.thy ===== *)
theory Stdio
  imports Stdlib
begin

text \<open>
  The callers of \<open>doprnt\<close>: printing into a buffer, \<^verbatim>\<open>410kern/stdio/sprintf.c\<close>, and on the console,
  \<^verbatim>\<open>printf.c\<close>, \<^verbatim>\<open>puts.c\<close> and \<^verbatim>\<open>putchar.c\<close>.  The buffer of a caller does not overlap the format and the
  string arguments.  The variadic functions differ from their \<^verbatim>\<open>v\<close> forms only in how the arguments are
  passed.
\<close>

section \<open>Printing into a buffer\<close>

abbreviation (input) SPRINTF_UNLIMITED :: u32 where "SPRINTF_UNLIMITED \<equiv> - 1"

record sprintf_state =
  sp_buf :: u32
  sp_len :: u32
  sp_max :: u32

definition savechar :: "u8 \<Rightarrow> sprintf_state \<times> memory \<Rightarrow> sprintf_state \<times> memory" where
  "savechar c r = (case r of (st, m) \<Rightarrow>
     if sp_max st \<noteq> SPRINTF_UNLIMITED \<and> sp_len st = sp_max st then (st, m)
     else (st\<lparr>sp_len := sp_len st + 1, sp_buf := sp_buf st + 1\<rparr>, m(sp_buf st := c)))"

definition print_to :: "u32 \<Rightarrow> u32 \<Rightarrow> u8 list \<Rightarrow> memory \<Rightarrow> u32 \<times> memory" where
  "print_to s mx out m =
     (case fold savechar out (\<lparr>sp_buf = s, sp_len = 0, sp_max = mx\<rparr>, m) of (st, m) \<Rightarrow>
       (sp_len st, m(sp_buf st := 0)))"

definition vsprintf :: "(u32 \<Rightarrow> u8 list) \<Rightarrow> u32 \<Rightarrow> u8 list \<Rightarrow> u32 list \<Rightarrow> memory \<Rightarrow> (u32 \<times> memory) option" where
  "vsprintf str s fmt args m = map_option (\<lambda>out. print_to s SPRINTF_UNLIMITED out m) (doprnt str 0 fmt args)"

definition vsnprintf :: "(u32 \<Rightarrow> u8 list) \<Rightarrow> u32 \<Rightarrow> u32 \<Rightarrow> u8 list \<Rightarrow> u32 list \<Rightarrow> memory \<Rightarrow> (u32 \<times> memory) option" where
  "vsnprintf str s sz fmt args m = map_option (\<lambda>out. print_to s (sz - 1) out m) (doprnt str 0 fmt args)"

definition sprintf :: "(u32 \<Rightarrow> u8 list) \<Rightarrow> u32 \<Rightarrow> u8 list \<Rightarrow> u32 list \<Rightarrow> memory \<Rightarrow> (u32 \<times> memory) option" where
  "sprintf str s fmt args m = vsprintf str s fmt args m"

definition snprintf :: "(u32 \<Rightarrow> u8 list) \<Rightarrow> u32 \<Rightarrow> u32 \<Rightarrow> u8 list \<Rightarrow> u32 list \<Rightarrow> memory \<Rightarrow> (u32 \<times> memory) option" where
  "snprintf str s sz fmt args m = vsnprintf str s sz fmt args m"

section \<open>Printing on the console\<close>

definition putchar :: "u8 \<Rightarrow> 'a dstate_scheme \<Rightarrow> 'a dstate_scheme" where
  "putchar c = putbyte c"

partial_function (option) puts_loop :: "cstring \<Rightarrow> nat \<Rightarrow> 'a dstate_scheme \<Rightarrow> 'a dstate_scheme option" where
  "puts_loop p i s = (if p i \<noteq> 0 then puts_loop p (i + 1) (putchar (p i) s) else Some s)"

definition puts :: "cstring \<Rightarrow> 'a dstate_scheme \<Rightarrow> 'a dstate_scheme option" where
  "puts p s = map_option (putchar 0x0A) (puts_loop p 0 s)"

text \<open>
  The structure \<^verbatim>\<open>printf_state\<close> as the bytes from its address on: 128 bytes of buffer, followed by the
  index.  A newline that arrives when the buffer is full is stored in the index itself.
\<close>

abbreviation (input) PRINTF_BUFMAX :: u32 where "PRINTF_BUFMAX \<equiv> 128"

definition pf_index :: "memory \<Rightarrow> u32" where
  "pf_index st = load32 st PRINTF_BUFMAX"

definition set_pf_index :: "u32 \<Rightarrow> memory \<Rightarrow> memory" where
  "set_pf_index i st = store32 PRINTF_BUFMAX i st"

definition flush :: "memory \<Rightarrow> 'a dstate_scheme \<Rightarrow> memory \<times> 'a dstate_scheme" where
  "flush st s = (set_pf_index 0 st, fold (\<lambda>i. putchar (st (of_nat i))) [0..<unat (pf_index st)] s)"

definition printf_char :: "u8 \<Rightarrow> memory \<times> 'a dstate_scheme \<Rightarrow> (memory \<times> 'a dstate_scheme) option" where
  "printf_char c r = (case r of (st, s) \<Rightarrow>
     if c = 0x0A then
       (let st' = st(pf_index st := 0) in map_option (\<lambda>s'. (set_pf_index 0 st', s')) (puts (at st' 0) s))
     else if c = 0 \<or> pf_index st \<ge> PRINTF_BUFMAX then
       (case flush st s of (st', s') \<Rightarrow> Some (st', putchar c s'))
     else (let st' = st(pf_index st := c) in Some (set_pf_index (pf_index st' + 1) st', s)))"

fun printf_chars :: "u8 list \<Rightarrow> memory \<times> 'a dstate_scheme \<Rightarrow> (memory \<times> 'a dstate_scheme) option" where
  "printf_chars [] r = Some r"
| "printf_chars (c # cs) r = Option.bind (printf_char c r) (printf_chars cs)"

definition vprintf :: "memory \<Rightarrow> (u32 \<Rightarrow> u8 list) \<Rightarrow> u8 list \<Rightarrow> u32 list \<Rightarrow> 'a dstate_scheme \<Rightarrow> 'a dstate_scheme option" where
  "vprintf junk str fmt args s = Option.bind (doprnt str 0 fmt args) (\<lambda>out.
     map_option (\<lambda>(st, s). if pf_index st \<noteq> 0 then snd (flush st s) else s)
       (printf_chars out (set_pf_index 0 junk, s)))"

definition printf :: "memory \<Rightarrow> (u32 \<Rightarrow> u8 list) \<Rightarrow> u8 list \<Rightarrow> u32 list \<Rightarrow> 'a dstate_scheme \<Rightarrow> 'a dstate_scheme option" where
  "printf junk str fmt args s = vprintf junk str fmt args s"

section \<open>Bounds of \<^verbatim>\<open>snprintf\<close>\<close>

lemma offset_iff: "j < 2 ^ 32 \<Longrightarrow> unat (a - s) = j \<longleftrightarrow> a = s + of_nat j" for a s :: u32
proof -
  assume "j < 2 ^ 32"
  then have "unat (of_nat j :: u32) = j" by (rule unat_of_small)
  then have "unat (a - s) = j \<longleftrightarrow> a - s = of_nat j" by (metis word_unat_eq_iff)
  then show ?thesis by (auto simp: algebra_simps)
qed

lemma savechar_all:
  assumes "mx \<noteq> SPRINTF_UNLIMITED"
  shows "j \<le> unat mx \<Longrightarrow> fold savechar out (\<lparr>sp_buf = s + of_nat j, sp_len = of_nat j, sp_max = mx\<rparr>, m)
    = (let k = min (length out) (unat mx - j) in (\<lparr>sp_buf = s + of_nat (j + k), sp_len = of_nat (j + k), sp_max = mx\<rparr>,
        \<lambda>a. if j \<le> unat (a - s) \<and> unat (a - s) < j + k then out ! (unat (a - s) - j) else m a))"
proof (induction out arbitrary: j m)
  case Nil
  then show ?case by (auto simp: fun_eq_iff)
next
  case (Cons c out)
  have j2: "j < 2 ^ 32" using Cons.prems unsigned_less [of mx, where 'a = nat] by simp
  then have j: "of_nat j = mx \<longleftrightarrow> j = unat mx" "j < 2 ^ 32" using unat_of_small [OF j2] by auto
  show ?case
  proof (cases "j = unat mx")
    case True
    have "fold savechar xs (\<lparr>sp_buf = b, sp_len = mx, sp_max = mx\<rparr>, m) = (\<lparr>sp_buf = b, sp_len = mx, sp_max = mx\<rparr>, m)" for xs b
      by (induction xs) (simp_all add: savechar_def assms)
    moreover have e: "(\<lambda>a. if j \<le> unat (a - s) \<and> unat (a - s) < j then (c # out) ! (unat (a - s) - j) else m a) = m"
      by (intro ext) auto
    moreover have k0: "min (length (c # out)) (unat mx - j) = 0" using True by simp
    ultimately show ?thesis unfolding Let_def k0 add_0_right e using True by (simp only: of_nat_unat ucast_id)
  next
    case False
    let ?k = "min (length out) (unat mx - Suc j)"
    have S: "savechar c (\<lparr>sp_buf = s + of_nat j, sp_len = of_nat j, sp_max = mx\<rparr>, m)
        = (\<lparr>sp_buf = s + of_nat (Suc j), sp_len = of_nat (Suc j), sp_max = mx\<rparr>, m(s + of_nat j := c))"
      using False j(1) by (simp add: savechar_def algebra_simps)
    have K: "min (length (c # out)) (unat mx - j) = Suc ?k" using False Cons.prems by (simp add: Suc_diff_le)
    have "(if Suc j \<le> unat (a - s) \<and> unat (a - s) < Suc j + ?k then out ! (unat (a - s) - Suc j) else (m(s + of_nat j := c)) a)
        = (if j \<le> unat (a - s) \<and> unat (a - s) < j + Suc ?k then (c # out) ! (unat (a - s) - j) else m a)" for a
      using offset_iff [OF j(2), of a s] by (cases "unat (a - s) = j") (auto simp: nth_Cons')
    then have E: "(\<lambda>a. if Suc j \<le> unat (a - s) \<and> unat (a - s) < Suc j + ?k then out ! (unat (a - s) - Suc j) else (m(s + of_nat j := c)) a)
        = (\<lambda>a. if j \<le> unat (a - s) \<and> unat (a - s) < j + Suc ?k then (c # out) ! (unat (a - s) - j) else m a)" by (rule ext)
    have "Suc j \<le> unat mx" using False Cons.prems by simp
    then show ?thesis
      unfolding fold_simps S K Cons.IH [OF \<open>Suc j \<le> unat mx\<close>] Let_def E by simp
  qed
qed

text \<open>
  C30: \<^verbatim>\<open>snprintf\<close> stays inside its buffer.  With a positive size it stores the formatted text cut to
  \<open>size - 1\<close> bytes, terminates it, changes no byte outside the \<open>size\<close> bytes of the buffer, and returns the
  number of bytes stored.
\<close>

theorem snprintf_in_bounds:
  assumes "0 < sz" "doprnt str 0 fmt args = Some out"
  defines "k \<equiv> min (length out) (unat sz - 1)"
  shows "\<exists>m'. snprintf str s sz fmt args m = Some (of_nat k, m') \<and> (\<forall>i<k. m' (s + of_nat i) = out ! i)
    \<and> m' (s + of_nat k) = 0 \<and> (\<forall>a. unat sz \<le> unat (a - s) \<longrightarrow> m' a = m a)"
proof -
  have sz: "unat (sz - 1) = unat sz - 1" "sz - 1 \<noteq> SPRINTF_UNLIMITED"
    using assms(1) by (auto simp: unat_minus_one )
  let ?m = "\<lambda>a. if unat (a - s) < k then out ! unat (a - s) else m a"
  have f: "fold savechar out (\<lparr>sp_buf = s, sp_len = 0, sp_max = sz - 1\<rparr>, m)
      = (\<lparr>sp_buf = s + of_nat k, sp_len = of_nat k, sp_max = sz - 1\<rparr>, ?m)"
    using savechar_all [OF sz(2), of 0 out s m] by (simp add: sz(1) k_def Let_def cong: if_cong)
  have k: "k < 2 ^ 32" "k < unat sz"
    using unsigned_less [of sz, where 'a = nat] assms(1) by (auto simp: k_def word_less_nat_alt)
  have i: "unat (of_nat i :: u32) = i" if "i \<le> k" for i using that k(1) by (intro unat_of_small) simp
  have neq: "of_nat i \<noteq> (of_nat k :: u32)" if "i < k" for i using i [of i] i [of k] that by (metis le_refl less_imp_le_nat less_irrefl)
  have "a \<noteq> s + of_nat k" if "unat sz \<le> unat (a - s)" for a using offset_iff [OF k(1), of a s] that k(2) by auto
  then show ?thesis
    using f i neq k(2) assms(2)
    by (intro exI [of _ "?m(s + of_nat k := 0)"]) (auto simp: snprintf_def vsnprintf_def print_to_def)
qed

section \<open>Buffering of \<^verbatim>\<open>printf\<close>\<close>

text \<open>The structure holds the characters \<open>bs\<close> that have not been printed yet.\<close>

definition holds_chars :: "memory \<Rightarrow> u8 list \<Rightarrow> bool" where
  "holds_chars st bs \<longleftrightarrow> length bs \<le> 128 \<and> 0 \<notin> set bs \<and> pf_index st = of_nat (length bs) \<and> (\<forall>i < length bs. st (of_nat i) = bs ! i)"

lemma puts_loop_prints:
  assumes "is_cstr p xs"
  shows "i \<le> length xs \<Longrightarrow> puts_loop p i s = Some (fold putbyte (drop i xs) s)"
proof (induction "length xs - i" arbitrary: i s)
  case 0
  then show ?case using is_cstr_end [OF assms] by (subst puts_loop.simps) simp
next
  case (Suc d)
  then have "i < length xs" by simp
  then show ?case
    using Suc.hyps(1) [of "i + 1"] Suc.hyps(2) is_cstr_nth [OF assms, of i]
    by (subst puts_loop.simps) (simp add: putchar_def Cons_nth_drop_Suc [symmetric])
qed

lemma pf_index_set [simp]: "pf_index (set_pf_index v st) = v"
  by (simp add: pf_index_def set_pf_index_def)

lemma pf_index_store:
  assumes "a < 128"
  shows "pf_index (st(a := c)) = pf_index st" "set_pf_index v st a = st a"
proof -
  have "a \<noteq> 128" "a \<noteq> 129" "a \<noteq> 130" "a \<noteq> 131" using assms by auto
  then show "pf_index (st(a := c)) = pf_index st" "set_pf_index v st a = st a"
    by (simp_all add: pf_index_def set_pf_index_def load32_def store32_def)
qed

lemma small_index: "i < 128 \<Longrightarrow> (of_nat i :: u32) < 128" "i \<le> 128 \<Longrightarrow> unat (of_nat i :: u32) = i"
  by (simp_all add: word_less_nat_alt unat_of_nat)

lemma flush_prints:
  assumes "holds_chars st bs"
  shows "flush st s = (set_pf_index 0 st, fold putbyte bs s)"
proof -
  have n: "unat (pf_index st) = length bs" using assms small_index(2) by (simp add: holds_chars_def)
  have "bs = map (\<lambda>i. st (of_nat i)) [0..<length bs]" using assms by (intro nth_equalityI) (simp_all add: holds_chars_def)
  then have "fold putbyte bs s = fold putbyte (map (\<lambda>i. st (of_nat i)) [0..<length bs]) s" by simp
  then show ?thesis by (simp add: flush_def n putchar_def fold_map comp_def)
qed

lemma printf_char_step:
  assumes "holds_chars st bs"
  shows "\<exists>st' s' bs'. printf_char c (st, s) = Some (st', s') \<and> holds_chars st' bs' \<and> fold putbyte bs' s' = putbyte c (fold putbyte bs s)"
proof -
  let ?i = "pf_index st"
  have b: "length bs \<le> 128" "0 \<notin> set bs" "?i = of_nat (length bs)" "\<And>i. i < length bs \<Longrightarrow> st (of_nat i) = bs ! i"
    using assms by (simp_all add: holds_chars_def)
  have other: "of_nat i \<noteq> ?i" if "i < length bs" for i
    using that b(1,3) small_index(2) [of i] small_index(2) [OF b(1)] by (metis less_imp_le_nat less_irrefl order_trans)
  have empty: "holds_chars (set_pf_index 0 x) []" for x by (simp add: holds_chars_def)
  consider "c = 0x0A" | "c \<noteq> 0x0A" "c = 0 \<or> ?i \<ge> PRINTF_BUFMAX" | "c \<noteq> 0x0A" "c \<noteq> 0" "\<not> ?i \<ge> PRINTF_BUFMAX" by blast
  then show ?thesis
  proof cases
    case 1
    have "is_cstr (at (st(?i := 0)) 0) bs" using b other by (simp add: is_cstr_def at_def)
    then have "puts (at (st(?i := 0)) 0) s = Some (putbyte 0x0A (fold putbyte bs s))"
      using puts_loop_prints [of _ bs 0 s] by (simp add: puts_def putchar_def)
    then show ?thesis using 1 empty by (intro exI [of _ "set_pf_index 0 (st(?i := 0))"] exI [of _ "putbyte 0x0A (fold putbyte bs s)"] exI [of _ "[]"]) (simp add: printf_char_def Let_def)
  next
    case 2
    then show ?thesis using flush_prints [OF assms, of s] empty
      by (intro exI [of _ "set_pf_index 0 st"] exI [of _ "putbyte c (fold putbyte bs s)"] exI [of _ "[]"]) (simp add: printf_char_def putchar_def)
  next
    case 3
    have n: "length bs < 128" using 3(3) small_index(2) [OF b(1)] unfolding b(3) by (simp add: word_le_nat_alt)
    have i: "?i < 128" using small_index(1) [OF n] b(3) by simp
    let ?st = "set_pf_index (?i + 1) (st(?i := c))"
    have "?st (of_nat k) = (bs @ [c]) ! k" if "k < Suc (length bs)" for k
      using that pf_index_store(2) [OF small_index(1), of k] n b(3,4) other by (cases "k < length bs") (auto simp: nth_append less_Suc_eq)
    then have "holds_chars ?st (bs @ [c])" using n b 3(2) by (simp add: holds_chars_def add.commute)
    then show ?thesis using 3 pf_index_store(1) [OF i]
      by (intro exI [of _ ?st] exI [of _ s] exI [of _ "bs @ [c]"]) (simp add: printf_char_def Let_def)
  qed
qed

lemma printf_chars_transparent:
  assumes "holds_chars st bs"
  shows "\<exists>st' s' bs'. printf_chars out (st, s) = Some (st', s') \<and> holds_chars st' bs' \<and> fold putbyte bs' s' = fold putbyte (bs @ out) s"
  using assms
proof (induction out arbitrary: st s bs)
  case Nil
  then show ?case by auto
next
  case (Cons c out)
  obtain st1 s1 bs1 where 1: "printf_char c (st, s) = Some (st1, s1)" "holds_chars st1 bs1" "fold putbyte bs1 s1 = putbyte c (fold putbyte bs s)"
    using printf_char_step [OF Cons.prems] by blast
  then show ?case using Cons.IH [OF 1(2), of s1] by auto
qed

text \<open>
  C31: The buffering of \<^verbatim>\<open>printf\<close> is transparent: whatever the buffer contains at first and wherever the
  text has newlines and NUL bytes, the console ends up in the state that printing the formatted bytes one by
  one would give.
\<close>

theorem printf_unbuffered:
  assumes "doprnt str 0 fmt args = Some out"
  shows "printf junk str fmt args s = Some (putbytes out s)"
proof -
  have "holds_chars (set_pf_index 0 junk) []" by (simp add: holds_chars_def)
  then obtain st' s' bs where r: "printf_chars out (set_pf_index 0 junk, s) = Some (st', s')" "holds_chars st' bs"
    "fold putbyte bs s' = fold putbyte out s"
    using printf_chars_transparent [of "set_pf_index 0 junk" "[]" out s] by auto
  have "unat (pf_index st') = length bs" using r(2) small_index(2) by (simp add: holds_chars_def)
  then have "pf_index st' = 0 \<longleftrightarrow> bs = []" by (metis length_0_conv unat_eq_0)
  moreover have "snd (flush st' s') = fold putbyte bs s'" by (simp add: flush_prints [OF r(2)])
  ultimately show ?thesis
    using assms r(1,3) by (auto simp: printf_def vprintf_def putbytes_def)
qed

section \<open>Witnesses\<close>

lemma percent_u: "doprnt str 0 (map of_char ''u'') [] = Some [0x75]"
  by (simp add: doprnt.simps [of str 0 "_ # _"] doprnt_Nil)

theorem snprintf_in_bounds_witness:
  "\<exists>m'. snprintf (\<lambda>_. []) 0x100 1 (map of_char ''u'') [] (\<lambda>_. 7) = Some (0, m') \<and> m' 0x100 = 0 \<and> m' 0x101 = 7"
  using snprintf_in_bounds [OF _ percent_u, of 1 "\<lambda>_. []" "0x100" "\<lambda>_. 7"] by auto

theorem printf_unbuffered_witness:
  "printf (\<lambda>_. 0) (\<lambda>_. []) (map of_char ''u'') [] blank_console = Some (putbytes [0x75] blank_console)"
  using printf_unbuffered [OF percent_u, of "\<lambda>_. 0" "\<lambda>_. []" blank_console] by simp

end
