(* ===== verification/Faults.thy ===== *)
theory Faults
  imports Keyboard Stdio
begin

text \<open>
  Faults, \<^verbatim>\<open>kern/interrupts/fault_handlers.c\<close>, and the timer interrupt of \<^verbatim>\<open>kern/drivers/timer/timer.c\<close>.
  The processor has set \<^verbatim>\<open>%cr2\<close> before a page fault is handled.
\<close>

section \<open>The timer\<close>

definition tickback :: "u32 \<Rightarrow> (unit, 'a dstate_scheme) kop" where
  "tickback ticks = kswitch context_switch"

definition run_callback :: "callback_fn \<Rightarrow> u32 \<Rightarrow> (unit, 'a dstate_scheme) kop" where
  "run_callback f = (case f of Tickback \<Rightarrow> tickback)"

definition callback_handler :: "(unit, 'a dstate_scheme) kop" where
  "callback_handler = kseq
     [kmodify acknowledge_interrupt,
      kmodify (\<lambda>s. s\<lparr>tick_counter := tick_counter s + 1\<rparr>),
      kbind (kgets (\<lambda>s. (timer_callback s, tick_counter s))) (\<lambda>(f, n).
        case f of None \<Rightarrow> (\<lambda>s. Diverges) | Some f \<Rightarrow> run_callback f n)]"

section \<open>Software exception handlers\<close>

abbreviation (input) SWEXN_CAUSE_DIVIDE :: u32 where "SWEXN_CAUSE_DIVIDE \<equiv> 0"
abbreviation (input) SWEXN_CAUSE_DEBUG :: u32 where "SWEXN_CAUSE_DEBUG \<equiv> 1"
abbreviation (input) SWEXN_CAUSE_BREAKPOINT :: u32 where "SWEXN_CAUSE_BREAKPOINT \<equiv> 3"
abbreviation (input) SWEXN_CAUSE_OVERFLOW :: u32 where "SWEXN_CAUSE_OVERFLOW \<equiv> 4"
abbreviation (input) SWEXN_CAUSE_BOUNDCHECK :: u32 where "SWEXN_CAUSE_BOUNDCHECK \<equiv> 5"
abbreviation (input) SWEXN_CAUSE_OPCODE :: u32 where "SWEXN_CAUSE_OPCODE \<equiv> 6"
abbreviation (input) SWEXN_CAUSE_SEGFAULT :: u32 where "SWEXN_CAUSE_SEGFAULT \<equiv> 0x0B"
abbreviation (input) SWEXN_CAUSE_STACKFAULT :: u32 where "SWEXN_CAUSE_STACKFAULT \<equiv> 0x0C"
abbreviation (input) SWEXN_CAUSE_PROTFAULT :: u32 where "SWEXN_CAUSE_PROTFAULT \<equiv> 0x0D"
abbreviation (input) SWEXN_CAUSE_PAGEFAULT :: u32 where "SWEXN_CAUSE_PAGEFAULT \<equiv> 0x0E"
abbreviation (input) SWEXN_CAUSE_FPUFAULT :: u32 where "SWEXN_CAUSE_FPUFAULT \<equiv> 0x10"
abbreviation (input) SWEXN_CAUSE_ALIGNFAULT :: u32 where "SWEXN_CAUSE_ALIGNFAULT \<equiv> 0x11"

text \<open>A register block that is not initialised, on the stack of the handler.\<close>

definition uninit_ureg :: "u32 \<Rightarrow> ureg" where
  "uninit_ureg junk = words_ureg (replicate 20 junk)"

definition ureg_size :: u32 where "ureg_size = 80"

definition setup_swexn_stack :: "u32 \<Rightarrow> ureg \<Rightarrow> u32 \<Rightarrow> (u32, 'a dstate_scheme) kop" where
  "setup_swexn_stack esp3 ureg arg =
     (let stack_bottom = esp3 - ureg_size
      in kthen (kseq
           [vstore_bytes stack_bottom (concat (map word_bytes (ureg_words ureg))),
            vstore32 (stack_bottom - 4) stack_bottom,
            vstore32 (stack_bottom - 8) arg,
            vstore32 (stack_bottom - 12) (ur_eip ureg)])
         (kret (stack_bottom - 12)))"

definition update_fault_stack :: "u32 \<Rightarrow> u32 \<Rightarrow> addr \<Rightarrow> (unit, 'a dstate_scheme) kop" where
  "update_fault_stack sp eip t = kbind (kgets (\<lambda>s. k_stack_base (threads s t))) (\<lambda>base.
     kseq [poke (below base 2) sp, poke (below base 5) eip])"

definition invoke_swexn_handler :: "u32 \<Rightarrow> (int, 'a dstate_scheme) kop" where
  "invoke_swexn_handler cause =
     kbind (kgets get_curr_task) (\<lambda>task. kbind (kgets get_curr_thread) (\<lambda>t.
     kbind (kgets (\<lambda>s. tasks s task)) (\<lambda>tk.
       if swexn_eip tk = 0 then kret ERR_FAILURE
       else kbind (kgets (\<lambda>s. populate_ureg ((uninit_ureg (stack_junk s))\<lparr>ur_cause := cause, ur_cr2 := cr2 s\<rparr>) ERR_CODE_AVAIL t s)) (\<lambda>ureg.
         kbind (setup_swexn_stack (swexn_esp tk) ureg (swexn_args tk)) (\<lambda>stack_bottom.
           kthen (kseq
             [kbind (kgets (\<lambda>s. swexn_eip (tasks s task))) (\<lambda>eip. update_fault_stack stack_bottom eip t),
              kmodify (upd_task task (\<lambda>x. x\<lparr>swexn_eip := 0\<rparr>))])
             (kret 0))))))"

section \<open>Killing a thread\<close>

abbreviation (input) THREAD_KILL_EXIT_STATUS :: int where "THREAD_KILL_EXIT_STATUS \<equiv> - 2"
abbreviation (input) THREAD_KILL_MSG_LEN :: u32 where "THREAD_KILL_MSG_LEN \<equiv> 256"

definition kill_format :: "u8 list" where
  "kill_format =
     ascii ''Fault code: %d'' @ [0x0A] @ ascii '' Thread id: %d'' @ [0x0A] @ ascii '' eax = %p    ecx = %p'' @ [0x0A]
     @ ascii '' edx = %p    ebx = %p'' @ [0x0A] @ ascii '' esp = %p    ebp = %p'' @ [0x0A]
     @ ascii '' esi = %p    edi = %p'' @ [0x0A] @ ascii '' eip = %p'' @ [0x0A]"

definition kill_current_thread :: "u32 \<Rightarrow> ('r, 'a dstate_scheme) kop" where
  "kill_current_thread cause =
     kthen (kmodify (putbytes (ascii ''Critical error in thread! Killing it...'' @ [0x0A])))
      (kbind (kgets get_curr_thread) (\<lambda>t.
       kbind (kgets (\<lambda>s. (populate_ureg (uninit_ureg (stack_junk s)) ERR_CODE_AVAIL t s, stack_junk s, thr_id (threads s t)))) (\<lambda>(ureg, junk, tid).
         kthen (kloop (\<lambda>s. Option.bind
             (snprintf (\<lambda>_. []) 0 THREAD_KILL_MSG_LEN kill_format
               [cause, word_of_int tid, ur_eax ureg, ur_ecx ureg, ur_edx ureg, ur_ebx ureg, ur_esp ureg, ur_ebp ureg,
                ur_esi ureg, ur_edi ureg, ur_eip ureg] (\<lambda>_. ucast junk)) (\<lambda>(_, buf).
             map_option (\<lambda>n. ((), putbytes (map (at buf 0) [0..<n]) s)) (strlen (at buf 0)))))
          (kbind (kgets get_curr_task) (\<lambda>task.
            kthen (kmodify (upd_task task (\<lambda>x. x\<lparr>exit_status := THREAD_KILL_EXIT_STATUS\<rparr>))) do_vanish)))))"

section \<open>The fault handlers\<close>

definition handle_fault :: "u32 \<Rightarrow> (unit, 'a dstate_scheme) kop" where
  "handle_fault cause = kbind (invoke_swexn_handler cause) (\<lambda>r.
     if r = 0 then kret () else kill_current_thread cause)"

definition divide_error_handler_c :: "(unit, 'a dstate_scheme) kop" where
  "divide_error_handler_c = handle_fault SWEXN_CAUSE_DIVIDE"

definition page_fault_handler_c :: "(unit, 'a dstate_scheme) kop" where
  "page_fault_handler_c = kbind (kgets cr2) (\<lambda>page_fault_addr. kbind (is_addr_cow page_fault_addr) (\<lambda>cow.
     if cow \<noteq> 0 then kbind (handle_cow page_fault_addr) (\<lambda>r. if r < 0 then kill_current_thread SWEXN_CAUSE_PAGEFAULT else kret ())
     else handle_fault SWEXN_CAUSE_PAGEFAULT))"

definition debug_exception_handler_c :: "(unit, 'a dstate_scheme) kop" where
  "debug_exception_handler_c = handle_fault SWEXN_CAUSE_DEBUG"

definition non_maskable_interrupt_handler_c :: "(unit, 'a dstate_scheme) kop" where
  "non_maskable_interrupt_handler_c = kill_current_thread IDT_NMI"

definition breakpoint_handler_c :: "(unit, 'a dstate_scheme) kop" where
  "breakpoint_handler_c = handle_fault SWEXN_CAUSE_BREAKPOINT"

definition overflow_handler_c :: "(unit, 'a dstate_scheme) kop" where
  "overflow_handler_c = handle_fault SWEXN_CAUSE_OVERFLOW"

definition bound_range_handler_c :: "(unit, 'a dstate_scheme) kop" where
  "bound_range_handler_c = handle_fault SWEXN_CAUSE_BOUNDCHECK"

definition undefined_opcode_handler_c :: "(unit, 'a dstate_scheme) kop" where
  "undefined_opcode_handler_c = handle_fault SWEXN_CAUSE_OPCODE"

definition no_math_coprocessor_handler_c :: "(unit, 'a dstate_scheme) kop" where
  "no_math_coprocessor_handler_c = kill_current_thread IDT_NM"

definition cso_handler_c :: "(unit, 'a dstate_scheme) kop" where
  "cso_handler_c = kill_current_thread IDT_CSO"

definition invalid_tss_handler_c :: "(unit, 'a dstate_scheme) kop" where
  "invalid_tss_handler_c = kill_current_thread IDT_TS"

definition snp_handler_c :: "(unit, 'a dstate_scheme) kop" where
  "snp_handler_c = handle_fault SWEXN_CAUSE_SEGFAULT"

definition ssf_handler_c :: "(unit, 'a dstate_scheme) kop" where
  "ssf_handler_c = handle_fault SWEXN_CAUSE_STACKFAULT"

definition gpf_handler_c :: "(unit, 'a dstate_scheme) kop" where
  "gpf_handler_c = handle_fault SWEXN_CAUSE_PROTFAULT"

definition math_fault_handler_c :: "(unit, 'a dstate_scheme) kop" where
  "math_fault_handler_c = kill_current_thread IDT_MF"

definition alignment_check_handler_c :: "(unit, 'a dstate_scheme) kop" where
  "alignment_check_handler_c = handle_fault SWEXN_CAUSE_ALIGNFAULT"

definition machine_check_handler_c :: "(unit, 'a dstate_scheme) kop" where
  "machine_check_handler_c = kill_current_thread IDT_MC"

definition floating_point_exp_handler_c :: "(unit, 'a dstate_scheme) kop" where
  "floating_point_exp_handler_c = handle_fault SWEXN_CAUSE_FPUFAULT"

section \<open>Delivery of a fault\<close>

lemma nth_word_bytes: "i < length ws \<Longrightarrow> j < 4 \<Longrightarrow> concat (map word_bytes ws) ! (4 * i + j) = word_bytes (ws ! i) ! j"
proof (induction ws arbitrary: i)
  case (Cons w ws)
  then show ?case
  proof (cases i)
    case 0
    then show ?thesis using Cons.prems by (simp add: nth_append)
  next
    case (Suc k)
    then show ?thesis using Cons by (simp add: nth_append)
  qed
qed simp

lemma length_word_bytes: "length (concat (map word_bytes ws)) = 4 * length ws"
  by (induction ws) simp_all

lemma length_ureg_words [simp]: "length (ureg_words u) = 20"
  by (simp add: ureg_words_def)

text \<open>The two words of the return frame that a delivery changes.\<close>

definition frame_bytes :: "u32 \<Rightarrow> u32 set" where
  "frame_bytes base = {a. a - below base 2 < 4 \<or> a - below base 5 < 4}"

lemma stored_outside: "a \<notin> pa ` {..<n} \<Longrightarrow> off + length bs \<le> n \<Longrightarrow> stored pa off bs m a = m a"
  by (rule stored_other) auto

lemma stored_at:
  assumes "inj_on pa {..<n}" "off + length bs \<le> n" "j < n"
  shows "stored pa off bs m (pa j) = (if off \<le> j \<and> j < off + length bs then bs ! (j - off) else m (pa j))"
proof (cases "off \<le> j \<and> j < off + length bs")
  case True
  then show ?thesis using stored_nth [OF assms(1,2)] by simp
next
  case False
  have "pa j \<notin> pa ` {off..<off + length bs}"
    using False assms(2,3) by (auto dest!: inj_onD [OF assms(1)])
  then show ?thesis unfolding if_not_P [OF False] by (rule stored_other)
qed

lemma setup_swexn_stack_effect:
  assumes b: "writable_buffer s K (esp3 - 92) 92 pa"
  shows "\<exists>m. setup_swexn_stack esp3 u arg s = Ok (esp3 - 92) (s\<lparr>mem := m\<rparr>) \<and>
    (\<forall>j<92. m (pa j) = concat (map word_bytes (ur_eip u # arg # (esp3 - 80) # ureg_words u)) ! j) \<and>
    (\<forall>a. a \<notin> pa ` {..<92} \<longrightarrow> m a = mem s a)"
proof -
  let ?buf = "esp3 - 92" let ?bs = "concat (map word_bytes (ureg_words u))"
  have len: "length ?bs = 80" by (simp add: length_word_bytes)
  define m1 where "m1 = stored pa 12 ?bs (mem s)"
  define m2 where "m2 = stored pa 8 (word_bytes (esp3 - 80)) m1"
  define m3 where "m3 = stored pa 4 (word_bytes arg) m2"
  define m4 where "m4 = stored pa 0 (word_bytes (ur_eip u)) m3"
  note m_defs = m1_def m2_def m3_def m4_def
  have out: "m1 a = mem s a" "m2 a = mem s a" "m3 a = mem s a" "m4 a = mem s a" if "a \<notin> pa ` {..<92}" for a
    using that len by (simp_all add: m_defs stored_outside)
  have v1: "vstore_bytes (esp3 - 80) ?bs s = Ok () (s\<lparr>mem := m1\<rparr>)"
    using vstore_bytes_stored [OF b, of 12 ?bs s] len by (simp add: upd_mem_def m1_def)
  have v2: "vstore32 (esp3 - 84) (esp3 - 80) (s\<lparr>mem := m1\<rparr>) = Ok () (s\<lparr>mem := m2\<rparr>)"
    using vstore_bytes_stored [OF b, of 8 "word_bytes (esp3 - 80)" "s\<lparr>mem := m1\<rparr>"] out by (simp add: upd_mem_def m2_def vstore32_def)
  have v3: "vstore32 (esp3 - 88) arg (s\<lparr>mem := m2\<rparr>) = Ok () (s\<lparr>mem := m3\<rparr>)"
    using vstore_bytes_stored [OF b, of 4 "word_bytes arg" "s\<lparr>mem := m2\<rparr>"] out by (simp add: upd_mem_def m3_def vstore32_def)
  have v4: "vstore32 ?buf (ur_eip u) (s\<lparr>mem := m3\<rparr>) = Ok () (s\<lparr>mem := m4\<rparr>)"
    using vstore_bytes_stored [OF b, of 0 "word_bytes (ur_eip u)" "s\<lparr>mem := m3\<rparr>"] out by (simp add: upd_mem_def m4_def vstore32_def)
  have "setup_swexn_stack esp3 u arg s = Ok ?buf (s\<lparr>mem := m4\<rparr>)"
    using v1 v2 v3 v4 by (simp add: setup_swexn_stack_def ureg_size_def kop_defs Let_def)
  moreover have "m4 (pa j) = concat (map word_bytes (ur_eip u # arg # (esp3 - 80) # ureg_words u)) ! j" if j: "j < 92" for j
  proof -
    have inj: "inj_on pa {..<92}" using b by (simp add: writable_buffer_def)
    have "m4 (pa j) = (if j < 4 then word_bytes (ur_eip u) ! j else if j < 8 then word_bytes arg ! (j - 4)
        else if j < 12 then word_bytes (esp3 - 80) ! (j - 8) else ?bs ! (j - 12))"
      unfolding m_defs using len j by (simp add: stored_at [OF inj _ j])
    also have "\<dots> = (word_bytes (ur_eip u) @ word_bytes arg @ word_bytes (esp3 - 80) @ ?bs) ! j"
    proof -
      consider "j < 4" | "\<not> j < 4" "j < 8" "j - 4 < 4" | "\<not> j < 4" "\<not> j < 8" "j < 12" "\<not> j - 4 < 4" "j - 8 < 4"
        | "\<not> j < 4" "\<not> j < 8" "\<not> j < 12" "\<not> j - 4 < 4" "\<not> j - 8 < 4" by linarith
      then show ?thesis by cases (simp_all add: nth_append)
    qed
    finally show ?thesis by simp
  qed
  ultimately show ?thesis using out by blast
qed

lemma populate_ureg_all: "populate_ureg ((uninit_ureg junk)\<lparr>ur_cause := c, ur_cr2 := x\<rparr>) av t s
    = populate_ureg ((uninit_ureg 0)\<lparr>ur_cause := c, ur_cr2 := x\<rparr>) av t s"
  by (simp add: populate_ureg_def uninit_ureg_def words_ureg_def Let_def)

lemma load32_store32_far:
  assumes "\<not> b - a < 4" "\<not> b + 1 - a < 4" "\<not> b + 2 - a < 4" "\<not> b + 3 - a < 4"
  shows "load32 (store32 a v m) b = load32 m b"
  using assms by (simp add: load32_def store32_other)

lemma below_words: "load32 (store32 (below base 5) y m) (below base 2) = load32 m (below base 2)"
  by (rule load32_store32_far) (simp_all add: below_def)

lemma handle_fault_delivers:
  fixes s :: "'a dstate_scheme" and cause :: u32
  assumes "swexn_eip (tasks s (get_curr_task s)) \<noteq> 0"
    and "writable_buffer s (frame_bytes base) (swexn_esp (tasks s (get_curr_task s)) - 92) 92 pa"
    and "base = k_stack_base (threads s (get_curr_thread s))"
  defines "tk \<equiv> tasks s (get_curr_task s)"
  defines "sp \<equiv> swexn_esp tk - 92"
  defines "u \<equiv> populate_ureg ((uninit_ureg 0)\<lparr>ur_cause := cause, ur_cr2 := cr2 s\<rparr>) ERR_CODE_AVAIL (get_curr_thread s) s"
  shows "\<exists>s'. handle_fault cause s = Ok () s' \<and> swexn_eip (tasks s' (get_curr_task s')) = 0 \<and>
    load32 (mem s') (below base 2) = sp \<and> load32 (mem s') (below base 5) = swexn_eip tk \<and>
    (\<forall>i<23. vload32 (sp + 4 * of_nat i) s' = Ok ((ur_eip u # swexn_args tk # (sp + 12) # ureg_words u) ! i) s') \<and>
    (\<forall>a. a \<notin> frame_bytes base \<longrightarrow> a \<notin> pa ` {..<92} \<longrightarrow> mem s' a = mem s a)"
proof -
  obtain m where m: "setup_swexn_stack (swexn_esp tk) u (swexn_args tk) s = Ok sp (s\<lparr>mem := m\<rparr>)"
    "\<forall>j<92. m (pa j) = concat (map word_bytes (ur_eip u # swexn_args tk # (sp + 12) # ureg_words u)) ! j"
    "\<forall>a. a \<notin> pa ` {..<92} \<longrightarrow> m a = mem s a"
    using setup_swexn_stack_effect [OF assms(2), of u "swexn_args tk"] by (auto simp: sp_def tk_def)
  let ?m = "store32 (below base 5) (swexn_eip tk) (store32 (below base 2) sp m)"
  let ?t = "upd_task (get_curr_task s) (\<lambda>x. x\<lparr>swexn_eip := 0\<rparr>) (s\<lparr>mem := ?m\<rparr>)"
  have keep: "?m a = m a" if "a \<notin> frame_bytes base" for a
    using that by (simp add: frame_bytes_def store32_other)
  have "populate_ureg ((uninit_ureg (stack_junk s))\<lparr>ur_cause := cause, ur_cr2 := cr2 s\<rparr>) ERR_CODE_AVAIL (get_curr_thread s) s = u"
    unfolding u_def by (rule populate_ureg_all)
  then have "invoke_swexn_handler cause s = Ok 0 ?t"
    using assms(1,3) m(1) unfolding tk_def [symmetric]
    by (simp add: invoke_swexn_handler_def kop_defs update_fault_stack_def poke_def upd_mem_def upd_task_def tk_def [symmetric])
  then have run: "handle_fault cause s = Ok () ?t" by (simp add: handle_fault_def kop_defs)
  have va: "vaddr ?t (sp + of_nat j) = Some (pa j)" if "j < 92" for j
  proof (rule writable_buffer_vaddr [OF _ that])
    show "writable_buffer s (frame_bytes base) sp 92 pa" using assms(2) by (simp add: sp_def tk_def)
  qed (use keep m(3) in \<open>simp_all add: upd_task_def\<close>)
  have "vload32 (sp + 4 * of_nat i) ?t = Ok ((ur_eip u # swexn_args tk # (sp + 12) # ureg_words u) ! i) ?t" if "i < 23" for i
  proof (rule vload32_stored [where p = "\<lambda>j. pa (4 * i + j)"])
    fix j :: nat
    assume j: "j < 4"
    have "sp + 4 * of_nat i + of_nat j = sp + of_nat (4 * i + j)" by simp
    moreover have "pa (4 * i + j) \<notin> frame_bytes base" using assms(2) that j by (simp add: writable_buffer_def)
    ultimately show "vaddr ?t (sp + 4 * of_nat i + of_nat j) = Some (pa (4 * i + j)) \<and>
        mem ?t (pa (4 * i + j)) = word_bytes ((ur_eip u # swexn_args tk # (sp + 12) # ureg_words u) ! i) ! j"
      using va [of "4 * i + j"] keep m(2) that j nth_word_bytes [of i "ur_eip u # swexn_args tk # (sp + 12) # ureg_words u" j]
      by (simp add: upd_task_def add.assoc)
  qed
  moreover have "load32 (mem ?t) (below base 2) = sp" "load32 (mem ?t) (below base 5) = swexn_eip tk"
    by (simp_all add: upd_task_def below_words)
  moreover have "swexn_eip (tasks ?t (get_curr_task ?t)) = 0" by (simp add: upd_task_def get_curr_task_def)
  moreover have "mem ?t a = mem s a" if "a \<notin> frame_bytes base" "a \<notin> pa ` {..<92}" for a
    using keep m(3) that by (simp add: upd_task_def)
  ultimately show ?thesis
    using run by (intro exI [of _ ?t] conjI) simp_all
qed


text \<open>A machine whose current task has a handler and an exception stack in a page of its own.\<close>

definition swexn_machine :: dstate where
  "swexn_machine = blank_console\<lparr>curr_thread := 0x10, threads := (\<lambda>_. (blank_thread 1)\<lparr>k_stack_base := 0x8000\<rparr>),
     tasks := (\<lambda>_. blank_task\<lparr>swexn_eip := 0x01000100, swexn_esp := 0x3100, swexn_args := 7\<rparr>)\<rparr>"

lemma swexn_machine_fields [simp]:
  "k_stack_base (threads swexn_machine t) = 0x8000" "swexn_eip (tasks swexn_machine t) = 0x01000100"
  "swexn_esp (tasks swexn_machine t) = 0x3100" "swexn_args (tasks swexn_machine t) = 7"
  by (simp_all add: swexn_machine_def)

lemma kernel_buffer:
  assumes "unat buf + n \<le> 2 ^ 24" "\<And>i. i < n \<Longrightarrow> buf + of_nat i \<notin> K"
  shows "writable_buffer s K buf n (\<lambda>i. buf + of_nat i)"
proof -
  have u: "unat (buf + of_nat i) = unat buf + i" if "i < n" for i
    using that assms(1) by (simp add: unat_add_less unat_of_nat)
  have "buf + of_nat i < USER_MEM_START" if "i < n" for i
    using u [OF that] that assms(1) by (simp add: word_less_nat_alt USER_MEM_START_def)
  moreover have "inj_on (\<lambda>i. buf + of_nat i) {..<n}"
    using u by (intro inj_onI) (metis add_left_cancel lessThan_iff)
  ultimately show ?thesis using assms(2) by (simp add: writable_buffer_def vaddr_def)
qed

lemma swexn_machine_stack: "writable_buffer swexn_machine (frame_bytes 0x8000) 0x30A4 92 (\<lambda>i. 0x30A4 + of_nat i)"
proof (rule kernel_buffer)
  fix i :: nat
  assume "i < 92"
  then have "unat (of_nat i :: u32) < 92" by (simp add: unat_of_nat)
  then have "\<not> (of_nat i :: u32) - 20308 < 4" "\<not> (of_nat i :: u32) - 20296 < 4"
    by (simp_all add: word_less_nat_alt unat_sub_if')
  then show "0x30A4 + of_nat i \<notin> frame_bytes 0x8000" by (simp add: frame_bytes_def below_def)
qed simp


end
