(* ===== verification/Syscalls.thy ===== *)
theory Syscalls
  imports Faults
begin

text \<open>
  The C handlers of the system calls, \<^verbatim>\<open>kern/syscalls/\<close>.  The single argument of a handler is the word
  the user passed in \<^verbatim>\<open>%esi\<close>; an argument packet is read through the user's address space, and faults if it
  is not mapped.
\<close>

text \<open>\<open>packet a i\<close> is the word \<^verbatim>\<open>*((int *)arg_packet + i)\<close>.\<close>

definition packet :: "u32 \<Rightarrow> u32 \<Rightarrow> (u32, 'a dstate_scheme) kop" where
  "packet a i = vload32 (a + 4 * i)"

section \<open>Life cycle\<close>

definition fork_handler_c :: "image \<Rightarrow> (int, 'a dstate_scheme) kop" where
  "fork_handler_c im = do_fork im"

definition thread_fork_handler_c :: "image \<Rightarrow> (int, 'a dstate_scheme) kop" where
  "thread_fork_handler_c im = do_thread_fork im"

text \<open>\<open>name_buf\<close> is the address of the local buffer of \<^verbatim>\<open>do_exec\<close>.\<close>

definition exec_handler_c :: "image \<Rightarrow> u32 \<Rightarrow> u32 \<Rightarrow> (int, 'a dstate_scheme) kop" where
  "exec_handler_c im name_buf arg_packet = do_exec im name_buf arg_packet"

definition set_status_handler_c :: "u32 \<Rightarrow> (unit, 'a dstate_scheme) kop" where
  "set_status_handler_c st = kbind (kgets get_curr_task) (\<lambda>curr_task.
     kmodify (upd_task curr_task (\<lambda>x. x\<lparr>exit_status := sint st\<rparr>)))"

definition wait_handler_c :: "u32 \<Rightarrow> (int, 'a dstate_scheme) kop" where
  "wait_handler_c arg_packet = do_wait arg_packet"

definition vanish_handler_c :: "('r, 'a dstate_scheme) kop" where
  "vanish_handler_c = do_vanish"

section \<open>Threads\<close>

definition gettid_handler_c :: "(int, 'a dstate_scheme) kop" where
  "gettid_handler_c = kbind (kgets get_curr_thread) (\<lambda>t. kgets (\<lambda>s. thr_id (threads s t)))"

definition yield_handler_c :: "u32 \<Rightarrow> (int, 'a dstate_scheme) kop" where
  "yield_handler_c tid =
     (let switch = kthen (kswitch context_switch) (kret 0)
      in if sint tid \<noteq> - 1 then
           kbind (get_thread_from_id (sint tid)) (\<lambda>t.
             if t = 0 then kret ERR_INVAL
             else kbind (kgets (\<lambda>s. status (threads s t))) (\<lambda>st.
               if st = WAITING \<or> st = DESCHEDULED then kret ERR_FAILURE else switch))
         else switch)"

definition sleep_handler_c :: "u32 \<Rightarrow> (int, 'a dstate_scheme) kop" where
  "sleep_handler_c ticks = do_sleep (sint ticks)"

definition deschedule_handler_c :: "u32 \<Rightarrow> (int, 'a dstate_scheme) kop" where
  "deschedule_handler_c reject = kbind (is_pointer_valid reject 4) (\<lambda>r.
     if r < 0 then kret ERR_INVAL
     else kbind (kgets get_curr_thread) (\<lambda>t.
       kthen (mutex_lock (Some (Deschedule_mutex, t)))
        (kbind (vload32 reject) (\<lambda>v.
          if v \<noteq> 0 then kthen (mutex_unlock (Some (Deschedule_mutex, t))) (kret 0)
          else kthen (kseq
            [cond_wait (Some (Deschedule_cond, t)) (Some (Deschedule_mutex, t)) (Cond_wait_link, t) DESCHEDULED,
             mutex_unlock (Some (Deschedule_mutex, t))]) (kret 0)))))"

definition make_runnable_handler_c :: "u32 \<Rightarrow> (int, 'a dstate_scheme) kop" where
  "make_runnable_handler_c tid =
     (if sint tid < 0 then kret ERR_INVAL
      else kbind (get_thread_from_id (sint tid)) (\<lambda>t.
        if t = 0 then kret ERR_INVAL
        else kthen (mutex_lock (Some (Deschedule_mutex, t)))
         (kbind (kgets (\<lambda>s. status (threads s t))) (\<lambda>st.
           if st \<noteq> DESCHEDULED then kthen (mutex_unlock (Some (Deschedule_mutex, t))) (kret ERR_INVAL)
           else kthen (kseq [cond_signal (Some (Deschedule_cond, t)), mutex_unlock (Some (Deschedule_mutex, t))]) (kret 0)))))"

definition get_ticks_handler_c :: "(u32, 'a dstate_scheme) kop" where
  "get_ticks_handler_c = kgets total_ticks"

text \<open>The words of the register block at a user address.\<close>

definition load_ureg :: "u32 \<Rightarrow> (ureg, 'a dstate_scheme) kop" where
  "load_ureg a = kbind (packet a 17) (\<lambda>eflags.
     if validate_uregs (words_ureg (replicate 17 0 @ [eflags, 0, 0])) < 0 then kret (words_ureg (replicate 17 0 @ [eflags, 0, 0]))
     else kbind (packet a 2) (\<lambda>ds. kbind (packet a 18) (\<lambda>sp. kbind (packet a 16) (\<lambda>cs. kbind (packet a 15) (\<lambda>eip.
       kbind (packet a 12) (\<lambda>ecx. kbind (packet a 13) (\<lambda>eax. kbind (packet a 11) (\<lambda>edx. kbind (packet a 10) (\<lambda>ebx.
       kbind (packet a 8) (\<lambda>bp. kbind (packet a 6) (\<lambda>edi. kbind (packet a 7) (\<lambda>esi.
         kret (words_ureg [0, 0, ds, 0, 0, 0, edi, esi, bp, 0, ebx, edx, ecx, eax, 0, eip, cs, eflags, sp, 0])))))))))))))"

definition swexn_handler_c :: "u32 \<Rightarrow> (int, 'a dstate_scheme) kop" where
  "swexn_handler_c arg_packet =
     kbind (packet arg_packet 0) (\<lambda>esp3. kbind
       (if esp3 = 0 then kret 0
        else kbind (is_pointer_valid esp3 4) (\<lambda>r. if r < 0 then kret ERR_INVAL else is_memory_writable esp3 4)) (\<lambda>r0.
     if r0 < 0 then kret ERR_INVAL
     else kbind (packet arg_packet 1) (\<lambda>eip. kbind (if eip = 0 then kret 0 else is_pointer_valid eip 4) (\<lambda>r1.
     if r1 < 0 then kret ERR_INVAL
     else kbind (packet arg_packet 2) (\<lambda>arg. kbind (packet arg_packet 3) (\<lambda>newureg.
       kbind (if newureg = 0 then kret 0 else is_pointer_valid newureg 4) (\<lambda>r2.
     if r2 < 0 then kret ERR_INVAL
     else kbind (kgets get_curr_task) (\<lambda>task. kbind (kgets get_curr_thread) (\<lambda>t.
     if esp3 = 0 \<or> eip = 0 then kthen (kmodify (upd_task task (\<lambda>x. x\<lparr>swexn_eip := 0\<rparr>))) (kret 0)
     else kthen (kmodify (upd_task task (\<lambda>x. x\<lparr>swexn_eip := eip, swexn_args := arg, swexn_esp := esp3\<rparr>)))
       (if newureg \<noteq> 0 then
          kbind (kgets (\<lambda>s. k_stack_base (threads s t))) (\<lambda>base. kbind (load_ureg newureg) (\<lambda>u.
            kbind (setup_kernel_stack u base) (\<lambda>retval.
              if retval < 0 then kret ERR_FAILURE
              else kbind (packet newureg 13) (\<lambda>eax. kret (sint eax)))))
        else kret 0))))))))))"

section \<open>Memory\<close>

definition new_pages_handler_c :: "u32 \<Rightarrow> (int, 'a dstate_scheme) kop" where
  "new_pages_handler_c arg_packet = kbind (packet arg_packet 0) (\<lambda>base. kbind (packet arg_packet 1) (\<lambda>len.
     if sint len \<le> 0 \<or> len AND 0xFFF \<noteq> 0 \<or> base AND 0xFFF \<noteq> 0 then kret ERR_INVAL
     else kbind (is_memory_range_mapped base (sint len)) (\<lambda>r.
       if r \<noteq> MEMORY_REGION_UNMAPPED then kret ERR_INVAL else map_new_pages base len)))"

definition remove_pages_handler_c :: "u32 \<Rightarrow> (int, 'a dstate_scheme) kop" where
  "remove_pages_handler_c base = (if base AND 0xFFF \<noteq> 0 then kret ERR_INVAL else unmap_new_pages base)"

section \<open>Files\<close>

abbreviation (input) MAX_FILE_NAME :: nat where "MAX_FILE_NAME \<equiv> 128"

text \<open>The loop over the file name; \<open>name\<close> are the characters read so far.\<close>

fun read_name :: "nat \<Rightarrow> u32 \<Rightarrow> u8 list \<Rightarrow> (u8 list option, 'a dstate_scheme) kop" where
  "read_name 0 filename name = kret (Some name)"
| "read_name (Suc n) filename name =
     kbind (is_pointer_valid (filename + of_nat (length name)) 1) (\<lambda>r.
       if r < 0 then kret None
       else kbind (vload8 (filename + of_nat (length name))) (\<lambda>c.
         if c = 0 then kret (Some name) else read_name n filename (name @ [c])))"

definition readfile_handler_c :: "image \<Rightarrow> u32 \<Rightarrow> (int, 'a dstate_scheme) kop" where
  "readfile_handler_c im arg_packet = kbind (packet arg_packet 0) (\<lambda>filename.
     kbind (read_name MAX_FILE_NAME filename []) (\<lambda>name. case name of
       None \<Rightarrow> kret ERR_INVAL
     | Some name \<Rightarrow>
         if length name = 0 \<or> length name = MAX_FILE_NAME then kret ERR_FAILURE
         else kbind (packet arg_packet 1) (\<lambda>buf. kbind (packet arg_packet 2) (\<lambda>sz. kbind (packet arg_packet 3) (\<lambda>offset.
           case getbytes im (Some name) (sint offset) (sint sz) buf of (bytes_read, bs) \<Rightarrow>
             kthen (vstore_bytes buf bs) (kret bytes_read))))))"

section \<open>The console\<close>

definition print_handler_c :: "u32 \<Rightarrow> (int, 'a dstate_scheme) kop" where
  "print_handler_c arg_packet = kbind (packet arg_packet 0) (\<lambda>len. kbind (packet arg_packet 1) (\<lambda>buf.
     kbind (is_pointer_valid buf (sint len)) (\<lambda>r.
       if r < 0 then kret ERR_INVAL
       else kthen (kfor [0..<nat (sint len)] (\<lambda>i. kbind (vload8 (buf + of_nat i)) (\<lambda>c. kmodify (putbyte c)))) (kret 0))))"

text \<open>Waiting for a line: \<open>again\<close> is repeated while it finds nothing.\<close>

definition await_line :: "addr \<Rightarrow> (int, 'a dstate_scheme) kop \<Rightarrow> int \<Rightarrow> (int, 'a dstate_scheme) kop" where
  "await_line t again = kwhile (\<lambda>r s. r = ERR_NOTAVAIL) (\<lambda>r.
     kthen (cond_wait readline_cond_var readline_mutex (Cond_wait_link, t) WAITING) again)"

definition readline_handler_c :: "u32 \<Rightarrow> (int, 'a dstate_scheme) kop" where
  "readline_handler_c arg_packet = kbind (packet arg_packet 0) (\<lambda>len.
     if sint len \<le> 0 then kret ERR_INVAL
     else kbind (packet arg_packet 1) (\<lambda>buf. kbind
       (kbind (is_pointer_valid buf (sint len)) (\<lambda>r. if r < 0 then kret ERR_INVAL else is_memory_writable buf (sint len))) (\<lambda>r.
       if r < 0 then kret ERR_INVAL
       else kbind (kgets get_curr_thread) (\<lambda>t.
         kthen (mutex_lock readline_mutex) (kbind (nextline buf (sint len)) (\<lambda>retval.
           if retval = ERR_INVAL then kthen (mutex_unlock readline_mutex) (kret ERR_INVAL)
           else kbind (await_line t (nextline buf (sint len)) retval) (\<lambda>retval.
             kthen (mutex_unlock readline_mutex) (kret retval))))))))"

definition getchar_handler_c :: "(int, 'a dstate_scheme) kop" where
  "getchar_handler_c = kbind (kgets get_curr_thread) (\<lambda>t.
     kthen (mutex_lock readline_mutex) (kbind readchar (\<lambda>c. kbind (await_line t readchar c) (\<lambda>c.
       kthen (mutex_unlock readline_mutex) (kret c)))))"

definition set_term_color_handler_c :: "u32 \<Rightarrow> (int, 'a dstate_scheme) kop" where
  "set_term_color_handler_c color = (\<lambda>s. case set_term_color color s of (r, s') \<Rightarrow> Ok r s')"

definition set_cursor_pos_handler_c :: "u32 \<Rightarrow> (int, 'a dstate_scheme) kop" where
  "set_cursor_pos_handler_c arg_packet = kbind (packet arg_packet 0) (\<lambda>row. kbind (packet arg_packet 1) (\<lambda>col.
     (\<lambda>s. case set_cursor (sint row) (sint col) s of (r, s') \<Rightarrow> Ok r s')))"

definition get_cursor_pos_handler_c :: "u32 \<Rightarrow> (int, 'a dstate_scheme) kop" where
  "get_cursor_pos_handler_c arg_packet =
     (let check = (\<lambda>p. kbind (is_pointer_valid p 4) (\<lambda>r. if r < 0 then kret ERR_INVAL else is_memory_writable p 4))
      in kbind (packet arg_packet 0) (\<lambda>row. kbind (check row) (\<lambda>r.
        if r < 0 then kret ERR_INVAL
        else kbind (packet arg_packet 1) (\<lambda>col. kbind (check col) (\<lambda>r.
          if r < 0 then kret ERR_INVAL
          else kthen (kseq
            [kbind (kgets (\<lambda>s. fst (get_cursor s))) (\<lambda>v. vstore32 row (word_of_int v)),
             kbind (kgets (\<lambda>s. snd (get_cursor s))) (\<lambda>v. vstore32 col (word_of_int v))]) (kret 0))))))"

section \<open>Memory check\<close>

text \<open>The dump of the kernel heap that follows only prints.\<close>

definition memory_check_handler_c :: "(unit, 'a dstate_scheme) kop" where
  "memory_check_handler_c = kbind check_physical_memory (\<lambda>_. kret ())"

section \<open>The keyboard wakes a reader\<close>

lemma enter_release:
  assumes "\<not> scanning KH_EXTENDED_SCAN k"
  shows "\<exists>r k'. process_scancode 0x9C k = (r, k') \<and> KH_HASDATA r \<and> \<not> KH_ISMAKE r \<and> KH_GETCHAR r = 0x0A"
proof -
  have "simple_keys 0x1C = Some (Plain 0x0A)"
    using simple_keys_member [of "(0x1C, Plain 0x0A)"] by (simp add: upper_keys_def)
  then have "\<exists>k'. process_scancode 0x9C k = (kh_result (0x0A, 0x0A, False) OR (0 OR state_bits k'), k')"
    using assms by (simp add: process_scancode_def deflt_def process_simple_scan_def finish_scan_def Let_def)
  then obtain k' where "process_scancode 0x9C k = (kh_result (0x0A, 0x0A, False) OR (0 OR state_bits k'), k')" by blast
  moreover have "KH_HASDATA (kh_result (0x0A, 0x0A, False) OR (0 OR state_bits k')) \<and>
      (KH_ISMAKE (kh_result (0x0A, 0x0A, False) OR (0 OR state_bits k')) \<longleftrightarrow> False) \<and>
      KH_GETCHAR (kh_result (0x0A, 0x0A, False) OR (0 OR state_bits k')) = ucast (0x0A :: u8)"
    by (rule scan_data [where p = False and k = k']) simp_all
  ultimately show ?thesis by auto
qed

text \<open>What \<^verbatim>\<open>cond_signal\<close> leaves alone: everything the devices keep.\<close>

lemma cond_signal_devices:
  fixes s :: "'a dstate_scheme"
  assumes "cond_inv c s rq (t # ws)" "cond_status s c = COND_VAR_VALID" "mutex_value s (queue_mutex c) = 1" "cond_signal (Some c) s = Ok () s'"
  shows "key_buf s' = key_buf s \<and> start_ptr s' = start_ptr s \<and> end_ptr s' = end_ptr s \<and> newline_ptr s' = newline_ptr s \<and> mem s' = mem s"
proof -
  have g: "get_first (waiting_of_cond c) (links s) = Some (Cond_wait_link, t)"
    using assms(1) by (auto simp: cond_inv_def dest!: ring_of_first)
  define s1 where "s1 = (if int_flag s then enable_interrupts_mutex else id) (set_mutex (queue_mutex c) 0 (disable_interrupts_mutex s))"
  have l: "links s1 = links s" by (simp add: s1_def)
  have "cond_inv c s1 rq (t # ws)" using cond_inv_cong [OF assms(1) l] .
  then have "cond_inv c (woken t s1) (rq @ [t]) ws" by (rule woken_inv(1))
  then have r: "ring_of (links (woken t s1)) (waiting_of_mutex (queue_mutex c)) []" by (simp add: cond_inv_def)
  have m: "mutex_value (woken t s1) (queue_mutex c) = 0" by (simp add: woken_def s1_def upd_links_def)
  have "s' = (if int_flag (woken t s1) then enable_interrupts_mutex else id)
      (set_mutex (queue_mutex c) 1 (disable_interrupts_mutex (woken t s1)))"
    using assms(2-4) g l int_save_eq(1) [OF assms(3), folded s1_def] int_save_eq(2) [OF m r]
    by (simp add: cond_signal_def with_cond_def kop_defs get_entry_def woken_def [symmetric])
  then show ?thesis
    by (simp add: s1_def set_mutex_def enable_interrupts_mutex_def disable_interrupts_mutex_def enable_interrupts_def
        disable_interrupts_def woken_def wake_cond_def upd_links_def runq_add_thread_def runq_add_thread_interruptible_def set_status_def)
qed

lemma putbyte_links [simp]:
  "links (putbyte c s) = links s" "cond_status (putbyte c s) = cond_status s"
  "mutex_value (putbyte c s) = mutex_value s" "threads (putbyte c s) = threads s"
  by (simp_all add: putbyte_def print_char_def set_logical_cursor_def scroll_screen_def empty_fill_def upd_mem_def Let_def)

lemma add_keystroke_links [simp]:
  "links (add_keystroke c s) = links s" "cond_status (add_keystroke c s) = cond_status s"
  "mutex_value (add_keystroke c s) = mutex_value s" "threads (add_keystroke c s) = threads s"
  by (simp_all add: add_keystroke_def Let_def)

lemma acknowledge_fields [simp]:
  "key_buf (acknowledge_interrupt s) = key_buf s" "start_ptr (acknowledge_interrupt s) = start_ptr s"
  "end_ptr (acknowledge_interrupt s) = end_ptr s" "newline_ptr (acknowledge_interrupt s) = newline_ptr s"
  "links (acknowledge_interrupt s) = links s" "threads (acknowledge_interrupt s) = threads s"
  by (simp_all add: acknowledge_interrupt_def outb_def)

lemma keyboard_cong:
  assumes "key_buf t = key_buf s" "start_ptr t = start_ptr s" "end_ptr t = end_ptr s" "newline_ptr t = newline_ptr s"
  shows "keys t = keys s" "buffer_ok t \<longleftrightarrow> buffer_ok s" "newline_ok t \<longleftrightarrow> newline_ok s"
proof -
  show k: "keys t = keys s" using assms by (simp add: keys_def fill_def)
  show "buffer_ok t \<longleftrightarrow> buffer_ok s" using assms by (simp add: buffer_ok_def)
  show "newline_ok t \<longleftrightarrow> newline_ok s" using assms k by (simp add: newline_ok_def)
qed

text \<open>
  C33: Enter wakes a reader.  When threads wait for a line and the enter key is released, the interrupt
  handler appends the newline to the keyboard queue, which now has a line, and makes the thread that
  waited longest runnable.
\<close>

theorem enter_wakes_reader:
  fixes s :: "'a dstate_scheme"
  assumes "buffer_ok s" "newline_ok s" "int (length (keys s)) + 1 < KEYBOARD_BUFFER_SIZE"
    and "\<not> scanning KH_EXTENDED_SCAN (keyhelp_state s)"
    and "cond_inv (Readline_cond, 0) s rq (r # ws)" "cond_status s (Readline_cond, 0) = COND_VAR_VALID"
    and "mutex_value s (queue_mutex (Readline_cond, 0)) = 1"
  shows "\<exists>s'. enqueue_scancode 0x9C s = Ok () s' \<and> buffer_ok s' \<and> newline_ok s' \<and> keys s' = keys s @ [0x0A] \<and>
    cond_inv (Readline_cond, 0) s' (rq @ [r]) ws \<and>
    (\<forall>u. status (threads s' u) = (if u = r then RUNNABLE else status (threads s u)))"
proof -
  obtain k kh where k: "process_scancode 0x9C (keyhelp_state s) = (k, kh)" "KH_HASDATA k" "\<not> KH_ISMAKE k" "KH_GETCHAR k = 0x0A"
    using enter_release [OF assms(4)] by blast
  let ?s0 = "s\<lparr>keyhelp_state := kh\<rparr>" let ?s1 = "add_keystroke 0x0A ?s0"
  have s0: "buffer_ok ?s0" "newline_ok ?s0" "keys ?s0 = keys s"
    using assms(1,2) keyboard_cong [of ?s0 s] by simp_all
  have q: "buffer_ok ?s1" "newline_ok ?s1" "keys ?s1 = keys s @ [0x0A]"
    using add_keystroke_queue [OF s0(1), of "0x0A"] add_keystroke_newline [OF s0(1,2), of "0x0A"] s0(3) assms(3)
    by (simp_all add: after_key_def)
  have i: "cond_inv (Readline_cond, 0) ?s1 rq (r # ws)" using cond_inv_cong [OF assms(5), of ?s1] by simp
  have c: "cond_status ?s1 (Readline_cond, 0) = COND_VAR_VALID" "mutex_value ?s1 (queue_mutex (Readline_cond, 0)) = 1"
    using assms(6,7) by simp_all
  obtain s2 where s2: "cond_signal readline_cond_var ?s1 = Ok () s2" "cond_inv (Readline_cond, 0) s2 (rq @ [r]) ws"
    "\<forall>u. status (threads s2 u) = (if u = r then RUNNABLE else status (threads ?s1 u))"
    using cond_signal_effect [OF i c] by blast
  have d: "key_buf s2 = key_buf ?s1" "start_ptr s2 = start_ptr ?s1" "end_ptr s2 = end_ptr ?s1" "newline_ptr s2 = newline_ptr ?s1"
    using cond_signal_devices [OF i c s2(1)] by auto
  let ?t = "acknowledge_interrupt s2"
  have "enqueue_scancode 0x9C s = Ok () ?t"
    using k s2(1) by (simp add: enqueue_scancode_def kop_defs Let_def)
  moreover have "buffer_ok ?t" "newline_ok ?t" "keys ?t = keys ?s1"
    using q(1,2) keyboard_cong [of ?t ?s1] d by simp_all
  moreover have "cond_inv (Readline_cond, 0) ?t (rq @ [r]) ws" using cond_inv_cong [OF s2(2), of ?t] by simp
  ultimately show ?thesis using q(3) s2(3) by (intro exI [of _ ?t]) simp
qed

definition waiting_console :: dstate where
  "waiting_console = upd_links (add_to_tail (Cond_wait_link, 0x40) (waiting_of_cond (Readline_cond, 0))) blank_console"

lemma blank_console_kernel [simp]:
  "links blank_console = links idle_machine" "mutex_value blank_console m = 1" "cond_status blank_console c = COND_VAR_VALID"
  "key_internal_state (keyhelp_state blank_console) = 0" "threads blank_console = threads idle_machine"
  unfolding blank_console_def mstate.extend_def dstate.fields_def idle_machine_def
  by (simp_all add: sample_machine_def kstate.defs mstate.defs upd_links_def )

lemma waiting_console_inv: "cond_inv (Readline_cond, 0) waiting_console [] [0x40]"
proof -
  let ?q = "waiting_of_cond (Readline_cond, 0)"
  have q: "ring_of (links idle_machine) ?q []" by (rule idle_machine_ring) (simp add: waiting_of_cond_def)
  note q1 = ring_of_add [OF q, of "0x40"] and k1 = keeps_rings_add [OF q, of "0x40"]
  have r: "ring_of (links idle_machine) (waiting_of_mutex (queue_mutex (Readline_cond, 0))) []"
    "ring_of (links idle_machine) runnable_threads []"
    by (rule idle_machine_ring, simp)+
  show ?thesis
    using q1 keeps_ringsD [OF k1 r(1)] keeps_ringsD [OF k1 r(2)]
    by (simp add: cond_inv_def runq_def waiting_console_def upd_links_def waiting_of_cond_def)
qed

theorem enter_wakes_reader_witness:
  "\<exists>s'. enqueue_scancode 0x9C waiting_console = Ok () s' \<and> keys s' = [0x0A] \<and> status (threads s' 0x40) = RUNNABLE"
proof -
  have f: "key_buf waiting_console = (\<lambda>_. 0)" "start_ptr waiting_console = 0" "end_ptr waiting_console = 0"
    "newline_ptr waiting_console = - 1" "key_internal_state (keyhelp_state waiting_console) = 0"
    "cond_status waiting_console (Readline_cond, 0) = COND_VAR_VALID"
    "mutex_value waiting_console (queue_mutex (Readline_cond, 0)) = 1"
    by (simp_all add: waiting_console_def upd_links_def)
  have k: "keys waiting_console = []" by (simp add: keys_def fill_def f)
  have b: "buffer_ok waiting_console" "newline_ok waiting_console" "int (length (keys waiting_console)) + 1 < KEYBOARD_BUFFER_SIZE"
    "\<not> scanning KH_EXTENDED_SCAN (keyhelp_state waiting_console)"
    by (simp_all add: buffer_ok_def newline_ok_def scanning_def f k)
  show ?thesis using enter_wakes_reader [OF b waiting_console_inv f(6,7)] by (auto simp: k)
qed

end
