(* ===== verification/Asm.thy ===== *)
theory Asm
  imports Syscalls
begin

text \<open>
  The assembly entry points: \<^verbatim>\<open>interrupts/fault_handlers_asm.S\<close>, \<^verbatim>\<open>syscalls/*_asm.S\<close>, the two interrupt
  handlers of the drivers and \<^verbatim>\<open>iret_fun\<close> of \<^verbatim>\<open>asm/asm.S\<close>, as lists of instructions over a register file
  and the kernel stack in memory, with what the processor does at an interrupt and at \<^verbatim>\<open>iret\<close>.  The C
  function behind a \<^verbatim>\<open>call\<close> is the kernel operation that models it; it may block, and other threads run
  before it returns.
\<close>

section \<open>Registers and instructions\<close>

datatype reg = EAX | ECX | EDX | EBX | ESP | EBP | ESI | EDI | EIP | CS | EFLAGS | SS

type_synonym cpu = "reg \<Rightarrow> u32"

text \<open>
  A C function reads its arguments from the stack, \<open>args k\<close> being the word at \<open>%esp + 4 k\<close> before the call,
  and returns a word in \<^verbatim>\<open>%eax\<close> unless it is void.
\<close>

datatype 's instr =
    Pushl reg
  | Popl reg
  | Pusha
  | Popa
  | Movl u32 reg
  | Call "(u32 \<Rightarrow> u32) \<Rightarrow> (u32 option, 's) kop"
  | Sti
  | Cli
  | Hlt
  | Iret

definition c_int :: "(int, 's) kop \<Rightarrow> (u32 option, 's) kop" where
  "c_int m = kbind m (\<lambda>r. kret (Some (word_of_int r)))"

definition c_void :: "(unit, 's) kop \<Rightarrow> (u32 option, 's) kop" where
  "c_void m = kthen m (kret None)"

fun pushes :: "u32 list \<Rightarrow> cpu \<Rightarrow> (cpu, 'a mstate_scheme) kop" where
  "pushes [] c = kret c"
| "pushes (v # vs) c = kthen (poke (c ESP - 4) v) (pushes vs (c(ESP := c ESP - 4)))"

definition pop_reg :: "reg \<Rightarrow> cpu \<Rightarrow> (cpu, 'a mstate_scheme) kop" where
  "pop_reg r c = kbind (peek (c ESP)) (\<lambda>v. kret ((c(ESP := c ESP + 4))(r := v)))"

fun pops :: "reg list \<Rightarrow> cpu \<Rightarrow> (cpu, 'a mstate_scheme) kop" where
  "pops [] c = kret c"
| "pops (r # rs) c = kbind (pop_reg r c) (pops rs)"

text \<open>
  \<open>clobbered c\<close> are the values a C function leaves in the registers it need not preserve.  A return to
  user mode also loads the user's stack pointer and stack segment.
\<close>

definition c_call :: "cpu \<Rightarrow> ((u32 \<Rightarrow> u32) \<Rightarrow> (u32 option, 'a mstate_scheme) kop) \<Rightarrow> cpu \<Rightarrow> (cpu, 'a mstate_scheme) kop" where
  "c_call clobbered f c = kbind (kgets (\<lambda>s k. load32 (mem s) (c ESP + 4 * k))) (\<lambda>args. kbind (f args) (\<lambda>r.
     kret (c(EAX := (case r of None \<Rightarrow> clobbered EAX | Some v \<Rightarrow> v), ECX := clobbered ECX, EDX := clobbered EDX))))"

definition iret :: "cpu \<Rightarrow> (cpu, 'a mstate_scheme) kop" where
  "iret c = kbind (pops [EIP, CS, EFLAGS] c) (\<lambda>c.
     kthen (kmodify (\<lambda>s. s\<lparr>int_flag := bit (c EFLAGS) 9\<rparr>))
       (if c CS AND 3 = 0 then kret c
        else kbind (peek (c ESP)) (\<lambda>sp. kbind (peek (c ESP + 4)) (\<lambda>ss. kret (c(ESP := sp, SS := ss))))))"

fun exec_instr :: "cpu \<Rightarrow> 'a mstate_scheme instr \<Rightarrow> cpu \<Rightarrow> (cpu, 'a mstate_scheme) kop" where
  "exec_instr clobbered (Pushl r) c = pushes [c r] c"
| "exec_instr clobbered (Popl r) c = pop_reg r c"
| "exec_instr clobbered Pusha c = pushes (map c [EAX, ECX, EDX, EBX, ESP, EBP, ESI, EDI]) c"
| "exec_instr clobbered Popa c = kbind (pops [EDI, ESI, EBP] c) (\<lambda>c. pops [EBX, EDX, ECX, EAX] (c(ESP := c ESP + 4)))"
| "exec_instr clobbered (Movl v r) c = kret (c(r := v))"
| "exec_instr clobbered (Call f) c = c_call clobbered f c"
| "exec_instr clobbered Sti c = kthen (kmodify enable_interrupts) (kret c)"
| "exec_instr clobbered Cli c = kthen (kmodify disable_interrupts) (kret c)"
| "exec_instr clobbered Hlt c = (\<lambda>s. Diverges)"
| "exec_instr clobbered Iret c = iret c"

fun exec :: "cpu \<Rightarrow> 'a mstate_scheme instr list \<Rightarrow> cpu \<Rightarrow> (cpu, 'a mstate_scheme) kop" where
  "exec clobbered [] c = kret c"
| "exec clobbered (i # is) c = kbind (exec_instr clobbered i c) (exec clobbered is)"

text \<open>
  An interrupt or exception: from user mode the processor switches to the stack of the task state
  segment, it saves the state to return to and the error code if the exception has one, and an interrupt
  gate also disables interrupts.
\<close>

definition trap :: "bool \<Rightarrow> u32 option \<Rightarrow> cpu \<Rightarrow> (cpu, 'a mstate_scheme) kop" where
  "trap interrupt_gate err c = kbind (kgets esp0) (\<lambda>base.
     kbind (if c CS AND 3 = 0 then kret c else pushes [c SS, c ESP] (c(ESP := base))) (\<lambda>c1.
     kbind (pushes ([c EFLAGS, c CS, c EIP] @ (case err of None \<Rightarrow> [] | Some e \<Rightarrow> [e])) c1) (\<lambda>c2.
       kthen (kwhen interrupt_gate (kmodify (\<lambda>s. s\<lparr>int_flag := False\<rparr>))) (kret (c2(CS := SEGSEL_KERNEL_CS))))))"

section \<open>Fault handlers\<close>

definition page_fault_handler :: "'a dstate_scheme instr list" where
  "page_fault_handler = [Pusha, Call (\<lambda>args. c_void page_fault_handler_c), Popa, Popl ECX, Iret]"

definition divide_error_handler :: "'a dstate_scheme instr list" where
  "divide_error_handler = [Pusha, Call (\<lambda>args. c_void divide_error_handler_c), Popa, Popl ECX, Iret]"

definition debug_exception_handler :: "'a dstate_scheme instr list" where
  "debug_exception_handler = [Pusha, Call (\<lambda>args. c_void debug_exception_handler_c), Popa, Popl ECX, Iret]"

definition non_maskable_interrupt_handler :: "'a dstate_scheme instr list" where
  "non_maskable_interrupt_handler = [Pusha, Call (\<lambda>args. c_void non_maskable_interrupt_handler_c), Popa, Popl ECX, Iret]"

definition breakpoint_handler :: "'a dstate_scheme instr list" where
  "breakpoint_handler = [Pusha, Call (\<lambda>args. c_void breakpoint_handler_c), Popa, Popl ECX, Iret]"

definition overflow_handler :: "'a dstate_scheme instr list" where
  "overflow_handler = [Pusha, Call (\<lambda>args. c_void overflow_handler_c), Popa, Popl ECX, Iret]"

definition bound_range_handler :: "'a dstate_scheme instr list" where
  "bound_range_handler = [Pusha, Call (\<lambda>args. c_void bound_range_handler_c), Popa, Popl ECX, Iret]"

definition undefined_opcode_handler :: "'a dstate_scheme instr list" where
  "undefined_opcode_handler = [Pusha, Call (\<lambda>args. c_void undefined_opcode_handler_c), Popa, Popl ECX, Iret]"

definition no_math_coprocessor_handler :: "'a dstate_scheme instr list" where
  "no_math_coprocessor_handler = [Pusha, Call (\<lambda>args. c_void no_math_coprocessor_handler_c), Popa, Popl ECX, Iret]"

definition cso_handler :: "'a dstate_scheme instr list" where
  "cso_handler = [Pusha, Call (\<lambda>args. c_void cso_handler_c), Popa, Popl ECX, Iret]"

definition invalid_tss_handler :: "'a dstate_scheme instr list" where
  "invalid_tss_handler = [Pusha, Call (\<lambda>args. c_void invalid_tss_handler_c), Popa, Popl ECX, Iret]"

definition snp_handler :: "'a dstate_scheme instr list" where
  "snp_handler = [Pusha, Call (\<lambda>args. c_void snp_handler_c), Popa, Popl ECX, Iret]"

definition ssf_handler :: "'a dstate_scheme instr list" where
  "ssf_handler = [Pusha, Call (\<lambda>args. c_void ssf_handler_c), Popa, Popl ECX, Iret]"

definition gpf_handler :: "'a dstate_scheme instr list" where
  "gpf_handler = [Pusha, Call (\<lambda>args. c_void gpf_handler_c), Popa, Popl ECX, Iret]"

definition math_fault_handler :: "'a dstate_scheme instr list" where
  "math_fault_handler = [Pusha, Call (\<lambda>args. c_void math_fault_handler_c), Popa, Popl ECX, Iret]"

definition alignment_check_handler :: "'a dstate_scheme instr list" where
  "alignment_check_handler = [Pusha, Call (\<lambda>args. c_void alignment_check_handler_c), Popa, Popl ECX, Iret]"

definition machine_check_handler :: "'a dstate_scheme instr list" where
  "machine_check_handler = [Pusha, Call (\<lambda>args. c_void machine_check_handler_c), Popa, Popl ECX, Iret]"

definition floating_point_exp_handler :: "'a dstate_scheme instr list" where
  "floating_point_exp_handler = [Pusha, Call (\<lambda>args. c_void floating_point_exp_handler_c), Popa, Popl ECX, Iret]"

section \<open>Device interrupts\<close>

definition timer_handler :: "'a dstate_scheme instr list" where
  "timer_handler = [Pusha, Call (\<lambda>args. c_void callback_handler), Popa, Iret]"

text \<open>The scancode is what the driver reads from the keyboard port.\<close>

definition keyboard_handler :: "u8 \<Rightarrow> 'a dstate_scheme instr list" where
  "keyboard_handler scancode = [Pusha, Call (\<lambda>args. c_void (enqueue_scancode scancode)), Popa, Iret]"

section \<open>System calls\<close>

definition SAVE_REGS :: "'s instr list" where
  "SAVE_REGS = [Pushl ECX, Pushl EAX, Pushl EDX, Pushl EBX, Pushl ESP, Pushl EBP, Pushl EDI, Pushl ESI]"

definition RESTORE_REGS :: "'s instr list" where
  "RESTORE_REGS = [Popl ESI, Popl EDI, Popl EBP, Popl ESP, Popl EBX, Popl EDX, Popl ECX, Popl ECX]"

definition fork_handler :: "image \<Rightarrow> 'a dstate_scheme instr list" where
  "fork_handler im = SAVE_REGS @ [Call (\<lambda>args. c_int (fork_handler_c im))] @ RESTORE_REGS @ [Iret]"

definition thread_fork_handler :: "image \<Rightarrow> 'a dstate_scheme instr list" where
  "thread_fork_handler im = SAVE_REGS @ [Call (\<lambda>args. c_int (thread_fork_handler_c im))] @ RESTORE_REGS @ [Iret]"

definition exec_handler :: "image \<Rightarrow> u32 \<Rightarrow> 'a dstate_scheme instr list" where
  "exec_handler im name_buf = SAVE_REGS @ [Call (\<lambda>args. c_int (exec_handler_c im name_buf (args 0)))] @ RESTORE_REGS @ [Iret]"

definition set_status_handler :: "'a dstate_scheme instr list" where
  "set_status_handler = [Pusha, Pushl ESI, Call (\<lambda>args. c_void (set_status_handler_c (args 0))), Popl ESI, Popa, Iret]"

definition vanish_handler :: "'a dstate_scheme instr list" where
  "vanish_handler = [Pusha, Pushl ESI, Call (\<lambda>args. vanish_handler_c), Popl ESI, Popa, Iret]"

definition wait_handler :: "'a dstate_scheme instr list" where
  "wait_handler = SAVE_REGS @ [Call (\<lambda>args. c_int (wait_handler_c (args 0)))] @ RESTORE_REGS @ [Iret]"

definition gettid_handler :: "'a dstate_scheme instr list" where
  "gettid_handler = SAVE_REGS @ [Call (\<lambda>args. c_int gettid_handler_c)] @ RESTORE_REGS @ [Iret]"

definition yield_handler :: "'a dstate_scheme instr list" where
  "yield_handler = SAVE_REGS @ [Call (\<lambda>args. c_int (yield_handler_c (args 0)))] @ RESTORE_REGS @ [Iret]"

definition sleep_handler :: "'a dstate_scheme instr list" where
  "sleep_handler = SAVE_REGS @ [Call (\<lambda>args. c_int (sleep_handler_c (args 0)))] @ RESTORE_REGS @ [Iret]"

definition deschedule_handler :: "'a dstate_scheme instr list" where
  "deschedule_handler = SAVE_REGS @ [Call (\<lambda>args. c_int (deschedule_handler_c (args 0)))] @ RESTORE_REGS @ [Iret]"

definition make_runnable_handler :: "'a dstate_scheme instr list" where
  "make_runnable_handler = SAVE_REGS @ [Call (\<lambda>args. c_int (make_runnable_handler_c (args 0)))] @ RESTORE_REGS @ [Iret]"

definition get_ticks_handler :: "'a dstate_scheme instr list" where
  "get_ticks_handler = SAVE_REGS @ [Call (\<lambda>args. kbind get_ticks_handler_c (\<lambda>n. kret (Some n)))] @ RESTORE_REGS @ [Iret]"

definition swexn_handler :: "'a dstate_scheme instr list" where
  "swexn_handler = SAVE_REGS @ [Call (\<lambda>args. c_int (swexn_handler_c (args 0)))] @ RESTORE_REGS @ [Iret]"

definition new_pages_handler :: "'a dstate_scheme instr list" where
  "new_pages_handler = SAVE_REGS @ [Call (\<lambda>args. c_int (new_pages_handler_c (args 0)))] @ RESTORE_REGS @ [Iret]"

definition remove_pages_handler :: "'a dstate_scheme instr list" where
  "remove_pages_handler = SAVE_REGS @ [Call (\<lambda>args. c_int (remove_pages_handler_c (args 0)))] @ RESTORE_REGS @ [Iret]"

definition readfile_handler :: "image \<Rightarrow> 'a dstate_scheme instr list" where
  "readfile_handler im = SAVE_REGS @ [Call (\<lambda>args. c_int (readfile_handler_c im (args 0)))] @ RESTORE_REGS @ [Iret]"

definition print_handler :: "'a dstate_scheme instr list" where
  "print_handler = SAVE_REGS @ [Call (\<lambda>args. c_int (print_handler_c (args 0)))] @ RESTORE_REGS @ [Iret]"

definition readline_handler :: "'a dstate_scheme instr list" where
  "readline_handler = SAVE_REGS @ [Call (\<lambda>args. c_int (readline_handler_c (args 0)))] @ RESTORE_REGS @ [Iret]"

definition set_term_color_handler :: "'a dstate_scheme instr list" where
  "set_term_color_handler = SAVE_REGS @ [Call (\<lambda>args. c_int (set_term_color_handler_c (args 0)))] @ RESTORE_REGS @ [Iret]"

definition set_cursor_pos_handler :: "'a dstate_scheme instr list" where
  "set_cursor_pos_handler = SAVE_REGS @ [Call (\<lambda>args. c_int (set_cursor_pos_handler_c (args 0)))] @ RESTORE_REGS @ [Iret]"

definition get_cursor_pos_handler :: "'a dstate_scheme instr list" where
  "get_cursor_pos_handler = SAVE_REGS @ [Call (\<lambda>args. c_int (get_cursor_pos_handler_c (args 0)))] @ RESTORE_REGS @ [Iret]"

definition getchar_handler :: "'a dstate_scheme instr list" where
  "getchar_handler = SAVE_REGS @ [Call (\<lambda>args. c_int getchar_handler_c)] @ RESTORE_REGS @ [Iret]"

definition memory_check_handler :: "'a dstate_scheme instr list" where
  "memory_check_handler = [Pusha, Call (\<lambda>args. c_void memory_check_handler_c), Popa, Iret]"

text \<open>\<^verbatim>\<open>sim_halt\<close> stops the simulator; on hardware it does nothing.\<close>

definition halt_handler :: "'a mstate_scheme instr list" where
  "halt_handler = [Call (\<lambda>args. kret None), Cli, Hlt]"

section \<open>The first return of a new thread\<close>

definition iret_fun_code :: "'a mstate_scheme instr list" where
  "iret_fun_code = [Sti, Popa, Movl 0 EAX, Iret]"

section \<open>Gates\<close>

text \<open>
  \<open>handler_code\<close> is the code at each entry point.  \<open>int_n\<close> is the instruction \<^verbatim>\<open>int\<close>: it goes through the
  gate in the interrupt descriptor table to the \<open>code\<close> at its offset, or raises a general protection fault
  when user code may not use the gate.
\<close>

fun handler_code :: "image \<Rightarrow> u32 \<Rightarrow> u8 \<Rightarrow> handler \<Rightarrow> 'a dstate_scheme instr list" where
  "handler_code im name_buf scancode h = (case h of
     Timer_handler \<Rightarrow> timer_handler
   | Keyboard_handler \<Rightarrow> keyboard_handler scancode
   | Divide_error_handler \<Rightarrow> divide_error_handler
   | Debug_exception_handler \<Rightarrow> debug_exception_handler
   | Non_maskable_interrupt_handler \<Rightarrow> non_maskable_interrupt_handler
   | Breakpoint_handler \<Rightarrow> breakpoint_handler
   | Overflow_handler \<Rightarrow> overflow_handler
   | Bound_range_handler \<Rightarrow> bound_range_handler
   | Undefined_opcode_handler \<Rightarrow> undefined_opcode_handler
   | No_math_coprocessor_handler \<Rightarrow> no_math_coprocessor_handler
   | Cso_handler \<Rightarrow> cso_handler
   | Invalid_tss_handler \<Rightarrow> invalid_tss_handler
   | Snp_handler \<Rightarrow> snp_handler
   | Ssf_handler \<Rightarrow> ssf_handler
   | Gpf_handler \<Rightarrow> gpf_handler
   | Page_fault_handler \<Rightarrow> page_fault_handler
   | Math_fault_handler \<Rightarrow> math_fault_handler
   | Alignment_check_handler \<Rightarrow> alignment_check_handler
   | Machine_check_handler \<Rightarrow> machine_check_handler
   | Floating_point_exp_handler \<Rightarrow> floating_point_exp_handler
   | Print_handler \<Rightarrow> print_handler
   | Fork_handler \<Rightarrow> fork_handler im
   | Thread_fork_handler \<Rightarrow> thread_fork_handler im
   | Exec_handler \<Rightarrow> exec_handler im name_buf
   | Set_status_handler \<Rightarrow> set_status_handler
   | Halt_handler \<Rightarrow> halt_handler
   | Wait_handler \<Rightarrow> wait_handler
   | Vanish_handler \<Rightarrow> vanish_handler
   | New_pages_handler \<Rightarrow> new_pages_handler
   | Remove_pages_handler \<Rightarrow> remove_pages_handler
   | Readline_handler \<Rightarrow> readline_handler
   | Yield_handler \<Rightarrow> yield_handler
   | Memory_check_handler \<Rightarrow> memory_check_handler
   | Gettid_handler \<Rightarrow> gettid_handler
   | Deschedule_handler \<Rightarrow> deschedule_handler
   | Make_runnable_handler \<Rightarrow> make_runnable_handler
   | Get_ticks_handler \<Rightarrow> get_ticks_handler
   | Sleep_handler \<Rightarrow> sleep_handler
   | Swexn_handler \<Rightarrow> swexn_handler
   | Readfile_handler \<Rightarrow> readfile_handler im
   | Set_term_color_handler \<Rightarrow> set_term_color_handler
   | Set_cursor_pos_handler \<Rightarrow> set_cursor_pos_handler
   | Get_cursor_pos_handler \<Rightarrow> get_cursor_pos_handler
   | Getchar_handler \<Rightarrow> getchar_handler)"

definition int_n :: "(u32 \<Rightarrow> 'a dstate_scheme instr list) \<Rightarrow> cpu \<Rightarrow> u32 \<Rightarrow> cpu \<Rightarrow> (cpu, 'a dstate_scheme) kop" where
  "int_n code clobbered v c = (\<lambda>s.
     let (offset, _, type, dpl, present) = gate_at s v; (gp_offset, _, gp_type, _, _) = gate_at s IDT_GP
     in if present \<and> c CS AND 3 \<le> dpl
        then kbind (trap (type = INTERRUPT_GATE_FLAGS) None c) (exec clobbered (code offset)) s
        else kbind (trap (gp_type = INTERRUPT_GATE_FLAGS) (Some (8 * v + 2)) c) (exec clobbered (code gp_offset)) s)"

section \<open>Words on the stack\<close>

fun push_words :: "u32 \<Rightarrow> u32 list \<Rightarrow> memory \<Rightarrow> memory" where
  "push_words sp [] m = m"
| "push_words sp (v # vs) m = push_words (sp - 4) vs (store32 (sp - 4) v m)"

lemma push_words_append:
  "push_words sp (vs @ ws) m = push_words (sp - 4 * of_nat (length vs)) ws (push_words sp vs m)"
  by (induction vs arbitrary: sp m) (simp_all add: algebra_simps)

lemma pushes_eq:
  "pushes vs c s = Ok (c(ESP := c ESP - 4 * of_nat (length vs))) (upd_mem (push_words (c ESP) vs) s)"
  by (induction vs arbitrary: c s) (simp_all add: kop_defs poke_def upd_mem_def algebra_simps)

lemma load32_store32_above:
  assumes "b = a + 4 * of_nat k" "0 < k" "k < 2 ^ 29"
  shows "load32 (store32 a v m) b = load32 m b"
proof -
  have far: "\<not> b + of_nat j - a < 4" if "j < 4" for j :: nat
  proof -
    have "b + of_nat j - a = of_nat (4 * k + j)" using assms(1) by simp
    moreover have "unat (of_nat (4 * k + j) :: u32) = 4 * k + j" using assms(3) that by (intro unat_of_small) simp
    ultimately have "unat (b + of_nat j - a) = 4 * k + j" by (simp only:)
    then show ?thesis using assms(2) by (simp add: word_less_nat_alt)
  qed
  show ?thesis using far [of 0] far [of 1] far [of 2] far [of 3] by (intro load32_store32_far) simp_all
qed

lemma push_words_nth:
  assumes "i < length vs" "length vs < 2 ^ 29"
  shows "load32 (push_words sp vs m) (sp - 4 * of_nat (i + 1)) = vs ! i"
  using assms
proof (induction vs rule: rev_induct)
  case (snoc v vs)
  let ?a = "sp - 4 * of_nat (length vs + 1)"
  have e: "push_words sp (vs @ [v]) m = store32 ?a v (push_words sp vs m)"
    by (simp add: push_words_append algebra_simps)
  show ?case
  proof (cases "i = length vs")
    case True
    then show ?thesis by (simp only: e load32_store32) simp
  next
    case False
    then have i: "i < length vs" using snoc.prems by simp
    have "sp - 4 * of_nat (i + 1) = ?a + 4 * of_nat (length vs - i)"
      using i by (simp add: of_nat_diff algebra_simps)
    then have "load32 (push_words sp (vs @ [v]) m) (sp - 4 * of_nat (i + 1)) = load32 (push_words sp vs m) (sp - 4 * of_nat (i + 1))"
      unfolding e using i snoc.prems(2) by (intro load32_store32_above [where k = "length vs - i"]) simp_all
    then show ?thesis using snoc i by (simp add: nth_append)
  qed
qed simp

text \<open>\<open>on_stack base ws s\<close>: the words \<open>ws\<close> are on the stack, from \<open>base\<close> downwards.\<close>

definition on_stack :: "u32 \<Rightarrow> u32 list \<Rightarrow> 'a mstate_scheme \<Rightarrow> bool" where
  "on_stack base ws s \<longleftrightarrow> (\<forall>i < length ws. load32 (mem s) (below base (of_nat (i + 1))) = ws ! i)"

lemma on_stack_push: "length ws < 2 ^ 29 \<Longrightarrow> mem s = push_words base ws m \<Longrightarrow> on_stack base ws s"
  using push_words_nth [of _ ws base m] by (simp add: on_stack_def below_def)

lemma on_stack_load:
  "on_stack base ws s \<Longrightarrow> n < length ws \<Longrightarrow> a = base - 4 * of_nat (n + 1) \<Longrightarrow> load32 (mem s) a = ws ! n"
  by (simp add: on_stack_def below_def)

section \<open>Entering and leaving the kernel\<close>

definition user_mode :: "cpu \<Rightarrow> bool" where
  "user_mode c \<longleftrightarrow> c CS AND 3 \<noteq> 0"

text \<open>What the processor saves at an interrupt, and with \<^verbatim>\<open>SAVE_REGS\<close> and with \<^verbatim>\<open>pusha\<close> in addition.\<close>

definition trap_frame :: "cpu \<Rightarrow> u32 option \<Rightarrow> u32 list" where
  "trap_frame c err = [c SS, c ESP, c EFLAGS, c CS, c EIP] @ (case err of None \<Rightarrow> [] | Some e \<Rightarrow> [e])"

definition syscall_frame :: "u32 \<Rightarrow> cpu \<Rightarrow> u32 list" where
  "syscall_frame base c = trap_frame c None @ [c ECX, c EAX, c EDX, c EBX, base - 36, c EBP, c EDI, c ESI]"

definition pusha_frame :: "u32 \<Rightarrow> cpu \<Rightarrow> u32 option \<Rightarrow> u32 list" where
  "pusha_frame base c err = trap_frame c err @
     [c EAX, c ECX, c EDX, c EBX, base - 4 * of_nat (length (trap_frame c err)), c EBP, c ESI, c EDI]"

lemma trap_eq:
  assumes "user_mode c" "esp0 s = base"
  shows "trap g err c s = Ok (c(ESP := base - 4 * of_nat (length (trap_frame c err)), CS := SEGSEL_KERNEL_CS))
    (upd_mem (push_words base (trap_frame c err)) (if g then s\<lparr>int_flag := False\<rparr> else s))"
  using assms by (cases err) (simp_all add: trap_def user_mode_def trap_frame_def kop_defs poke_def upd_mem_def)

lemma cpu_eq_iff: "(c :: cpu) = d \<longleftrightarrow> c EAX = d EAX \<and> c ECX = d ECX \<and> c EDX = d EDX \<and> c EBX = d EBX \<and> c ESP = d ESP \<and>
   c EBP = d EBP \<and> c ESI = d ESI \<and> c EDI = d EDI \<and> c EIP = d EIP \<and> c CS = d CS \<and> c EFLAGS = d EFLAGS \<and> c SS = d SS"
  (is "_ = ?r")
proof
  assume r: ?r
  have "c x = d x" for x using r by (cases x) simp_all
  then show "c = d" by (rule ext)
qed simp

lemma exec_Cons: "exec clob (i # is) c s = obind (exec_instr clob i c s) (exec clob is)"
  by (simp add: kbind_def)

lemma exec_append: "exec clob (is @ js) = (\<lambda>c s. obind (exec clob is c s) (exec clob js))"
  by (induction "is") (simp_all add: kret_def kbind_def obind_assoc)

lemma exec_save:
  "exec clob (SAVE_REGS @ is) c s = exec clob is (c(ESP := c ESP - 32))
     (upd_mem (push_words (c ESP) [c ECX, c EAX, c EDX, c EBX, c ESP - 16, c EBP, c EDI, c ESI]) s)"
  by (simp add: SAVE_REGS_def kop_defs poke_def upd_mem_def)

lemma exec_restore:
  assumes "load32 (mem s) (c ESP + 12) = c ESP + 16"
  shows "exec clob (RESTORE_REGS @ is) c s = exec clob is (c(ESI := load32 (mem s) (c ESP),
    EDI := load32 (mem s) (c ESP + 4), EBP := load32 (mem s) (c ESP + 8), EBX := load32 (mem s) (c ESP + 16),
    EDX := load32 (mem s) (c ESP + 20), ECX := load32 (mem s) (c ESP + 28), ESP := c ESP + 32)) s"
  using assms by (simp add: RESTORE_REGS_def kop_defs pop_reg_def peek_def fun_upd_twist ac_simps)

lemma exec_pusha:
  "exec_instr clob Pusha c s = Ok (c(ESP := c ESP - 32))
     (upd_mem (push_words (c ESP) [c EAX, c ECX, c EDX, c EBX, c ESP, c EBP, c ESI, c EDI]) s)"
  by (simp add: kop_defs poke_def upd_mem_def)

lemma exec_popa:
  "exec_instr clob Popa c s = Ok (c(EDI := load32 (mem s) (c ESP), ESI := load32 (mem s) (c ESP + 4),
     EBP := load32 (mem s) (c ESP + 8), EBX := load32 (mem s) (c ESP + 16), EDX := load32 (mem s) (c ESP + 20),
     ECX := load32 (mem s) (c ESP + 24), EAX := load32 (mem s) (c ESP + 28), ESP := c ESP + 32)) s"
  by (simp add: kop_defs pop_reg_def peek_def fun_upd_twist ac_simps)

lemma iret_user:
  assumes "load32 (mem s) (c ESP + 4) AND 3 \<noteq> 0"
  shows "iret c s = Ok (c(EIP := load32 (mem s) (c ESP), CS := load32 (mem s) (c ESP + 4), EFLAGS := load32 (mem s) (c ESP + 8),
      ESP := load32 (mem s) (c ESP + 12), SS := load32 (mem s) (c ESP + 16)))
    (s\<lparr>int_flag := bit (load32 (mem s) (c ESP + 8)) 9\<rparr>)"
  using assms by (simp add: iret_def kop_defs pop_reg_def peek_def fun_upd_twist ac_simps)

lemma user_dpl: "c CS AND 3 \<le> (3 :: u32)"
proof -
  have "c CS AND 3 = take_bit 2 (c CS)" by (simp add: take_bit_eq_mask mask_eq_exp_minus_1)
  moreover have "unat (take_bit 2 (c CS)) < 4" using take_bit_nat_less_exp [of 2 "unat (c CS)"] by (simp add: unsigned_take_bit_eq)
  ultimately show ?thesis by (simp add: word_le_nat_alt)
qed

lemma exec_call:
  "exec clob (Call f # is) c s = obind (f (\<lambda>k. load32 (mem s) (c ESP + 4 * k)) s) (\<lambda>r.
     exec clob is (c(EAX := (case r of None \<Rightarrow> clob EAX | Some v \<Rightarrow> v), ECX := clob ECX, EDX := clob EDX)))"
  unfolding exec_Cons by (simp add: c_call_def kop_defs obind_assoc)

lemma completes_call:
  assumes "completes R (f (\<lambda>k. load32 (mem s) (c ESP + 4 * k)) s) r s'"
    and "exec clob is (c(EAX := (case r of None \<Rightarrow> clob EAX | Some v \<Rightarrow> v), ECX := clob ECX, EDX := clob EDX)) s' = Ok y t"
  shows "completes R (exec clob (Call f # is) c s) y t"
  unfolding exec_call by (rule completes_obind [OF assms(1)]) (simp add: assms(2) completes_Ok)


text \<open>The fault handlers up to \<^verbatim>\<open>iret\<close>; the C handler may redirect the return address and the stack pointer.\<close>

lemma fault_wrapper:
  fixes s s' :: "'a mstate_scheme"
  assumes "user_mode c" "esp0 s = base"
    and "completes R (m (upd_mem (push_words base (pusha_frame base c err)) s)) () s'"
    and "on_stack base ((pusha_frame base c err)[1 := sp, 4 := ip]) s'"
  shows "completes R (kbind (trap False err c) (exec clobbered [Pusha, Call (\<lambda>args. c_void m), Popa, Popl ECX]) s)
    (c(CS := SEGSEL_KERNEL_CS, ESP := base - (if err = None then 16 else 20), ECX := (case err of None \<Rightarrow> ip | Some e \<Rightarrow> e))) s'"
proof -
  let ?c1 = "c(CS := SEGSEL_KERNEL_CS, ESP := base - 4 * of_nat (length (trap_frame c err) + 8))"
  let ?s1 = "upd_mem (push_words base (pusha_frame base c err)) s"
  have "kbind (trap False err c) (exec clobbered [Pusha, Call (\<lambda>args. c_void m), Popa, Popl ECX]) s
      = exec clobbered (Call (\<lambda>args. c_void m) # [Popa, Popl ECX]) ?c1 ?s1"
    unfolding kbind_def trap_eq [OF assms(1,2)] obind_simps exec_Cons [of _ Pusha] exec_pusha
    by (cases err) (simp_all add: pusha_frame_def trap_frame_def upd_mem_def)
  moreover have "completes R (c_void m ?s1) None s'"
    unfolding c_void_def kthen_def kbind_def
    by (rule completes_obind [OF assms(3)]) (simp add: kret_def completes_Ok)
  moreover have "exec clobbered [Popa, Popl ECX] (?c1(EAX := clobbered EAX, ECX := clobbered ECX, EDX := clobbered EDX)) s'
      = Ok (c(CS := SEGSEL_KERNEL_CS, ESP := base - (if err = None then 16 else 20), ECX := (case err of None \<Rightarrow> ip | Some e \<Rightarrow> e))) s'"
  proof -
    let ?f = "(pusha_frame base c err)[1 := sp, 4 := ip]"
    have w: "load32 (mem s') (base - 4 * of_nat (n + 1)) = ?f ! n" if "n < length ?f" for n
      using on_stack_load [OF assms(4) that] by simp
    have l: "exec clobbered [Popa, Popl ECX] d s' = obind (exec_instr clobbered Popa d s') (exec clobbered [Popl ECX])" for d
      by (rule exec_Cons)
    show ?thesis
    proof (cases err)
      case None
      show ?thesis
        unfolding l exec_popa using None w [of 5] w [of 6] w [of 7] w [of 8] w [of 10] w [of 11] w [of 12] w [of 4]
        by (auto simp: pusha_frame_def trap_frame_def kop_defs pop_reg_def peek_def)
    next
      case (Some e)
      show ?thesis
        unfolding l exec_popa using Some w [of 6] w [of 7] w [of 8] w [of 9] w [of 11] w [of 12] w [of 13] w [of 5]
        by (auto simp: pusha_frame_def trap_frame_def kop_defs pop_reg_def peek_def)
    qed
  qed
  ultimately show ?thesis by (simp only:) (rule completes_call [where r = None]; simp)
qed

text \<open>
  C35: The way out of a fault.  The handlers pop an error code into \<^verbatim>\<open>%ecx\<close> after all registers have been
  restored.  When a page fault has been dealt with, the thread therefore continues with the error code in
  \<^verbatim>\<open>%ecx\<close>, at the address and the stack the C handler has left in the frame.  For a divide error, which has no error code, the
  return address is popped instead, so that \<^verbatim>\<open>iret\<close> starts one word too high, at the saved code segment.
\<close>

theorem fault_return_registers:
  fixes s s' t' :: "'a dstate_scheme"
  assumes "user_mode c" "esp0 s = base"
    and "completes R (page_fault_handler_c (upd_mem (push_words base (pusha_frame base c (Some e))) s)) () s'"
    and "on_stack base ((pusha_frame base c (Some e))[1 := sp, 4 := ip]) s'"
    and "completes R (divide_error_handler_c (upd_mem (push_words base (pusha_frame base c None)) s)) () t'"
    and "on_stack base ((pusha_frame base c None)[1 := sp, 4 := ip]) t'"
  shows "completes R (kbind (trap False (Some e) c) (exec clobbered page_fault_handler) s)
      (c(ECX := e, ESP := sp, EIP := ip)) (s'\<lparr>int_flag := bit (c EFLAGS) 9\<rparr>) \<and>
    completes R (kbind (trap False None c) (exec clobbered (butlast divide_error_handler)) s)
      (c(CS := SEGSEL_KERNEL_CS, ESP := base - 16, ECX := ip)) t' \<and>
    load32 (mem t') (base - 16) = c CS"
proof -
  let ?f = "(pusha_frame base c (Some e))[1 := sp, 4 := ip]"
  have w: "load32 (mem s') (base - 4 * of_nat (n + 1)) = ?f ! n" if "n < length ?f" for n
    using on_stack_load [OF assms(4) that] by simp
  let ?c = "c(CS := SEGSEL_KERNEL_CS, ESP := base - 20, ECX := e)"
  have i: "exec clobbered [Iret] ?c s' = Ok (c(ECX := e, ESP := sp, EIP := ip)) (s'\<lparr>int_flag := bit (c EFLAGS) 9\<rparr>)"
    using assms(1) w [of 0] w [of 1] w [of 2] w [of 3] w [of 4]
    by (auto simp: iret_user user_mode_def pusha_frame_def trap_frame_def kop_defs)
  have page: "page_fault_handler = [Pusha, Call (\<lambda>args. c_void page_fault_handler_c), Popa, Popl ECX] @ [Iret]"
    by (simp add: page_fault_handler_def)
  have "completes R (obind (kbind (trap False (Some e) c) (exec clobbered
      [Pusha, Call (\<lambda>args. c_void page_fault_handler_c), Popa, Popl ECX]) s) (exec clobbered [Iret]))
      (c(ECX := e, ESP := sp, EIP := ip)) (s'\<lparr>int_flag := bit (c EFLAGS) 9\<rparr>)"
    using fault_wrapper [where m = page_fault_handler_c and err = "Some e", OF assms(1-4), of clobbered] i completes_Ok [of R "c(ECX := e, ESP := sp, EIP := ip)"]
    by (intro completes_obind [where x = ?c and s = s']) simp_all
  then have "completes R (kbind (trap False (Some e) c) (exec clobbered page_fault_handler) s)
      (c(ECX := e, ESP := sp, EIP := ip)) (s'\<lparr>int_flag := bit (c EFLAGS) 9\<rparr>)"
    by (simp only: page kbind_def obind_assoc exec_append)
  moreover have "completes R (kbind (trap False None c) (exec clobbered (butlast divide_error_handler)) s)
      (c(CS := SEGSEL_KERNEL_CS, ESP := base - 16, ECX := ip)) t'"
    using fault_wrapper [where m = divide_error_handler_c and err = None, OF assms(1,2,5,6), of clobbered] by (simp add: divide_error_handler_def)
  moreover have "load32 (mem t') (base - 16) = c CS"
    using on_stack_load [OF assms(6), of 3] by (simp add: pusha_frame_def trap_frame_def)
  ultimately show ?thesis by blast
qed

lemma load32_memcpy:
  assumes "unat off + 4 \<le> unat n"
  shows "load32 (memcpy dst src n m) (dst + off) = load32 m (src + off)"
proof -
  have u: "unat (off + of_nat k) = unat off + k" if "k < 4" for k
    using that assms unat_u32 [of n] unat_of_small [of k] by (simp add: unat_add_less)
  have "memcpy dst src n m (dst + off + of_nat k) = m (src + off + of_nat k)" if "k < 4" for k
    using u [OF that] that assms by (simp add: memcpy_def word_less_nat_alt add.assoc)
  from this [of 0] this [of 1] this [of 2] this [of 3] show ?thesis by (simp add: load32_def)
qed

text \<open>
  C36: The registers of a forked child.  The kernel stack of the child is a copy of its parent's, on which
  \<^verbatim>\<open>SAVE_REGS\<close> has left the registers, and the child begins at \<^verbatim>\<open>iret_fun\<close>, which takes them off with
  \<^verbatim>\<open>popa\<close>.  The orders differ: the child starts with \<^verbatim>\<open>%eax\<close> zero, with \<^verbatim>\<open>%esi\<close> and \<^verbatim>\<open>%edi\<close> exchanged and with
  the parent's \<^verbatim>\<open>%eax\<close> in \<^verbatim>\<open>%ecx\<close>; the other registers are the parent's.
\<close>

theorem fork_child_registers:
  fixes s s' :: "'a mstate_scheme"
  assumes "user_mode c" "on_stack (k_stack_base (threads s p)) (syscall_frame (k_stack_base (threads s p)) c) s"
    and "k_stack_base (threads s p) = k_stack p + KERNEL_STACK_SIZE"
    and "k_stack_base (threads s child) = k_stack child + KERNEL_STACK_SIZE"
    and "clone_stack im child p s = Ok () s'"
    and "d ESP = cur_esp (threads s' child) + 4"
  shows "load32 (mem s') (cur_esp (threads s' child)) = iret_fun im \<and>
    exec clobbered iret_fun_code d s' =
      Ok (c(EAX := 0, ECX := c EAX, ESI := c EDI, EDI := c ESI)) (s'\<lparr>int_flag := bit (c EFLAGS) 9\<rparr>)"
proof -
  define pb where "pb = k_stack_base (threads s p)"
  define cb where "cb = k_stack_base (threads s child)"
  have s': "mem s' = store32 (cb - 56) (iret_fun im) (memcpy (k_stack child) (k_stack p) KERNEL_STACK_SIZE (mem s))"
    "cur_esp (threads s' child) = cb - 56"
    using assms(5) by (auto simp: clone_stack_def kop_defs poke_def upd_mem_def upd_thread_def below_def cb_def)
  have w: "load32 (mem s') (cb - 4 * of_nat (n + 1)) = syscall_frame pb c ! n" if n: "n < 13" for n
  proof -
    let ?o = "KERNEL_STACK_SIZE - 4 * of_nat (n + 1)"
    have "?o = of_nat (12288 - 4 * (n + 1))" using n by (simp add: PAGE_SIZE_def of_nat_diff)
    then have o: "unat ?o = 12288 - 4 * (n + 1)" using unat_of_small [of "12288 - 4 * (n + 1)"] by simp
    have "load32 (mem s') (cb - 4 * of_nat (n + 1))
        = load32 (memcpy (k_stack child) (k_stack p) KERNEL_STACK_SIZE (mem s)) (cb - 4 * of_nat (n + 1))"
      unfolding s' using n by (intro load32_store32_above [where k = "13 - n"]) (simp_all add: of_nat_diff)
    also have "\<dots> = load32 (mem s) (pb - 4 * of_nat (n + 1))"
    proof -
      have "unat ?o + 4 \<le> unat KERNEL_STACK_SIZE" unfolding o using n by (simp add: PAGE_SIZE_def)
      moreover have "cb - 4 * of_nat (n + 1) = k_stack child + ?o" "pb - 4 * of_nat (n + 1) = k_stack p + ?o"
        using assms(3,4) by (simp_all add: pb_def cb_def)
      ultimately show ?thesis by (simp only: load32_memcpy)
    qed
    also have "\<dots> = syscall_frame pb c ! n"
      using on_stack_load [OF assms(2) [folded pb_def], of n] n by (simp add: syscall_frame_def trap_frame_def)
    finally show ?thesis .
  qed
  have "load32 (mem s') (cb - 52) = c ESI" "load32 (mem s') (cb - 48) = c EDI" "load32 (mem s') (cb - 44) = c EBP"
    "load32 (mem s') (cb - 36) = c EBX" "load32 (mem s') (cb - 32) = c EDX" "load32 (mem s') (cb - 28) = c EAX"
    "load32 (mem s') (cb - 20) = c EIP" "load32 (mem s') (cb - 16) = c CS"
    "load32 (mem s') (cb - 12) = c EFLAGS" "load32 (mem s') (cb - 8) = c ESP" "load32 (mem s') (cb - 4) = c SS"
    using w [of 0] w [of 1] w [of 2] w [of 3] w [of 4] w [of 6] w [of 7] w [of 8] w [of 10] w [of 11] w [of 12]
    by (simp_all add: syscall_frame_def trap_frame_def)
  moreover have "d ESP = cb - 52" using assms(6) s'(2) by simp
  ultimately have "exec clobbered iret_fun_code d s' =
      Ok (c(EAX := 0, ECX := c EAX, ESI := c EDI, EDI := c ESI)) (s'\<lparr>int_flag := bit (c EFLAGS) 9\<rparr>)"
    using assms(1)
    by (auto simp: cpu_eq_iff iret_fun_code_def exec_Cons exec_popa iret_user user_mode_def kop_defs enable_interrupts_def simp del: exec.simps(2) exec_instr.simps(4))
  then show ?thesis by (simp add: s')
qed

section \<open>Witnesses\<close>

definition user_cpu :: cpu where
  "user_cpu = (\<lambda>_. 0)(EIP := 0x01000000, CS := SEGSEL_USER_CS, EFLAGS := 0x202, ESP := 0xBFFFFFF0, SS := SEGSEL_USER_DS, ECX := 5)"

lemma user_cpu_mode: "user_mode user_cpu"
  by (simp add: user_mode_def user_cpu_def )


text \<open>A thread whose kernel stack ends at \<open>0x8000\<close> takes a fault and has a software exception handler.\<close>

definition faulting_machine :: dstate where
  "faulting_machine = swexn_machine\<lparr>esp0 := 0x8000\<rparr>"

lemma blank_console_cr2: "cr2 blank_console = 0"
  unfolding blank_console_def mstate.extend_def dstate.fields_def idle_machine_def
  by (simp add: sample_machine_def kstate.defs mstate.defs)

lemma swexn_frame:
  assumes "length ws \<le> 14"
  shows "\<exists>s'. handle_fault cause (upd_mem (push_words 0x8000 ws) faulting_machine) = Ok () s' \<and>
    on_stack 0x8000 (ws[1 := 0x30A4, 4 := 0x01000100]) s'"
proof -
  let ?s = "upd_mem (push_words 0x8000 ws) faulting_machine"
  let ?pa = "\<lambda>i :: nat. 0x30A4 + of_nat i :: u32"
  have t: "threads ?s = threads swexn_machine" "tasks ?s = tasks swexn_machine"
    by (simp_all add: faulting_machine_def upd_mem_def)
  have small: "unat (?pa j) = 0x30A4 + j" if "j < 92" for j
    using that unat_of_small [of "0x30A4 + j"] by simp
  have far: "of_nat n \<notin> frame_bytes 0x8000 \<and> (of_nat n :: u32) \<notin> ?pa ` {..<92}"
    if "0x7FC8 \<le> n" "n < 0x7FEC \<or> 0x7FF0 \<le> n" "n < 0x7FF8 \<or> 0x7FFC \<le> n" "n < 0x8000" for n :: nat
  proof -
    have u: "unat (of_nat n :: u32) = n" using that by (intro unat_of_small) simp
    then have "\<not> (of_nat n :: u32) - 0x7FF8 < 4" "\<not> (of_nat n :: u32) - 0x7FEC < 4"
      using that by (auto simp: word_less_nat_alt unat_sub_if')
    moreover have "(of_nat n :: u32) \<noteq> ?pa j" if "j < 92" for j
      using u small [OF that] that \<open>0x7FC8 \<le> n\<close> by auto
    ultimately show ?thesis by (auto simp: frame_bytes_def below_def)
  qed
  have b: "writable_buffer ?s (frame_bytes 0x8000) (0x3100 - 92) 92 ?pa"
  proof -
    have "?pa i \<notin> frame_bytes 0x8000" if "i < 92" for i
      using swexn_machine_stack that by (simp add: writable_buffer_def)
    then show ?thesis using kernel_buffer [of "0x30A4" 92 "frame_bytes 0x8000" ?s] by simp
  qed
  obtain s' where s': "handle_fault cause ?s = Ok () s'" "load32 (mem s') (below 0x8000 2) = 0x3100 - 92"
    "load32 (mem s') (below 0x8000 5) = 0x01000100"
    "\<forall>a. a \<notin> frame_bytes 0x8000 \<longrightarrow> a \<notin> ?pa ` {..<92} \<longrightarrow> mem s' a = mem ?s a"
    using handle_fault_delivers [where s = ?s and cause = cause and base = "0x8000", unfolded t swexn_machine_fields, OF _ b refl]
    by auto
  have other: "load32 (mem s') (0x8000 - 4 * of_nat (i + 1)) = ws ! i" if i: "i < length ws" "i \<noteq> 1" "i \<noteq> 4" for i
  proof -
    define n where "n = 0x8000 - 4 * (i + 1)"
    have i14: "i < 14" using i(1) assms by simp
    then have n: "(0x8000 - 4 * of_nat (i + 1) :: u32) = of_nat n" by (simp add: n_def of_nat_diff)
    have "mem s' (of_nat n + of_nat j) = mem ?s (of_nat n + of_nat j)" if "j < 4" for j
    proof -
      have "0x7FC8 \<le> n + j" "n + j < 0x7FEC \<or> 0x7FF0 \<le> n + j" "n + j < 0x7FF8 \<or> 0x7FFC \<le> n + j" "n + j < 0x8000"
        using i14 i(2,3) that unfolding n_def by presburger+
      from far [OF this] show ?thesis using s'(4) by simp
    qed
    from this [of 0] this [of 1] this [of 2] this [of 3]
    have "load32 (mem s') (of_nat n) = load32 (mem ?s) (of_nat n)" by (simp add: load32_def)
    also have "\<dots> = ws ! i"
      using push_words_nth [of i ws "0x8000" "mem faulting_machine"] i(1) assms n by (simp add: upd_mem_def)
    finally show ?thesis by (simp only: n)
  qed
  have "load32 (mem s') (below 0x8000 (of_nat (i + 1))) = ws[1 := 0x30A4, 4 := 0x01000100] ! i" if "i < length ws" for i
    using s'(2,3) other [OF that] that by (cases "i = 1"; cases "i = 4") (simp_all add: below_def)
  then have "on_stack 0x8000 (ws[1 := 0x30A4, 4 := 0x01000100]) s'" by (simp add: on_stack_def)
  then show ?thesis using s'(1) by blast
qed

theorem fault_return_registers_witness:
  "\<exists>s' t'. completes (\<lambda>_ _. False) (kbind (trap False (Some 7) user_cpu) (exec (\<lambda>_. 0) page_fault_handler) faulting_machine)
      (user_cpu(ECX := 7, ESP := 0x30A4, EIP := 0x01000100)) s' \<and>
    completes (\<lambda>_ _. False) (kbind (trap False None user_cpu) (exec (\<lambda>_. 0) (butlast divide_error_handler)) faulting_machine)
      (user_cpu(CS := SEGSEL_KERNEL_CS, ESP := 0x8000 - 16, ECX := 0x01000100)) t' \<and> load32 (mem t') (0x8000 - 16) = SEGSEL_USER_CS"
proof -
  let ?R = "\<lambda>_ _ :: dstate. False"
  let ?f = "pusha_frame 0x8000 user_cpu"
  have l: "length (?f e) \<le> 14" for e by (simp add: pusha_frame_def trap_frame_def split: option.split)
  obtain s' where s': "handle_fault SWEXN_CAUSE_PAGEFAULT (upd_mem (push_words 0x8000 (?f (Some 7))) faulting_machine) = Ok () s'"
    "on_stack 0x8000 ((?f (Some 7))[1 := 0x30A4, 4 := 0x01000100]) s'"
    using swexn_frame [OF l] by blast
  obtain t' where t': "handle_fault SWEXN_CAUSE_DIVIDE (upd_mem (push_words 0x8000 (?f None)) faulting_machine) = Ok () t'"
    "on_stack 0x8000 ((?f None)[1 := 0x30A4, 4 := 0x01000100]) t'"
    using swexn_frame [OF l] by blast
  have c: "cr2 (upd_mem g faulting_machine) = 0" for g
    by (simp add: faulting_machine_def swexn_machine_def upd_mem_def blank_console_cr2)
  have "completes ?R (page_fault_handler_c (upd_mem (push_words 0x8000 (?f (Some 7))) faulting_machine)) () s'"
    using s'(1) c by (simp add: page_fault_handler_c_def is_addr_cow_def kop_defs completes_Ok USER_MEM_START_def)
  moreover have "completes ?R (divide_error_handler_c (upd_mem (push_words 0x8000 (?f None)) faulting_machine)) () t'"
    using t'(1) by (simp add: divide_error_handler_c_def completes_Ok)
  moreover have "esp0 faulting_machine = 0x8000" by (simp add: faulting_machine_def)
  ultimately have "completes ?R (kbind (trap False (Some 7) user_cpu) (exec (\<lambda>_. 0) page_fault_handler) faulting_machine)
      (user_cpu(ECX := 7, ESP := 0x30A4, EIP := 0x01000100)) (s'\<lparr>int_flag := bit (user_cpu EFLAGS) 9\<rparr>) \<and>
    completes ?R (kbind (trap False None user_cpu) (exec (\<lambda>_. 0) (butlast divide_error_handler)) faulting_machine)
      (user_cpu(CS := SEGSEL_KERNEL_CS, ESP := 0x8000 - 16, ECX := 0x01000100)) t' \<and> load32 (mem t') (0x8000 - 16) = user_cpu CS"
    using s'(2) t'(2) user_cpu_mode by (intro fault_return_registers)
  then show ?thesis by (auto simp: user_cpu_def)
qed

text \<open>The stack of thread \<open>0x10000\<close> is copied for thread \<open>0x20000\<close>.\<close>

definition forking_machine :: dstate where
  "forking_machine = upd_mem (push_words 0x13008 (syscall_frame 0x13008 (user_cpu(ESI := 1, EDI := 2, EAX := 3))))
     (blank_console\<lparr>threads := (\<lambda>t. (blank_thread 1)\<lparr>k_stack_base := k_stack t + KERNEL_STACK_SIZE\<rparr>)\<rparr>)"

theorem fork_child_registers_witness:
  "\<exists>s'. clone_stack hello 0x20000 0x10000 forking_machine = Ok () s' \<and>
    exec (\<lambda>_. 0) iret_fun_code (\<lambda>_. 0x22FD4) s' = Ok (user_cpu(ECX := 3, ESI := 2, EDI := 1)) (s'\<lparr>int_flag := True\<rparr>)"
proof -
  let ?c = "user_cpu(ESI := 1, EDI := 2, EAX := 3)"
  have b: "k_stack_base (threads forking_machine t) = k_stack t + KERNEL_STACK_SIZE" for t
    by (simp add: forking_machine_def upd_mem_def)
  have p: "k_stack_base (threads forking_machine 0x10000) = 0x13008"
    by (simp add: b k_stack_def PAGE_SIZE_def)
  have o: "on_stack (k_stack_base (threads forking_machine 0x10000)) (syscall_frame (k_stack_base (threads forking_machine 0x10000)) ?c)
      forking_machine"
    unfolding p by (rule on_stack_push [where m = "mem blank_console"])
      (simp_all add: syscall_frame_def trap_frame_def forking_machine_def upd_mem_def)
  obtain s' where s': "clone_stack hello 0x20000 0x10000 forking_machine = Ok () s'" "cur_esp (threads s' 0x20000) = 0x22FD0"
    using b [of "0x20000"] by (simp add: clone_stack_def kop_defs poke_def upd_mem_def upd_thread_def below_def
        k_stack_def PAGE_SIZE_def)
  have u: "user_mode ?c" using user_cpu_mode by (simp add: user_mode_def)
  have "exec (\<lambda>_. 0) iret_fun_code (\<lambda>_. 0x22FD4) s' =
      Ok (?c(EAX := 0, ECX := ?c EAX, ESI := ?c EDI, EDI := ?c ESI)) (s'\<lparr>int_flag := bit (?c EFLAGS) 9\<rparr>)"
    using fork_child_registers [OF u o b b s'(1), of "\<lambda>_. 0x22FD4" "\<lambda>_. 0"] s'(2) by simp
  moreover have "?c(EAX := 0, ECX := ?c EAX, ESI := ?c EDI, EDI := ?c ESI) = user_cpu(ECX := 3, ESI := 2, EDI := 1)"
    by (simp add: cpu_eq_iff user_cpu_def)
  moreover have "bit (?c EFLAGS) 9" by (simp add: user_cpu_def bit_numeral_rec)
  ultimately show ?thesis using s'(1) by auto
qed

end
