(* ===== verification/Paging.thy ===== *)
theory Paging
  imports Vm
begin

text \<open>
  Properties of the page directories and tables of \<^verbatim>\<open>kern/vm/vm.c\<close>: new directories are well formed and map
  the kernel one to one, and the check of a user range is a search for a mapped page.  Where the pages
  come from is an interface, \<open>page_allocator\<close>, which the kernel heap implements.
\<close>

section \<open>Indices\<close>

lemma GET_PD_INDEX_eq: "GET_PD_INDEX a = drop_bit 22 a"
proof -
  have m: "(0xFFC00000 :: u32) = push_bit 22 (mask 10)" by (simp add: mask_eq_exp_minus_1 push_bit_eq_mult)
  show ?thesis
    unfolding GET_PD_INDEX_def m by (rule bit_eqI) (auto simp: bit_simps dest: bit_imp_le_length)
qed

lemma GET_PT_INDEX_eq: "GET_PT_INDEX a = take_bit 10 (drop_bit 12 a)"
proof -
  have m: "(0x003FF000 :: u32) = push_bit 12 (mask 10)" by (simp add: mask_eq_exp_minus_1 push_bit_eq_mult)
  show ?thesis
    unfolding GET_PT_INDEX_def m by (rule bit_eqI) (auto simp: bit_simps dest: bit_imp_le_length)
qed

lemma page_index_nat:
  "unat (GET_PD_INDEX a) = unat a div 2 ^ 22" "unat (GET_PT_INDEX a) = unat a div 2 ^ 12 mod 2 ^ 10"
  unfolding GET_PD_INDEX_eq GET_PT_INDEX_eq unsigned_drop_bit_eq unsigned_take_bit_eq
  using unat_u32 [of a] by (simp_all only: drop_bit_eq_div take_bit_eq_mod) simp_all

lemma page_index_cong:
  assumes "unat a div 2 ^ 12 = unat b div 2 ^ 12"
  shows "GET_PD_INDEX a = GET_PD_INDEX b" "GET_PT_INDEX a = GET_PT_INDEX b"
proof -
  have "unat x div 2 ^ 22 = unat x div 2 ^ 12 div 2 ^ 10" for x :: u32 by (simp add: div_mult2_eq [symmetric])
  then show "GET_PD_INDEX a = GET_PD_INDEX b"
    using assms by (intro unsigned_word_eqI [where 'a = nat]) (simp only: page_index_nat)
  show "GET_PT_INDEX a = GET_PT_INDEX b"
    using assms by (intro unsigned_word_eqI [where 'a = nat]) (simp only: page_index_nat)
qed

section \<open>Checks on user ranges\<close>

lemma page_mapped_cong:
  assumes "unat a div 2 ^ 12 = unat b div 2 ^ 12"
  shows "page_mapped s pd a = page_mapped s pd b"
  unfolding page_mapped_def page_index_cong [OF assms] ..

lemma page_of_nat: "unat (page_of a) = unat a div 4096 * 4096"
proof -
  have "PAGE_ROUND_DOWN = NOT (mask 12)" by (simp add: mask_eq_exp_minus_1 not_eq_complement)
  then show ?thesis using unat_and_not_mask [of a 12] by (simp add: page_of_def)
qed

lemma same_page:
  assumes "4096 dvd b" "b \<le> a" "a < b + (4096 :: nat)"
  shows "a div 2 ^ 12 = b div 2 ^ 12"
proof -
  obtain k where "b = 4096 * k" using assms(1) by (rule dvdE)
  then show ?thesis using assms(2,3) by (simp add: div_nat_eqI)
qed

lemma mapped_loop_eq:
  assumes "unat e + 4096 < 2 ^ 32" "4096 dvd unat b"
  shows "mapped_loop s pd e b = Some (if \<exists>a. b \<le> a \<and> a \<le> e \<and> page_mapped s pd a then MEMORY_REGION_MAPPED else MEMORY_REGION_UNMAPPED)"
  using assms
proof (induction "unat e + 4096 - unat b" arbitrary: b rule: less_induct)
  case less
  show ?case
  proof (cases "b \<le> e \<and> \<not> page_mapped s pd b")
    case True
    let ?b = "b + PAGE_SIZE"
    have u: "unat ?b = unat b + 4096"
      using True less.prems by (simp add: unat_add_less PAGE_SIZE_def word_le_nat_alt)
    then have d: "4096 dvd unat ?b" using less.prems(2) by simp
    have m: "unat e + 4096 - unat ?b < unat e + 4096 - unat b"
      using True u unfolding word_le_nat_alt by linarith
    have "(\<exists>a. b \<le> a \<and> a \<le> e \<and> page_mapped s pd a) \<longleftrightarrow> (\<exists>a. ?b \<le> a \<and> a \<le> e \<and> page_mapped s pd a)"
    proof -
      have "?b \<le> a" if "b \<le> a" "page_mapped s pd a" for a
      proof (rule ccontr)
        assume "\<not> ?b \<le> a"
        then have "unat b \<le> unat a" "unat a < unat b + 4096" using that(1) u by (simp_all add: word_le_nat_alt)
        then have "unat a div 2 ^ 12 = unat b div 2 ^ 12" using less.prems(2) by (intro same_page) simp_all
        then show False using page_mapped_cong [of a b s pd] True that(2) by blast
      qed
      moreover have "b \<le> ?b" using u by (simp add: word_le_nat_alt)
      ultimately show ?thesis by (meson order_trans)
    qed
    then show ?thesis using less.hyps [OF m less.prems(1) d] True by (subst mapped_loop.simps) simp
  next
    case False
    then show ?thesis by (subst mapped_loop.simps) auto
  qed
qed



section \<open>Pages for directories and tables\<close>

text \<open>
  What the directories and tables need of an allocator: a page is aligned, was free before and is not free
  afterwards, and taking it changes no memory.
\<close>

locale page_allocator =
  fixes alloc :: "(u32, 'a mstate_scheme) kop"
    and ready :: "'a mstate_scheme \<Rightarrow> bool"
    and heap :: "'a mstate_scheme \<Rightarrow> 'h"
    and take :: "'h \<Rightarrow> (u32 \<times> 'h) option"
    and free_space :: "'h \<Rightarrow> nat set"
  assumes alloc_page: "ready s \<Longrightarrow> \<exists>p s'. alloc s = Ok p s' \<and> ready s' \<and> mem s' = mem s \<and> direct_map s' = direct_map s \<and>
      phys_frames s' = phys_frames s \<and> take (heap s) = Some (p, heap s') \<and>
      (p = 0 \<and> free_space (heap s') = free_space (heap s) \<or>
       p \<noteq> 0 \<and> 4096 dvd unat p \<and> block p PAGE_SIZE \<subseteq> free_space (heap s) \<and>
       free_space (heap s') = free_space (heap s) - block p PAGE_SIZE)"
    and ready_mem: "ready (s\<lparr>mem := m\<rparr>) = ready s"
    and heap_mem: "heap (s\<lparr>mem := m\<rparr>) = heap s"
begin

lemma new_page:
  assumes "ready s"
    and fill: "\<And>p s. p \<noteq> 0 \<Longrightarrow> 4096 dvd unat p \<Longrightarrow> \<exists>m. fill p s = Ok () (s\<lparr>mem := m\<rparr>) \<and> Q (direct_map s) p m \<and>
      (\<forall>a. unat a \<notin> block p PAGE_SIZE \<longrightarrow> m a = mem s a)"
  shows "\<exists>p s'. kbind alloc (\<lambda>p. if p = 0 then kret 0 else kthen (fill p) (kret p)) s = Ok p s' \<and> ready s' \<and>
      direct_map s' = direct_map s \<and> phys_frames s' = phys_frames s \<and> take (heap s) = Some (p, heap s') \<and>
      (p = 0 \<and> mem s' = mem s \<and> free_space (heap s') = free_space (heap s) \<or>
       p \<noteq> 0 \<and> 4096 dvd unat p \<and> block p PAGE_SIZE \<subseteq> free_space (heap s) \<and>
       free_space (heap s') = free_space (heap s) - block p PAGE_SIZE \<and>
       Q (direct_map s) p (mem s') \<and> (\<forall>a. unat a \<notin> block p PAGE_SIZE \<longrightarrow> mem s' a = mem s a))"
proof -
  obtain p s1 where a: "alloc s = Ok p s1" "ready s1" "mem s1 = mem s" "direct_map s1 = direct_map s" "phys_frames s1 = phys_frames s"
    "take (heap s) = Some (p, heap s1)"
    "p = 0 \<and> free_space (heap s1) = free_space (heap s) \<or> p \<noteq> 0 \<and> 4096 dvd unat p \<and>
      block p PAGE_SIZE \<subseteq> free_space (heap s) \<and> free_space (heap s1) = free_space (heap s) - block p PAGE_SIZE"
    using alloc_page [OF assms(1)] by (elim exE conjE) (rule that)
  show ?thesis
  proof (cases "p = 0")
    case True
    then show ?thesis using a by (intro exI [of _ p] exI [of _ s1]) (simp add: kop_defs)
  next
    case False
    then obtain m where m: "fill p s1 = Ok () (s1\<lparr>mem := m\<rparr>)" "Q (direct_map s) p m"
      "\<forall>a. unat a \<notin> block p PAGE_SIZE \<longrightarrow> m a = mem s a"
      using fill [of p s1] a(3,4,7) by auto
    then show ?thesis using a False
      by (intro exI [of _ p] exI [of _ "s1\<lparr>mem := m\<rparr>"]) (simp add: kop_defs ready_mem heap_mem)
  qed
qed

end

text \<open>The allocation of a page on the heap alone.\<close>

definition take_page :: "lmm \<Rightarrow> (u32 \<times> lmm) option" where
  "take_page = lmm_alloc_aligned PAGE_SIZE 0 12 0"

definition heap_ready :: "'a mstate_scheme \<Rightarrow> bool" where
  "heap_ready s \<longleftrightarrow> mutex_free (Malloc_mutex, 0) s \<and> lmm_wf (malloc_lmm s) \<and>
     (\<forall>r \<in> set (malloc_lmm s). unat (reg_max r) + 2 ^ 12 \<le> 2 ^ 32)"

lemma align_shift_page: "align_shift PAGE_SIZE = 12"
proof -
  have "[0..<32] = [0..<12] @ 12 # [13..<32]" by (simp add: upt_add_eq_append [of 0 12 20, simplified] upt_conv_Cons)
  moreover have "push_bit i 1 < (4096 :: u32)" if "i < 12" for i
  proof -
    have "i = 0 \<or> i = 1 \<or> i = 2 \<or> i = 3 \<or> i = 4 \<or> i = 5 \<or> i = 6 \<or> i = 7 \<or> i = 8 \<or> i = 9 \<or> i = 10 \<or> i = 11"
      using that by presburger
    then show ?thesis by auto
  qed
  then have "takeWhile (\<lambda>i. push_bit i 1 < PAGE_SIZE) ([0..<12] @ 12 # [13..<32])
      = [0..<12] @ takeWhile (\<lambda>i. push_bit i 1 < PAGE_SIZE) (12 # [13..<32])"
    by (intro takeWhile_append2) (simp add: PAGE_SIZE_def)
  ultimately show ?thesis by (simp only: align_shift_def) (simp add: PAGE_SIZE_def)
qed

lemma heap_ready_taken:
  assumes "heap_ready s" "lmm_wf l" "map bounds l = map bounds (malloc_lmm s)"
  shows "heap_ready ((settled s)\<lparr>malloc_lmm := l\<rparr>)"
proof -
  have "map (fst \<circ> snd) (map bounds l) = map (fst \<circ> snd) (map bounds (malloc_lmm s))" by (simp only: assms(3))
  then have "map reg_max l = map reg_max (malloc_lmm s)" by (simp add: bounds_def comp_def)
  then have "set (map reg_max l) = set (map reg_max (malloc_lmm s))" by (simp only:)
  moreover have "\<forall>x \<in> set (map reg_max (malloc_lmm s)). unat x + 2 ^ 12 \<le> 2 ^ 32" using assms(1) by (simp add: heap_ready_def)
  ultimately have "\<forall>x \<in> set (map reg_max l). unat x + 2 ^ 12 \<le> 2 ^ 32" by (simp only:)
  then show ?thesis using assms(1,2) by (simp add: heap_ready_def mutex_free_def)
qed

lemma heap_page:
  assumes "heap_ready s"
  shows "\<exists>p s'. smemalign PAGE_SIZE PAGE_SIZE s = Ok p s' \<and> heap_ready s' \<and> mem s' = mem s \<and> direct_map s' = direct_map s \<and>
      phys_frames s' = phys_frames s \<and> take_page (malloc_lmm s) = Some (p, malloc_lmm s') \<and>
      (p = 0 \<and> lmm_bytes (malloc_lmm s') = lmm_bytes (malloc_lmm s) \<or>
       p \<noteq> 0 \<and> 4096 dvd unat p \<and> block p PAGE_SIZE \<subseteq> lmm_bytes (malloc_lmm s) \<and>
       lmm_bytes (malloc_lmm s') = lmm_bytes (malloc_lmm s) - block p PAGE_SIZE)"
proof -
  let ?alloc = "lmm_alloc_aligned PAGE_SIZE 0 12 0"
  have r: "mutex_free (Malloc_mutex, 0) s" "lmm_wf (malloc_lmm s)" "\<forall>r \<in> set (malloc_lmm s). unat (reg_max r) + 2 ^ 12 \<le> 2 ^ 32"
    using assms by (simp_all add: heap_ready_def)
  have run: "smemalign PAGE_SIZE PAGE_SIZE s = Ok p ((settled s)\<lparr>malloc_lmm := l\<rparr>)" if "?alloc (malloc_lmm s) = Some (p, l)" for p l
    using locked_lmm_call [of "(Malloc_mutex, 0)" s ?alloc p l] r(1) that by (simp add: smemalign_def u_smemalign_def align_shift_page)
  note ready = heap_ready_taken [OF assms]
  consider "?alloc (malloc_lmm s) = Some (0, malloc_lmm s)"
    | p l where "?alloc (malloc_lmm s) = Some (p, l)" "takes_block (malloc_lmm s) 0 (outer_node p) (outer_size p PAGE_SIZE) l"
      "unat p mod 2 ^ 12 = 0"
  proof -
    have "0 < unat PAGE_SIZE" by (simp add: PAGE_SIZE_def)
    from lmm_alloc_aligned_effect [OF r(2) this r(3), of 0 0] that show ?thesis
      by (elim disjE exE conjE) simp_all
  qed
  then show ?thesis
  proof cases
    case 1
    then show ?thesis using run [OF 1] ready [OF r(2)] by (intro exI [of _ 0] exI [of _ "(settled s)\<lparr>malloc_lmm := malloc_lmm s\<rparr>"]) (simp add: take_page_def)
  next
    case (2 p l)
    have "4096 dvd unat p" using 2(3) by (simp add: mod_0_imp_dvd)
    moreover from this have "8 dvd unat p" by (rule dvd_trans [rotated]) simp
    then have "outer_node p = p" "outer_size p PAGE_SIZE = PAGE_SIZE"
      using outer_of_aligned [of p PAGE_SIZE] by (simp_all add: PAGE_SIZE_def mask_eq_exp_minus_1)
    then have t: "p \<noteq> 0" "lmm_wf l" "map bounds l = map bounds (malloc_lmm s)" "block p PAGE_SIZE \<subseteq> lmm_bytes (malloc_lmm s)"
      "lmm_bytes l = lmm_bytes (malloc_lmm s) - block p PAGE_SIZE"
      using 2(2) by (simp_all add: takes_block_def)
    ultimately show ?thesis
      using run [OF 2(1)] ready [OF t(2,3)] 2(1) by (intro exI [of _ p] exI [of _ "(settled s)\<lparr>malloc_lmm := l\<rparr>"]) (simp add: take_page_def)
  qed
qed

interpretation heap_pages: page_allocator "smemalign PAGE_SIZE PAGE_SIZE" heap_ready malloc_lmm take_page lmm_bytes
proof
  show "\<exists>p s'. smemalign PAGE_SIZE PAGE_SIZE s = Ok p s' \<and> heap_ready s' \<and> mem s' = mem s \<and> direct_map s' = direct_map s \<and>
      phys_frames s' = phys_frames s \<and> take_page (malloc_lmm s) = Some (p, malloc_lmm s') \<and>
      (p = 0 \<and> lmm_bytes (malloc_lmm s') = lmm_bytes (malloc_lmm s) \<or>
       p \<noteq> 0 \<and> 4096 dvd unat p \<and> block p PAGE_SIZE \<subseteq> lmm_bytes (malloc_lmm s) \<and>
       lmm_bytes (malloc_lmm s') = lmm_bytes (malloc_lmm s) - block p PAGE_SIZE)"
    if "heap_ready s" for s :: "'a mstate_scheme" by (rule heap_page [OF that])
  show "heap_ready (s\<lparr>mem := m\<rparr>) = heap_ready s" for s :: "'a mstate_scheme" and m by (simp add: heap_ready_def mutex_free_def)
qed simp

section \<open>New page directories\<close>

lemma kthen_assoc: "kthen (kthen a b) c = kthen a (kthen b c)"
  by (simp add: kthen_def kbind_def obind_assoc)

lemma page_room: "4096 dvd unat (t :: u32) \<Longrightarrow> unat t + 4096 \<le> 2 ^ 32"
  using unat_u32 [of t] by (elim dvdE) simp

lemma entry_addr_nat: "4096 dvd unat t \<Longrightarrow> j < 1024 \<Longrightarrow> unat (entry_addr t (of_nat j)) = unat t + 4 * j"
  using page_room [of t] unat_of_small [of "4 * j"] unat_add_less [of t "of_nat (4 * j)"] by (simp add: entry_addr_def)

lemma kfor_entries:
  assumes "4096 dvd unat t" "set is \<subseteq> {..<1024}" "distinct is"
    and "\<forall>i s. direct_map s = D \<longrightarrow> body i s = Ok () (upd_mem (store32 (entry_addr t (of_nat i)) (v i)) s)"
    and "direct_map s = D"
  shows "\<exists>m. kfor is body s = Ok () (s\<lparr>mem := m\<rparr>) \<and> (\<forall>i \<in> set is. entry m t (of_nat i) = v i) \<and>
    (\<forall>i < 1024. i \<notin> set is \<longrightarrow> entry m t (of_nat i) = entry (mem s) t (of_nat i)) \<and>
    (\<forall>a. unat a \<notin> block t PAGE_SIZE \<longrightarrow> m a = mem s a)"
  using assms(2,3,5)
proof (induction "is" arbitrary: s)
  case Nil
  show ?case by (intro exI [of _ "mem s"]) (simp add: kret_def)
next
  case (Cons i "is")
  let ?s = "upd_mem (store32 (entry_addr t (of_nat i)) (v i)) s"
  obtain m where m: "kfor is body ?s = Ok () (?s\<lparr>mem := m\<rparr>)" "\<forall>j \<in> set is. entry m t (of_nat j) = v j"
    "\<forall>j < 1024. j \<notin> set is \<longrightarrow> entry m t (of_nat j) = entry (mem ?s) t (of_nat j)"
    "\<forall>a. unat a \<notin> block t PAGE_SIZE \<longrightarrow> m a = mem ?s a"
    using Cons.IH [of ?s] Cons.prems by (auto simp: upd_mem_def)
  have "entry (mem ?s) t (of_nat i) = v i" by (simp add: entry_def upd_mem_def)
  moreover have "entry (mem ?s) t (of_nat j) = entry (mem s) t (of_nat j)" if "j < 1024" "j \<noteq> i" for j
  proof -
    have "unat (entry_addr t (of_nat j)) = unat t + 4 * j" "unat (entry_addr t (of_nat i)) = unat t + 4 * i"
      using entry_addr_nat [OF assms(1)] that(1) Cons.prems(1) by simp_all
    moreover have "4 dvd unat t" using assms(1) by (rule dvd_trans [rotated]) simp
    ultimately show ?thesis
      using that(2) by (simp add: entry_def upd_mem_def, intro store32_word_other) auto
  qed
  moreover have "mem ?s a = mem s a" if "unat a \<notin> block t PAGE_SIZE" for a
  proof -
    have u: "unat (entry_addr t (of_nat i)) = unat t + 4 * i" using entry_addr_nat [OF assms(1)] Cons.prems(1) by simp
    have "\<not> a - entry_addr t (of_nat i) < 4"
    proof
      assume "a - entry_addr t (of_nat i) < 4"
      then have d: "unat (a - entry_addr t (of_nat i)) < 4" by (simp add: word_less_nat_alt)
      have "unat (entry_addr t (of_nat i) + (a - entry_addr t (of_nat i))) = unat t + 4 * i + unat (a - entry_addr t (of_nat i))"
        using unat_add_less [of "entry_addr t (of_nat i)" "a - entry_addr t (of_nat i)"] u d page_room [OF assms(1)] Cons.prems(1)
        by simp
      then show False using that d Cons.prems(1) by (simp add: block_def PAGE_SIZE_def)
    qed
    then show ?thesis by (simp add: upd_mem_def store32_other)
  qed
  ultimately show ?case
    using m Cons.prems assms(4)
    by (intro exI [of _ m]) (auto simp: kop_defs upd_mem_def)
qed

text \<open>
  \<open>directory_ok s pd\<close>: the kernel's entries of the directory point to the tables of the direct map and every
  other entry is empty or refers to a table.  \<open>direct_map_ok s\<close>: these tables map page \<open>n\<close> to frame \<open>n\<close>.
\<close>

definition directory_ok :: "'a mstate_scheme \<Rightarrow> u32 \<Rightarrow> bool" where
  "directory_ok s pd \<longleftrightarrow> 4096 dvd unat pd \<and>
     (\<forall>i < KERNEL_MAP_NUM_ENTRIES. entry (mem s) pd (of_nat i) = direct_map s i OR (PAGE_ENTRY_PRESENT OR READ_WRITE_ENABLE)) \<and>
     (\<forall>i. KERNEL_MAP_NUM_ENTRIES \<le> i \<and> i < NUM_PAGE_TABLE_ENTRIES \<longrightarrow> entry (mem s) pd (of_nat i) = PAGE_DIR_ENTRY_DEFAULT \<or>
        entry (mem s) pd (of_nat i) AND PAGE_ENTRY_PRESENT \<noteq> 0 \<and> GET_ADDR_FROM_ENTRY (entry (mem s) pd (of_nat i)) \<noteq> 0)"

definition direct_map_ok :: "'a mstate_scheme \<Rightarrow> bool" where
  "direct_map_ok s \<longleftrightarrow> (\<forall>i < KERNEL_MAP_NUM_ENTRIES. 4096 dvd unat (direct_map s i) \<and>
     (\<forall>j < NUM_PAGE_TABLE_ENTRIES. entry (mem s) (direct_map s i) (of_nat j) =
        of_nat (i * NUM_PAGE_TABLE_ENTRIES + j) * PAGE_SIZE OR (PAGE_ENTRY_PRESENT OR READ_WRITE_ENABLE OR GLOBAL_PAGE_ENTRY)))"

lemma fresh_directory:
  assumes "heap_ready s"
  shows "\<exists>pd s'. create_page_directory s = Ok pd s' \<and> heap_ready s' \<and> direct_map s' = direct_map s \<and>
      phys_frames s' = phys_frames s \<and> take_page (malloc_lmm s) = Some (pd, malloc_lmm s') \<and>
      (pd = 0 \<and> mem s' = mem s \<and> lmm_bytes (malloc_lmm s') = lmm_bytes (malloc_lmm s) \<or>
       pd \<noteq> 0 \<and> 4096 dvd unat pd \<and> block pd PAGE_SIZE \<subseteq> lmm_bytes (malloc_lmm s) \<and>
       lmm_bytes (malloc_lmm s') = lmm_bytes (malloc_lmm s) - block pd PAGE_SIZE \<and>
       (\<forall>i < 1024. entry (mem s') pd (of_nat i) =
          (if i < 4 then direct_map s i OR (PAGE_ENTRY_PRESENT OR READ_WRITE_ENABLE) else PAGE_DIR_ENTRY_DEFAULT)) \<and>
       (\<forall>a. unat a \<notin> block pd PAGE_SIZE \<longrightarrow> mem s' a = mem s a))"
proof -
  let ?fill = "\<lambda>pd. kthen (direct_map_kernel_pages pd)
    (kfor [KERNEL_MAP_NUM_ENTRIES..<NUM_PAGE_TABLE_ENTRIES] (\<lambda>i. set_entry pd (of_nat i) PAGE_DIR_ENTRY_DEFAULT))"
  let ?Q = "\<lambda>D pd m. \<forall>i < 1024. entry m pd (of_nat i) =
    (if i < 4 then D i OR (PAGE_ENTRY_PRESENT OR READ_WRITE_ENABLE) else PAGE_DIR_ENTRY_DEFAULT)"
  have fill: "\<exists>m. ?fill p t = Ok () (t\<lparr>mem := m\<rparr>) \<and> ?Q (direct_map t) p m \<and> (\<forall>a. unat a \<notin> block p PAGE_SIZE \<longrightarrow> m a = mem t a)"
    if al: "4096 dvd unat p" for p and t :: "'a mstate_scheme"
  proof -
    have r: "set [0..<KERNEL_MAP_NUM_ENTRIES] \<subseteq> {..<1024}" "set [KERNEL_MAP_NUM_ENTRIES..<NUM_PAGE_TABLE_ENTRIES] \<subseteq> {..<1024}"
      by (auto simp: KERNEL_MAP_NUM_ENTRIES_def NUM_PAGE_TABLE_ENTRIES_def)
    let ?body = "\<lambda>i. kbind (kgets (\<lambda>s. direct_map s i)) (\<lambda>d. set_entry p (of_nat i) (d OR (PAGE_ENTRY_PRESENT OR READ_WRITE_ENABLE)))"
    have "\<forall>i u. direct_map u = direct_map t \<longrightarrow>
        ?body i u = Ok () (upd_mem (store32 (entry_addr p (of_nat i)) (direct_map t i OR (PAGE_ENTRY_PRESENT OR READ_WRITE_ENABLE))) u)"
      by (simp add: kop_defs set_entry_def poke_def)
    from kfor_entries [OF al r(1) distinct_upt, where body = ?body and D = "direct_map t", OF this refl]
    obtain m where m: "direct_map_kernel_pages p t = Ok () (t\<lparr>mem := m\<rparr>)"
      "\<forall>i \<in> set [0..<KERNEL_MAP_NUM_ENTRIES]. entry m p (of_nat i) = direct_map t i OR (PAGE_ENTRY_PRESENT OR READ_WRITE_ENABLE)"
      "\<forall>a. unat a \<notin> block p PAGE_SIZE \<longrightarrow> m a = mem t a"
      by (elim exE conjE) (rule that, unfold direct_map_kernel_pages_def)
    have "\<forall>i (u :: 'a mstate_scheme). direct_map u = direct_map t \<longrightarrow>
        set_entry p (of_nat i) PAGE_DIR_ENTRY_DEFAULT u = Ok () (upd_mem (store32 (entry_addr p (of_nat i)) PAGE_DIR_ENTRY_DEFAULT) u)"
      by (simp add: kop_defs set_entry_def poke_def)
    from kfor_entries [OF al r(2) distinct_upt, where body = "\<lambda>i. set_entry p (of_nat i) PAGE_DIR_ENTRY_DEFAULT"
        and v = "\<lambda>_. PAGE_DIR_ENTRY_DEFAULT", OF this, of "t\<lparr>mem := m\<rparr>"]
    obtain m' where m': "kfor [KERNEL_MAP_NUM_ENTRIES..<NUM_PAGE_TABLE_ENTRIES] (\<lambda>i. set_entry p (of_nat i) PAGE_DIR_ENTRY_DEFAULT)
        (t\<lparr>mem := m\<rparr>) = Ok () (t\<lparr>mem := m'\<rparr>)"
      "\<forall>i \<in> set [KERNEL_MAP_NUM_ENTRIES..<NUM_PAGE_TABLE_ENTRIES]. entry m' p (of_nat i) = PAGE_DIR_ENTRY_DEFAULT"
      "\<forall>i < 1024. i \<notin> set [KERNEL_MAP_NUM_ENTRIES..<NUM_PAGE_TABLE_ENTRIES] \<longrightarrow> entry m' p (of_nat i) = entry m p (of_nat i)"
      "\<forall>a. unat a \<notin> block p PAGE_SIZE \<longrightarrow> m' a = m a"
      by (auto intro: that)
    have "?Q (direct_map t) p m'"
    proof (intro allI impI)
      fix i :: nat
      assume "i < 1024"
      then show "entry m' p (of_nat i) = (if i < 4 then direct_map t i OR (PAGE_ENTRY_PRESENT OR READ_WRITE_ENABLE) else PAGE_DIR_ENTRY_DEFAULT)"
        using m(2) m'(2,3) unfolding set_upt by (cases "i < 4") (simp_all add: KERNEL_MAP_NUM_ENTRIES_def NUM_PAGE_TABLE_ENTRIES_def)
    qed
    moreover have "?fill p t = Ok () (t\<lparr>mem := m'\<rparr>)" by (simp only: kthen_def kbind_def m(1) m'(1) obind_simps)
    ultimately show ?thesis using m(3) m'(4) by (intro exI [of _ m']) simp
  qed
  have eq: "create_page_directory = kbind (smemalign PAGE_SIZE PAGE_SIZE) (\<lambda>p. if p = 0 then kret 0 else kthen (?fill p) (kret p))"
    unfolding create_page_directory_def kthen_assoc ..
  show ?thesis unfolding eq by (rule heap_pages.new_page [where fill = ?fill and Q = ?Q, OF assms fill])
qed

text \<open>
  \<open>paging_ok s\<close>: the heap is in order, the direct map covers the kernel's memory, and its tables are not
  on the heap's free list.
\<close>

definition paging_ok :: "'a mstate_scheme \<Rightarrow> bool" where
  "paging_ok s \<longleftrightarrow> heap_ready s \<and> direct_map_ok s \<and>
     (\<forall>i < KERNEL_MAP_NUM_ENTRIES. block (direct_map s i) PAGE_SIZE \<inter> lmm_bytes (malloc_lmm s) = {})"

lemma page_frame: "4096 dvd unat t \<Longrightarrow> t AND 0xFFFFF000 = (t :: u32)"
  using page_of_nat [of t] by (intro unsigned_word_eqI [where 'a = nat]) (simp add: page_of_def )

lemma GET_ADDR_flags: "4096 dvd unat t \<Longrightarrow> f AND 0xFFFFF000 = 0 \<Longrightarrow> GET_ADDR_FROM_ENTRY (t OR f) = t"
  by (simp add: GET_ADDR_FROM_ENTRY_def bit.conj_disj_distrib2 page_frame)

lemma present_or: "f AND PAGE_ENTRY_PRESENT \<noteq> 0 \<Longrightarrow> (t OR f) AND PAGE_ENTRY_PRESENT \<noteq> 0"
  by (simp add: bit.conj_disj_distrib2 or_eq_0_iff)

lemma entry_frame:
  assumes "4096 dvd unat t" "\<forall>a. unat a \<in> block t PAGE_SIZE \<longrightarrow> m' a = m a" "j < 1024"
  shows "entry m' t (of_nat j) = entry m t (of_nat j)"
proof -
  have "m' (entry_addr t (of_nat j) + of_nat k) = m (entry_addr t (of_nat j) + of_nat k)" if "k < 4" for k
  proof -
    have "unat (entry_addr t (of_nat j) + of_nat k) = unat t + 4 * j + k"
      using entry_addr_nat [OF assms(1,3)] page_room [OF assms(1)] unat_of_small [of k] that assms(3)
        unat_add_less [of "entry_addr t (of_nat j)" "of_nat k"] by simp
    then show ?thesis using assms(2,3) that by (simp add: block_def PAGE_SIZE_def)
  qed
  from this [of 0] this [of 1] this [of 2] this [of 3] show ?thesis by (simp add: entry_def load32_def)
qed

lemma direct_map_entry:
  assumes "direct_map_ok s" "unat a < 2 ^ 24"
  shows "unat a div 2 ^ 22 < 4"
    "GET_ADDR_FROM_ENTRY (entry (mem s) (direct_map s (unat a div 2 ^ 22)) (GET_PT_INDEX a)) = a AND 0xFFFFF000"
    "entry (mem s) (direct_map s (unat a div 2 ^ 22)) (GET_PT_INDEX a) AND PAGE_ENTRY_PRESENT \<noteq> 0"
proof -
  let ?i = "unat a div 2 ^ 22" and ?j = "unat a div 2 ^ 12 mod 2 ^ 10"
  let ?f = "PAGE_ENTRY_PRESENT OR READ_WRITE_ENABLE OR GLOBAL_PAGE_ENTRY"
  show i: "?i < 4" using assms(2) by simp
  have "GET_PT_INDEX a = of_nat ?j" by (simp only: page_index_nat(2) [symmetric] of_nat_unat ucast_id)
  moreover have "?j < 1024" by simp
  ultimately have e: "entry (mem s) (direct_map s ?i) (GET_PT_INDEX a) = of_nat (?i * 1024 + ?j) * PAGE_SIZE OR ?f"
    using assms(1) i unfolding direct_map_ok_def KERNEL_MAP_NUM_ENTRIES_def NUM_PAGE_TABLE_ENTRIES_def by simp
  have "?i = unat a div 4096 div 1024" by (simp add: div_mult2_eq [symmetric])
  then have n: "?i * 1024 + ?j = unat a div 4096" by simp
  have "unat (of_nat (unat a div 4096) * PAGE_SIZE :: u32) = unat a div 4096 * 4096"
    using assms(2) unat_of_small [of "unat a div 4096 * 4096"] by (simp add: PAGE_SIZE_def)
  moreover from this have "of_nat (unat a div 4096) * PAGE_SIZE = a AND 0xFFFFF000"
    by (intro unsigned_word_eqI [where 'a = nat]) (simp only: page_of_nat [of a, unfolded page_of_def ])
  ultimately show "GET_ADDR_FROM_ENTRY (entry (mem s) (direct_map s ?i) (GET_PT_INDEX a)) = a AND 0xFFFFF000"
    unfolding e n using GET_ADDR_flags [of "of_nat (unat a div 4096) * PAGE_SIZE" ?f] by (simp add: vm_consts)
  show "entry (mem s) (direct_map s ?i) (GET_PT_INDEX a) AND PAGE_ENTRY_PRESENT \<noteq> 0"
    unfolding e by (rule present_or) (simp add: vm_consts)
qed

lemma directory_translates:
  assumes "direct_map_ok s" "4096 dvd unat (cr3 s)"
    and "\<forall>i < 1024. entry (mem s) (cr3 s) (of_nat i) =
      (if i < 4 then direct_map s i OR (PAGE_ENTRY_PRESENT OR READ_WRITE_ENABLE) else PAGE_DIR_ENTRY_DEFAULT)"
  shows "translate s a = (if a < USER_MEM_START then Some a else None)"
proof -
  let ?i = "unat a div 2 ^ 22"
  have "?i < 1024" using unat_u32 [of a] by simp
  moreover have "GET_PD_INDEX a = of_nat ?i" by (simp only: page_index_nat(1) [symmetric] of_nat_unat ucast_id)
  ultimately have pde: "entry (mem s) (cr3 s) (GET_PD_INDEX a) =
      (if ?i < 4 then direct_map s ?i OR (PAGE_ENTRY_PRESENT OR READ_WRITE_ENABLE) else PAGE_DIR_ENTRY_DEFAULT)"
    using assms(3) by simp
  show ?thesis
  proof (cases "a < USER_MEM_START")
    case True
    then have u: "unat a < 2 ^ 24" by (simp add: USER_MEM_START_def word_less_nat_alt)
    note e = direct_map_entry [OF assms(1) u]
    have "4096 dvd unat (direct_map s ?i)" using assms(1) e(1) by (simp add: direct_map_ok_def KERNEL_MAP_NUM_ENTRIES_def)
    then have "GET_ADDR_FROM_ENTRY (direct_map s ?i OR (PAGE_ENTRY_PRESENT OR READ_WRITE_ENABLE)) = direct_map s ?i"
      by (rule GET_ADDR_flags) (simp add: vm_consts)
    moreover have "(direct_map s ?i OR (PAGE_ENTRY_PRESENT OR READ_WRITE_ENABLE)) AND PAGE_ENTRY_PRESENT \<noteq> 0"
      by (rule present_or) (simp add: vm_consts)
    moreover have "a AND 0xFFFFF000 OR a AND 0xFFF = a"
    proof -
      have "(0xFFFFF000 OR 0xFFF :: u32) = - 1" by simp
      then show ?thesis by (simp only: bit.conj_disj_distrib [symmetric] bit.conj_one_right)
    qed
    ultimately show ?thesis using True e pde by (simp add: translate_def)
  next
    case False
    then have "\<not> ?i < 4" by (simp add: USER_MEM_START_def word_less_nat_alt)
    then show ?thesis using False pde by (simp add: translate_def) (simp add: vm_consts)
  qed
qed

lemma direct_map_frame:
  assumes "paging_ok s" "direct_map s' = direct_map s" "heap_ready s'" "lmm_bytes (malloc_lmm s') \<subseteq> lmm_bytes (malloc_lmm s)"
    and "\<forall>a. unat a \<notin> lmm_bytes (malloc_lmm s) \<longrightarrow> mem s' a = mem s a"
  shows "paging_ok s'"
proof -
  have "entry (mem s') (direct_map s i) (of_nat j) = entry (mem s) (direct_map s i) (of_nat j)"
    if "i < KERNEL_MAP_NUM_ENTRIES" "j < 1024" for i j
  proof -
    have "4096 dvd unat (direct_map s i)" "block (direct_map s i) PAGE_SIZE \<inter> lmm_bytes (malloc_lmm s) = {}"
      using assms(1) that(1) by (simp_all add: paging_ok_def direct_map_ok_def)
    then show ?thesis using assms(5) that(2) by (intro entry_frame) blast+
  qed
  then have "direct_map_ok s'" using assms(1,2) by (simp add: paging_ok_def direct_map_ok_def NUM_PAGE_TABLE_ENTRIES_def)
  then show ?thesis using assms(1-4) unfolding paging_ok_def by (simp only:) blast
qed

lemma new_directory:
  assumes "paging_ok s"
  shows "\<exists>pd s'. create_page_directory s = Ok pd s' \<and> paging_ok s' \<and> phys_frames s' = phys_frames s \<and>
      take_page (malloc_lmm s) = Some (pd, malloc_lmm s') \<and>
      (pd = 0 \<and> mem s' = mem s \<or>
       pd \<noteq> 0 \<and> directory_ok s' pd \<and> (\<forall>a. unat a \<notin> block pd PAGE_SIZE \<longrightarrow> mem s' a = mem s a) \<and>
       block pd PAGE_SIZE \<subseteq> lmm_bytes (malloc_lmm s) \<and> block pd PAGE_SIZE \<inter> lmm_bytes (malloc_lmm s') = {} \<and>
       (\<forall>a. translate (s'\<lparr>cr3 := pd\<rparr>) a = (if a < USER_MEM_START then Some a else None)))"
proof -
  have "heap_ready s" using assms by (simp add: paging_ok_def)
  from fresh_directory [OF this] obtain pd s' where
    c: "create_page_directory s = Ok pd s'" "heap_ready s'" "direct_map s' = direct_map s" "phys_frames s' = phys_frames s"
      "take_page (malloc_lmm s) = Some (pd, malloc_lmm s')"
      "pd = 0 \<and> mem s' = mem s \<and> lmm_bytes (malloc_lmm s') = lmm_bytes (malloc_lmm s) \<or>
       pd \<noteq> 0 \<and> 4096 dvd unat pd \<and> block pd PAGE_SIZE \<subseteq> lmm_bytes (malloc_lmm s) \<and>
       lmm_bytes (malloc_lmm s') = lmm_bytes (malloc_lmm s) - block pd PAGE_SIZE \<and>
       (\<forall>i < 1024. entry (mem s') pd (of_nat i) =
          (if i < 4 then direct_map s i OR (PAGE_ENTRY_PRESENT OR READ_WRITE_ENABLE) else PAGE_DIR_ENTRY_DEFAULT)) \<and>
       (\<forall>a. unat a \<notin> block pd PAGE_SIZE \<longrightarrow> mem s' a = mem s a)"
    by (elim exE conjE) (rule that)
  have ok: "paging_ok s'" by (rule direct_map_frame [OF assms c(3,2)]) (use c(6) in auto)
  show ?thesis
  proof (cases "pd = 0")
    case True
    then show ?thesis using c ok by (intro exI [of _ pd] exI [of _ s']) simp
  next
    case False
    let ?s = "s'\<lparr>cr3 := pd\<rparr>"
    have n: "4096 dvd unat pd" "block pd PAGE_SIZE \<subseteq> lmm_bytes (malloc_lmm s)"
      "lmm_bytes (malloc_lmm s') = lmm_bytes (malloc_lmm s) - block pd PAGE_SIZE"
      "\<forall>i < 1024. entry (mem s') pd (of_nat i) =
          (if i < 4 then direct_map s i OR (PAGE_ENTRY_PRESENT OR READ_WRITE_ENABLE) else PAGE_DIR_ENTRY_DEFAULT)"
      "\<forall>a. unat a \<notin> block pd PAGE_SIZE \<longrightarrow> mem s' a = mem s a"
      using c(6) False by simp_all
    have "direct_map_ok ?s" using ok by (simp add: paging_ok_def direct_map_ok_def)
    then have t: "translate ?s a = (if a < USER_MEM_START then Some a else None)" for a
      using n(1,4) c(3) by (intro directory_translates) simp_all
    have "directory_ok s' pd"
      using n(1,4) c(3) by (simp add: directory_ok_def KERNEL_MAP_NUM_ENTRIES_def NUM_PAGE_TABLE_ENTRIES_def)
    then show ?thesis using False c(1,4,5) ok n(2,3,5) t by (intro exI [of _ pd] exI [of _ s']) auto
  qed
qed


section \<open>The start of paging\<close>

text \<open>\<open>take_pages n l\<close> is the heap after \<open>n\<close> pages have been taken from it, if it has them.\<close>

fun take_pages :: "nat \<Rightarrow> lmm \<Rightarrow> lmm option" where
  "take_pages 0 l = Some l"
| "take_pages (Suc n) l = (case take_page l of Some (p, l') \<Rightarrow> if p = 0 then None else take_pages n l' | None \<Rightarrow> None)"

definition take_chunk :: "u32 \<Rightarrow> lmm \<Rightarrow> lmm option" where
  "take_chunk sz l = (case lmm_alloc sz 0 l of Some (p, l') \<Rightarrow> if p = 0 then None else Some l' | None \<Rightarrow> None)"

lemma kfor_table:
  assumes "4096 dvd unat t"
  shows "\<exists>m. kfor [0..<NUM_PAGE_TABLE_ENTRIES] (\<lambda>j. set_entry t (of_nat j) (v j)) s = Ok () (s\<lparr>mem := m\<rparr>) \<and>
    (\<forall>j < 1024. entry m t (of_nat j) = v j) \<and> (\<forall>a. unat a \<notin> block t PAGE_SIZE \<longrightarrow> m a = mem s a)"
proof -
  have r: "set [0..<NUM_PAGE_TABLE_ENTRIES] \<subseteq> {..<1024}" by (auto simp: NUM_PAGE_TABLE_ENTRIES_def)
  have "\<forall>j u. direct_map u = direct_map s \<longrightarrow> set_entry t (of_nat j) (v j) u = Ok () (upd_mem (store32 (entry_addr t (of_nat j)) (v j)) u)"
    by (simp add: kop_defs set_entry_def poke_def)
  from kfor_entries [OF assms r distinct_upt, where body = "\<lambda>j. set_entry t (of_nat j) (v j)" and v = v, OF this refl]
  show ?thesis unfolding set_upt by (elim exE conjE) (rule exI, intro conjI; simp add: NUM_PAGE_TABLE_ENTRIES_def)
qed

lemma fresh_table:
  assumes "heap_ready s"
  shows "\<exists>pt s'. create_page_table s = Ok pt s' \<and> heap_ready s' \<and> direct_map s' = direct_map s \<and>
      phys_frames s' = phys_frames s \<and> take_page (malloc_lmm s) = Some (pt, malloc_lmm s') \<and>
      (pt = 0 \<and> mem s' = mem s \<and> lmm_bytes (malloc_lmm s') = lmm_bytes (malloc_lmm s) \<or>
       pt \<noteq> 0 \<and> 4096 dvd unat pt \<and> block pt PAGE_SIZE \<subseteq> lmm_bytes (malloc_lmm s) \<and>
       lmm_bytes (malloc_lmm s') = lmm_bytes (malloc_lmm s) - block pt PAGE_SIZE \<and>
       (\<forall>j < 1024. entry (mem s') pt (of_nat j) = PAGE_TABLE_ENTRY_DEFAULT) \<and>
       (\<forall>a. unat a \<notin> block pt PAGE_SIZE \<longrightarrow> mem s' a = mem s a))"
  unfolding create_page_table_def
  by (rule heap_pages.new_page [where Q = "\<lambda>_ pt m. \<forall>j < 1024. entry m pt (of_nat j) = PAGE_TABLE_ENTRY_DEFAULT", OF assms])
    (rule kfor_table)

text \<open>The first \<open>n\<close> tables of the direct map are in place.\<close>

definition mapped_up_to :: "nat \<Rightarrow> 'a mstate_scheme \<Rightarrow> bool" where
  "mapped_up_to n s \<longleftrightarrow> heap_ready s \<and> (\<forall>i < n. 4096 dvd unat (direct_map s i) \<and>
     block (direct_map s i) PAGE_SIZE \<inter> lmm_bytes (malloc_lmm s) = {} \<and>
     (\<forall>j < NUM_PAGE_TABLE_ENTRIES. entry (mem s) (direct_map s i) (of_nat j) =
        of_nat (i * NUM_PAGE_TABLE_ENTRIES + j) * PAGE_SIZE OR (PAGE_ENTRY_PRESENT OR READ_WRITE_ENABLE OR GLOBAL_PAGE_ENTRY)))"

lemma mapped_up_to_all: "mapped_up_to KERNEL_MAP_NUM_ENTRIES s = paging_ok s"
  by (auto simp: mapped_up_to_def paging_ok_def direct_map_ok_def)

definition direct_map_step :: "nat \<Rightarrow> (unit, 'a mstate_scheme) kop" where
  "direct_map_step i = kbind create_page_table (\<lambda>frame_addr. kseq
     [kernel_assert (frame_addr \<noteq> 0),
      kfor [0..<NUM_PAGE_TABLE_ENTRIES] (\<lambda>j. set_entry frame_addr (of_nat j)
        (of_nat (i * NUM_PAGE_TABLE_ENTRIES + j) * PAGE_SIZE OR (PAGE_ENTRY_PRESENT OR READ_WRITE_ENABLE OR GLOBAL_PAGE_ENTRY))),
      kmodify (\<lambda>s. s\<lparr>direct_map := (direct_map s)(i := frame_addr)\<rparr>)])"

lemma map_next_table:
  assumes "mapped_up_to n s" "take_page (malloc_lmm s) = Some (p, l)" "p \<noteq> 0"
  shows "\<exists>s'. direct_map_step n s = Ok () s' \<and> mapped_up_to (Suc n) s' \<and> malloc_lmm s' = l \<and> phys_frames s' = phys_frames s"
proof -
  let ?v = "\<lambda>j. of_nat (n * NUM_PAGE_TABLE_ENTRIES + j) * PAGE_SIZE OR (PAGE_ENTRY_PRESENT OR READ_WRITE_ENABLE OR GLOBAL_PAGE_ENTRY)"
  have "heap_ready s" using assms(1) by (simp add: mapped_up_to_def)
  from fresh_table [OF this] obtain pt t where
    f: "create_page_table s = Ok pt t" "heap_ready t" "direct_map t = direct_map s" "phys_frames t = phys_frames s"
      "take_page (malloc_lmm s) = Some (pt, malloc_lmm t)"
      "pt = 0 \<and> mem t = mem s \<and> lmm_bytes (malloc_lmm t) = lmm_bytes (malloc_lmm s) \<or>
       pt \<noteq> 0 \<and> 4096 dvd unat pt \<and> block pt PAGE_SIZE \<subseteq> lmm_bytes (malloc_lmm s) \<and>
       lmm_bytes (malloc_lmm t) = lmm_bytes (malloc_lmm s) - block pt PAGE_SIZE \<and>
       (\<forall>j < 1024. entry (mem t) pt (of_nat j) = PAGE_TABLE_ENTRY_DEFAULT) \<and>
       (\<forall>a. unat a \<notin> block pt PAGE_SIZE \<longrightarrow> mem t a = mem s a)"
    by (elim exE conjE) (rule that)
  have e: "pt = p" "malloc_lmm t = l" using f(5) assms(2) by simp_all
  have t: "create_page_table s = Ok p t" "heap_ready t" "direct_map t = direct_map s" "phys_frames t = phys_frames s" "malloc_lmm t = l"
      "4096 dvd unat p" "block p PAGE_SIZE \<subseteq> lmm_bytes (malloc_lmm s)" "lmm_bytes l = lmm_bytes (malloc_lmm s) - block p PAGE_SIZE"
      "\<forall>a. unat a \<notin> block p PAGE_SIZE \<longrightarrow> mem t a = mem s a"
    using f(1-4,6) e assms(3) by simp_all
  from kfor_table [OF t(6), of ?v t] obtain m where
    m: "kfor [0..<NUM_PAGE_TABLE_ENTRIES] (\<lambda>j. set_entry p (of_nat j) (?v j)) t = Ok () (t\<lparr>mem := m\<rparr>)"
      "\<forall>j < 1024. entry m p (of_nat j) = ?v j" "\<forall>a. unat a \<notin> block p PAGE_SIZE \<longrightarrow> m a = mem t a"
    by (elim exE conjE) (rule that)
  let ?s = "t\<lparr>mem := m, direct_map := (direct_map s)(n := p)\<rparr>"
  have run: "direct_map_step n s = Ok () ?s"
    using m(1) t(1,3) assms(3) by (simp add: direct_map_step_def kop_defs)
  have "4096 dvd unat (direct_map ?s i) \<and> block (direct_map ?s i) PAGE_SIZE \<inter> lmm_bytes l = {} \<and>
      (\<forall>j < NUM_PAGE_TABLE_ENTRIES. entry m (direct_map ?s i) (of_nat j) =
        of_nat (i * NUM_PAGE_TABLE_ENTRIES + j) * PAGE_SIZE OR (PAGE_ENTRY_PRESENT OR READ_WRITE_ENABLE OR GLOBAL_PAGE_ENTRY))"
    if "i < Suc n" for i
  proof (cases "i = n")
    case True
    then show ?thesis using m(2) t(6,8) by (auto simp: NUM_PAGE_TABLE_ENTRIES_def)
  next
    case False
    then have o: "4096 dvd unat (direct_map s i)" "block (direct_map s i) PAGE_SIZE \<inter> lmm_bytes (malloc_lmm s) = {}"
      "\<forall>j < NUM_PAGE_TABLE_ENTRIES. entry (mem s) (direct_map s i) (of_nat j) =
        of_nat (i * NUM_PAGE_TABLE_ENTRIES + j) * PAGE_SIZE OR (PAGE_ENTRY_PRESENT OR READ_WRITE_ENABLE OR GLOBAL_PAGE_ENTRY)"
      using assms(1) that unfolding mapped_up_to_def by auto
    have "m a = mem s a" if "unat a \<in> block (direct_map s i) PAGE_SIZE" for a
      using o(2) t(7,9) m(3) that by (metis disjoint_iff subsetD)
    then have "entry m (direct_map s i) (of_nat j) = entry (mem s) (direct_map s i) (of_nat j)" if "j < 1024" for j
      using entry_frame [OF o(1) _ that] by blast
    then show ?thesis using o t(8) False by (auto simp: NUM_PAGE_TABLE_ENTRIES_def)
  qed
  then have "mapped_up_to (Suc n) ?s" using t(2,5) by (simp add: mapped_up_to_def heap_ready_def mutex_free_def)
  then show ?thesis using run t(4,5) by (intro exI [of _ ?s]) simp
qed

lemma map_tables:
  assumes "mapped_up_to k s" "take_pages n (malloc_lmm s) = Some l"
  shows "\<exists>s'. kfor [k..<k + n] direct_map_step s = Ok () s' \<and> mapped_up_to (k + n) s' \<and> malloc_lmm s' = l \<and> phys_frames s' = phys_frames s"
  using assms
proof (induction n arbitrary: k s)
  case 0
  then show ?case by (simp add: kret_def)
next
  case (Suc n)
  from Suc.prems(2) obtain p l1 where p: "take_page (malloc_lmm s) = Some (p, l1)" "p \<noteq> 0" "take_pages n l1 = Some l"
    by (auto split: option.splits if_splits)
  obtain s1 where s1: "direct_map_step k s = Ok () s1" "mapped_up_to (Suc k) s1" "malloc_lmm s1 = l1" "phys_frames s1 = phys_frames s"
    using map_next_table [OF Suc.prems(1) p(1,2)] by (elim exE conjE) (rule that)
  have "[k..<k + Suc n] = k # [Suc k..<Suc k + n]" by (simp add: upt_conv_Cons del: upt_Suc)
  then show ?case
    using Suc.IH [OF s1(2), unfolded s1(3), OF p(3)] s1(1,4) by (simp add: kop_defs del: upt_Suc)
qed

lemma smalloc_chunk:
  assumes "heap_ready s" "take_chunk sz (malloc_lmm s) = Some l" "unat sz + 7 < 2 ^ 32"
  shows "\<exists>p. p \<noteq> 0 \<and> smalloc sz s = Ok p ((settled s)\<lparr>malloc_lmm := l\<rparr>) \<and> heap_ready ((settled s)\<lparr>malloc_lmm := l\<rparr>) \<and>
    lmm_bytes l \<subseteq> lmm_bytes (malloc_lmm s)"
proof -
  let ?t = "(sz + ALIGN_MASK) AND NOT ALIGN_MASK"
  obtain p where p: "lmm_alloc sz 0 (malloc_lmm s) = Some (p, l)" "p \<noteq> 0"
    using assms(2) by (auto simp: take_chunk_def split: option.splits if_splits)
  then have "sz \<noteq> 0" by (auto simp: lmm_alloc_def)
  then have "0 < unat sz" by (simp add: unat_gt_0)
  from round_up_8 [OF assms(3) this] have d: "8 dvd unat ?t" "0 < unat ?t" using \<open>0 < unat sz\<close> by simp_all
  have w: "mutex_free (Malloc_mutex, 0) s" "lmm_wf (malloc_lmm s)" using assms(1) by (simp_all add: heap_ready_def)
  have "alloc_regions ?t 0 (malloc_lmm s) = Some (p, l)" using p(1) \<open>sz \<noteq> 0\<close> by (simp add: lmm_alloc_def)
  with alloc_regions_correct [OF w(2) d, of 0] p(2) have "takes_block (malloc_lmm s) 0 p ?t l" by auto
  then have "lmm_wf l" "map bounds l = map bounds (malloc_lmm s)" "lmm_bytes l \<subseteq> lmm_bytes (malloc_lmm s)"
    by (auto simp: takes_block_def)
  moreover have "smalloc sz s = Ok p ((settled s)\<lparr>malloc_lmm := l\<rparr>)"
    using locked_lmm_call [where f = "lmm_alloc sz 0", OF w(1) p(1)] by (simp add: smalloc_def u_smalloc_def)
  ultimately show ?thesis using p(2) heap_ready_taken [OF assms(1)] by blast
qed

lemma setup_direct_map_maps:
  fixes s :: "'a mstate_scheme"
  assumes "heap_ready s" "take_pages 4 (malloc_lmm s) = Some l"
  shows "\<exists>s'. setup_direct_map s = Ok () s' \<and> paging_ok s' \<and> malloc_lmm s' = l \<and> phys_frames s' = phys_frames s"
proof -
  have "setup_direct_map = (kfor [0..<0 + 4] direct_map_step :: (unit, 'a mstate_scheme) kop)"
    by (simp only: setup_direct_map_def direct_map_step_def [abs_def] KERNEL_MAP_NUM_ENTRIES_def add_0)
  moreover have "mapped_up_to 0 s" using assms(1) by (simp add: mapped_up_to_def)
  from map_tables [OF this assms(2)] have "\<exists>s'. kfor [0..<0 + 4] direct_map_step s = Ok () s' \<and>
      mapped_up_to KERNEL_MAP_NUM_ENTRIES s' \<and> malloc_lmm s' = l \<and> phys_frames s' = phys_frames s"
    by (simp only: KERNEL_MAP_NUM_ENTRIES_def add_0)
  ultimately show ?thesis by (simp only: mapped_up_to_all)
qed

lemma translate_cong: "mem s = mem t \<Longrightarrow> cr3 s = cr3 t \<Longrightarrow> translate s a = translate t a"
  by (simp add: translate_def Let_def)

lemma directory_ok_cong: "mem s = mem t \<Longrightarrow> direct_map s = direct_map t \<Longrightarrow> directory_ok s pd = directory_ok t pd"
  by (simp add: directory_ok_def)

lemma setup_kernel_pd_maps:
  assumes "paging_ok s" "take_page (malloc_lmm s) = Some (p, l1)" "p \<noteq> 0" "take_chunk PAGE_SIZE l1 = Some l2"
  shows "\<exists>s'. setup_kernel_pd s = Ok () s' \<and> paging_ok s' \<and> malloc_lmm s' = l2 \<and> phys_frames s' = phys_frames s \<and>
    directory_ok s' (kernel_pd s') \<and>
    (\<forall>a. translate (s'\<lparr>cr3 := kernel_pd s'\<rparr>) a = (if a < USER_MEM_START then Some a else None))"
proof -
  from new_directory [OF assms(1)] assms(2,3) obtain t where
    t: "create_page_directory s = Ok p t" "paging_ok t" "phys_frames t = phys_frames s" "malloc_lmm t = l1" "directory_ok t p"
      "\<forall>a. translate (t\<lparr>cr3 := p\<rparr>) a = (if a < USER_MEM_START then Some a else None)"
    by auto
  let ?t = "t\<lparr>kernel_pd := p\<rparr>"
  have "heap_ready ?t" using t(2) by (simp add: paging_ok_def heap_ready_def mutex_free_def)
  moreover have "take_chunk PAGE_SIZE (malloc_lmm ?t) = Some l2" using t(4) assms(4) by simp
  moreover have "unat PAGE_SIZE + 7 < 2 ^ 32" by (simp add: PAGE_SIZE_def)
  ultimately obtain q where q: "q \<noteq> 0" "smalloc PAGE_SIZE ?t = Ok q ((settled ?t)\<lparr>malloc_lmm := l2\<rparr>)"
    "heap_ready ((settled ?t)\<lparr>malloc_lmm := l2\<rparr>)" "lmm_bytes l2 \<subseteq> lmm_bytes l1"
    using smalloc_chunk [of ?t PAGE_SIZE l2] t(4) by auto
  let ?s = "(settled ?t)\<lparr>malloc_lmm := l2, dead_thr_kernel_stack := q\<rparr>"
  have "setup_kernel_pd s = Ok () ?s"
    using t(1) q(1,2) assms(3) by (simp add: setup_kernel_pd_def kop_defs)
  moreover have "paging_ok ?s"
    by (rule direct_map_frame [OF t(2)]) (use q(3,4) t(4) in \<open>simp_all add: heap_ready_def mutex_free_def\<close>)
  moreover have "translate (?s\<lparr>cr3 := kernel_pd ?s\<rparr>) a = translate (t\<lparr>cr3 := p\<rparr>) a" for a by (rule translate_cong) simp_all
  moreover have "directory_ok ?s (kernel_pd ?s) = directory_ok t p" by (subst directory_ok_cong [of ?s t]) simp_all
  ultimately show ?thesis using t(3,5,6) by (intro exI [of _ ?s]) simp
qed

lemma take_pages_last:
  "take_pages (Suc n) l = Some l' \<Longrightarrow> \<exists>l1 p. take_pages n l = Some l1 \<and> take_page l1 = Some (p, l') \<and> p \<noteq> 0"
proof (induction n arbitrary: l)
  case (Suc n)
  then show ?case by (subst (asm) (2) take_pages.simps) (auto split: option.splits if_splits)
qed (auto split: option.splits if_splits)

text \<open>A machine with sixteen pages of heap.\<close>

definition boot_machine :: mstate where
  "boot_machine = (upd_links (init_head (waiting_of_mutex (Malloc_mutex, 0))) sample_machine)\<lparr>malloc_lmm := [\<lparr>reg_nodes = [(0x100000, 0x10000)], reg_min = 0x100000,
     reg_max = 0x200000, reg_flags = 0, reg_pri = 0, reg_free = 0x10000\<rparr>]\<rparr>"

lemma boot_machine_ready: "heap_ready boot_machine"
  by (simp add: heap_ready_def mutex_free_def boot_machine_def upd_links_def ring_of_init reg_wf_def)

text \<open>
  C8: \<^verbatim>\<open>create_page_directory\<close> keeps the paging structures well formed.  It returns NULL and changes no memory, or
  it returns a page that was free and is free no longer, writes to that page only, and leaves in it a well-formed
  directory under which the processor maps the kernel's memory to itself and nothing else.
\<close>

theorem create_page_directory_well_formed:
  assumes "paging_ok s"
  shows "\<exists>pd s'. create_page_directory s = Ok pd s' \<and> paging_ok s' \<and>
      (pd = 0 \<and> mem s' = mem s \<or>
       pd \<noteq> 0 \<and> directory_ok s' pd \<and> (\<forall>a. unat a \<notin> block pd PAGE_SIZE \<longrightarrow> mem s' a = mem s a) \<and>
       block pd PAGE_SIZE \<subseteq> lmm_bytes (malloc_lmm s) \<and> block pd PAGE_SIZE \<inter> lmm_bytes (malloc_lmm s') = {} \<and>
       (\<forall>a. translate (s'\<lparr>cr3 := pd\<rparr>) a = (if a < USER_MEM_START then Some a else None)))"
proof -
  from new_directory [OF assms] obtain pd s' where
    "create_page_directory s = Ok pd s'" "paging_ok s'"
    "pd = 0 \<and> mem s' = mem s \<or>
     pd \<noteq> 0 \<and> directory_ok s' pd \<and> (\<forall>a. unat a \<notin> block pd PAGE_SIZE \<longrightarrow> mem s' a = mem s a) \<and>
     block pd PAGE_SIZE \<subseteq> lmm_bytes (malloc_lmm s) \<and> block pd PAGE_SIZE \<inter> lmm_bytes (malloc_lmm s') = {} \<and>
     (\<forall>a. translate (s'\<lparr>cr3 := pd\<rparr>) a = (if a < USER_MEM_START then Some a else None))"
    by (elim exE conjE) (rule that)
  then show ?thesis by (intro exI [of _ pd] exI [of _ s'] conjI)
qed

theorem create_page_directory_well_formed_witness:
  "\<exists>s s'. setup_direct_map boot_machine = Ok () s \<and> create_page_directory s = Ok 0x104000 s' \<and> paging_ok s' \<and>
     directory_ok s' 0x104000 \<and> translate (s'\<lparr>cr3 := 0x104000\<rparr>) 0x00FFFFFF = Some 0x00FFFFFF"
proof -
  let ?l = "[\<lparr>reg_nodes = [(0x104000, 0xC000)], reg_min = 0x100000, reg_max = 0x200000, reg_flags = 0, reg_pri = 0, reg_free = 0xC000\<rparr>]"
  have "take_pages 4 (malloc_lmm boot_machine) = Some ?l"
    by (simp only: boot_machine_def mstate.simps) code_simp
  from setup_direct_map_maps [OF boot_machine_ready this]
  obtain s where s: "setup_direct_map boot_machine = Ok () s" "paging_ok s" "malloc_lmm s = ?l"
    by (elim exE conjE) (rule that)
  have "take_page ?l = Some (0x104000, [\<lparr>reg_nodes = [(0x105000, 0xB000)], reg_min = 0x100000,
     reg_max = 0x200000, reg_flags = 0, reg_pri = 0, reg_free = 0xB000\<rparr>])" by code_simp
  with new_directory [OF s(2)] s(3) obtain s' where c: "create_page_directory s = Ok 0x104000 s'" by auto
  have "paging_ok s' \<and> directory_ok s' 0x104000 \<and> translate (s'\<lparr>cr3 := 0x104000\<rparr>) 0x00FFFFFF = Some 0x00FFFFFF"
    using create_page_directory_well_formed [OF s(2), unfolded c] by (auto simp: USER_MEM_START_def)
  then show ?thesis using s(1) c by blast
qed

lemma vm_init_starts_paging:
  assumes "heap_ready s" "take_pages 5 (malloc_lmm s) = Some l1" "take_chunk PAGE_SIZE l1 = Some l2"
    and "take_chunk (FREE_FRAMES_COUNT s * 4) l2 = Some l3" "unat (FREE_FRAMES_COUNT s * 4) + 7 < 2 ^ 32"
  shows "\<exists>s'. vm_init s = Ok () s' \<and> paging_ok s' \<and> malloc_lmm s' = l3 \<and> bit (cr0 s') 31 \<and> bit (cr4 s') 7 \<and>
    cr3 s' = kernel_pd s' \<and> directory_ok s' (kernel_pd s') \<and> frame_ref_count s' = (\<lambda>_. 0) \<and>
    (\<forall>a. translate s' a = (if a < USER_MEM_START then Some a else None))"
proof -
  have "take_pages (Suc 4) (malloc_lmm s) = Some l1" using assms(2) by (simp add: eval_nat_numeral)
  from take_pages_last [OF this] obtain l0 p where p: "take_pages 4 (malloc_lmm s) = Some l0" "take_page l0 = Some (p, l1)" "p \<noteq> 0"
    by blast
  obtain s1 where s1: "setup_direct_map s = Ok () s1" "paging_ok s1" "malloc_lmm s1 = l0" "phys_frames s1 = phys_frames s"
    using setup_direct_map_maps [OF assms(1) p(1)] by (elim exE conjE) (rule that)
  obtain s2 where s2: "setup_kernel_pd s1 = Ok () s2" "paging_ok s2" "malloc_lmm s2 = l2" "phys_frames s2 = phys_frames s1"
    "directory_ok s2 (kernel_pd s2)"
    "\<forall>a. translate (s2\<lparr>cr3 := kernel_pd s2\<rparr>) a = (if a < USER_MEM_START then Some a else None)"
    using setup_kernel_pd_maps [OF s1(2) _ p(3) assms(3), unfolded s1(3), OF p(2)] by (elim exE conjE) (rule that)
  let ?s3 = "s2\<lparr>cr3 := kernel_pd s2, cr0 := cr0 s2 OR CR0_PG\<rparr>"
  have c: "FREE_FRAMES_COUNT ?s3 = FREE_FRAMES_COUNT s" using s1(4) s2(4) by (simp add: FREE_FRAMES_COUNT_def)
  have "heap_ready ?s3" using s2(2) by (simp add: paging_ok_def heap_ready_def mutex_free_def)
  moreover have "take_chunk (FREE_FRAMES_COUNT s * 4) (malloc_lmm ?s3) = Some l3" using s2(3) assms(4) by simp
  ultimately obtain q where q: "q \<noteq> 0" "smalloc (FREE_FRAMES_COUNT s * 4) ?s3 = Ok q ((settled ?s3)\<lparr>malloc_lmm := l3\<rparr>)"
    "heap_ready ((settled ?s3)\<lparr>malloc_lmm := l3\<rparr>)" "lmm_bytes l3 \<subseteq> lmm_bytes l2"
    using smalloc_chunk [of ?s3 "FREE_FRAMES_COUNT s * 4" l3] assms(5) s2(3) by auto
  let ?s = "(settled ?s3)\<lparr>malloc_lmm := l3, frame_ref_count := (\<lambda>_. 0), cr4 := cr4 s2 OR CR4_PGE\<rparr>"
  have "vm_init s = Ok () ?s"
    using s1(1) s2(1) q(1,2) c
    by (simp add: vm_init_def kop_defs set_kernel_pd_def set_cur_pd_def enable_paging_def init_frame_ref_count_def enable_page_pinning_def)
  moreover have "paging_ok ?s"
    by (rule direct_map_frame [OF s2(2)]) (use q(3,4) s2(3) in \<open>simp_all add: heap_ready_def mutex_free_def\<close>)
  moreover have "translate ?s a = translate (s2\<lparr>cr3 := kernel_pd s2\<rparr>) a" for a by (rule translate_cong) simp_all
  moreover have "directory_ok ?s (kernel_pd ?s) = directory_ok s2 (kernel_pd s2)" by (subst directory_ok_cong [of ?s s2]) simp_all
  ultimately show ?thesis
    using s2(5,6) by (intro exI [of _ ?s]) (simp add: CR0_PG_def CR4_PGE_def bit_simps)
qed

text \<open>
  C9: \<^verbatim>\<open>vm_init\<close>.  If the heap has the five pages and the two blocks it needs, it returns with paging and global
  pages turned on and the kernel's directory in \<^verbatim>\<open>%cr3\<close>; the directory is well formed, the processor maps every
  address below \<^verbatim>\<open>USER_MEM_START\<close> to itself and no address above it, and no frame is referenced.
\<close>

theorem vm_init_maps_kernel:
  assumes "heap_ready s" "take_pages 5 (malloc_lmm s) = Some l1" "take_chunk PAGE_SIZE l1 = Some l2"
    and "take_chunk (FREE_FRAMES_COUNT s * 4) l2 = Some l3" "unat (FREE_FRAMES_COUNT s * 4) + 7 < 2 ^ 32"
  shows "\<exists>s'. vm_init s = Ok () s' \<and> paging_ok s' \<and> malloc_lmm s' = l3 \<and> bit (cr0 s') 31 \<and> bit (cr4 s') 7 \<and>
    cr3 s' = kernel_pd s' \<and> directory_ok s' (kernel_pd s') \<and> frame_ref_count s' = (\<lambda>_. 0) \<and>
    (\<forall>a. translate s' a = (if a < USER_MEM_START then Some a else None))"
  by (rule vm_init_starts_paging [OF assms])

theorem vm_init_maps_kernel_witness:
  "\<exists>s'. vm_init boot_machine = Ok () s' \<and> translate s' 0x00123456 = Some 0x00123456 \<and> translate s' 0x01000000 = None"
proof -
  have "take_pages 5 (malloc_lmm boot_machine) = Some [\<lparr>reg_nodes = [(0x105000, 0xB000)], reg_min = 0x100000,
     reg_max = 0x200000, reg_flags = 0, reg_pri = 0, reg_free = 0xB000\<rparr>]"
    by (simp only: boot_machine_def mstate.simps) code_simp
  moreover have "take_chunk PAGE_SIZE [\<lparr>reg_nodes = [(0x105000, 0xB000)], reg_min = 0x100000,
     reg_max = 0x200000, reg_flags = 0, reg_pri = 0, reg_free = 0xB000\<rparr>] = Some [\<lparr>reg_nodes = [(0x106000, 0xA000)], reg_min = 0x100000,
     reg_max = 0x200000, reg_flags = 0, reg_pri = 0, reg_free = 0xA000\<rparr>]" by code_simp
  moreover have "FREE_FRAMES_COUNT boot_machine * 4 = 16" by (simp add: FREE_FRAMES_COUNT_def boot_machine_def upd_links_def USER_MEM_START_def PAGE_SIZE_def)
  moreover have "take_chunk 16 [\<lparr>reg_nodes = [(0x106000, 0xA000)], reg_min = 0x100000,
     reg_max = 0x200000, reg_flags = 0, reg_pri = 0, reg_free = 0xA000\<rparr>] = Some [\<lparr>reg_nodes = [(0x106010, 0x9FF0)], reg_min = 0x100000,
     reg_max = 0x200000, reg_flags = 0, reg_pri = 0, reg_free = 0x9FF0\<rparr>]" by code_simp
  ultimately obtain s' where "vm_init boot_machine = Ok () s'" "\<forall>a. translate s' a = (if a < USER_MEM_START then Some a else None)"
    using vm_init_maps_kernel [OF boot_machine_ready] by force
  then show ?thesis by (intro exI [of _ s']) (simp add: USER_MEM_START_def)
qed

end
