(* ===== verification/Kernel_Main.thy ===== *)
theory Kernel_Main
  imports Asm Paging
begin

text \<open>
  The start of the kernel, \<^verbatim>\<open>kernel_main\<close> of \<^verbatim>\<open>kern/kernel.c\<close>: the initialisation of every component in turn,
  up to the jump to the idle task.  It does not return: \<open>load_bootstrap_task\<close> ends with the frame with which the
  processor enters user mode, and the loop behind it is never reached.
\<close>

abbreviation (input) boot_devices :: "entry_points \<Rightarrow> (unit, 'a dstate_scheme) kop" where
  "boot_devices ep \<equiv> kseq
     [kmodify set_default_color,
      kbind (install_handlers ep) (\<lambda>r. kernel_assert (r = 0)),
      kbind (install_syscall_handlers ep) (\<lambda>r. kernel_assert (r = 0)),
      kmodify clear_console]"

definition kernel_main :: "image \<Rightarrow> entry_points \<Rightarrow> (user_frame, 'a dstate_scheme) kop" where
  "kernel_main im ep = kthen init_thr_safe_malloc_lib (kthen vm_init (kthen (boot_devices ep) (kthen (kseq
     [init_frame_allocator, init_scheduler, kernel_threads_init, load_init_task im (map of_char ''init'')])
     (load_bootstrap_task im (map of_char ''idle'')))))"

text \<open>
  The first two steps: the heap's mutex is initialised, and then the kernel runs with paging on, its memory
  mapped one to one.  Nothing has to be known of the mutex before.
\<close>

lemma kernel_main_starts_paging:
  assumes "lmm_wf (malloc_lmm s)" "\<forall>r \<in> set (malloc_lmm s). unat (reg_max r) + 2 ^ 12 \<le> 2 ^ 32"
    and "take_pages 5 (malloc_lmm s) = Some l1" "take_chunk PAGE_SIZE l1 = Some l2"
    and "take_chunk (FREE_FRAMES_COUNT s * 4) l2 = Some l3" "unat (FREE_FRAMES_COUNT s * 4) + 7 < 2 ^ 32"
  shows "\<exists>s'. kernel_main im ep s = kthen (boot_devices ep) (kthen (kseq
      [init_frame_allocator, init_scheduler, kernel_threads_init, load_init_task im (map of_char ''init'')])
      (load_bootstrap_task im (map of_char ''idle''))) s' \<and> paging_ok s' \<and> cr3 s' = kernel_pd s' \<and>
    (\<forall>a. translate s' a = (if a < USER_MEM_START then Some a else None))"
proof -
  let ?s = "upd_links (init_head (waiting_of_mutex (Malloc_mutex, 0))) (set_mutex (Malloc_mutex, 0) 1 s)"
  have i: "init_thr_safe_malloc_lib s = Ok () ?s"
    by (simp add: init_thr_safe_malloc_lib_def mutex_init_def kop_defs)
  have "heap_ready ?s" using assms(1,2) by (simp add: heap_ready_def mutex_free_def upd_links_def set_mutex_def ring_of_init)
  moreover have "malloc_lmm ?s = malloc_lmm s" "FREE_FRAMES_COUNT ?s = FREE_FRAMES_COUNT s"
    by (simp_all add: upd_links_def set_mutex_def FREE_FRAMES_COUNT_def)
  ultimately obtain s' where s': "vm_init ?s = Ok () s'" "paging_ok s'" "cr3 s' = kernel_pd s'"
    "\<forall>a. translate s' a = (if a < USER_MEM_START then Some a else None)"
    using vm_init_starts_paging [of ?s l1 l2 l3] assms(3-6) by (simp only:) blast
  then show ?thesis by (intro exI [of _ s']) (simp add: kernel_main_def kthen_def [of init_thr_safe_malloc_lib] kthen_def [of vm_init] kbind_def i)
qed

end
