(* ===== verification/Lmm_Range.thy ===== *)
theory Lmm_Range
  imports Lmm
begin

text \<open>
  The operations of the list memory manager on a range of addresses, \<^verbatim>\<open>lmm_find_free.c\<close> and
  \<^verbatim>\<open>lmm_remove_free.c\<close>, with which the start-up code keeps reserved memory out of the heap.
\<close>

section \<open>The code\<close>

text \<open>
  \<open>find_nodes\<close> is the inner loop of \<^verbatim>\<open>lmm_find_free\<close> over the nodes of a region: \<open>None\<close> when an assertion fails,
  otherwise the new lowest address, size and flags.
\<close>

fun find_nodes :: "lmm_region \<Rightarrow> u32 \<Rightarrow> u32 \<times> u32 \<times> u32 \<Rightarrow> (u32 \<times> u32) list \<Rightarrow> (u32 \<times> u32 \<times> u32) option" where
  "find_nodes reg start lowest [] = Some lowest"
| "find_nodes reg start lowest ((a, n) # ns) =
     (if \<not> (a \<ge> reg_min reg \<and> a < reg_max reg) then None
      else if a \<ge> fst lowest then Some lowest
      else if a + n > start
      then Some (if a > start then (a, n, reg_flags reg) else (start, n - (start - a), reg_flags reg))
      else find_nodes reg start lowest ns)"

fun find_free_regions :: "u32 \<Rightarrow> u32 \<times> u32 \<times> u32 \<Rightarrow> lmm \<Rightarrow> (u32 \<times> u32 \<times> u32) option" where
  "find_free_regions start lowest [] = Some lowest"
| "find_free_regions start lowest (r # rs) =
     (if reg_nodes r = [] \<or> reg_max r \<le> start \<or> reg_min r > fst lowest then find_free_regions start lowest rs
      else Option.bind (find_nodes r start lowest (reg_nodes r)) (\<lambda>l. find_free_regions start l rs))"

definition lmm_find_free :: "u32 \<Rightarrow> lmm \<Rightarrow> (u32 \<times> u32 \<times> u32) option" where
  "lmm_find_free addr lmm = find_free_regions ((addr + ALIGN_MASK) AND NOT ALIGN_MASK) (- 1, 0, 0) lmm"

text \<open>The loop of \<^verbatim>\<open>lmm_remove_free\<close>; the result is \<open>None\<close> if it does not end and \<open>Some None\<close> if an assertion fails.\<close>

partial_function (option) remove_loop :: "u32 \<Rightarrow> u32 \<Rightarrow> u32 \<Rightarrow> lmm \<Rightarrow> lmm option option" where
  "remove_loop blk rend rstart lmm =
     (if \<not> rstart < rend then Some (Some lmm)
      else case lmm_find_free rstart lmm of
          None \<Rightarrow> Some None
        | Some (found, sz, flags) \<Rightarrow>
            if found < blk then Some None
            else if sz = 0 \<or> found \<ge> rend then Some (Some lmm)
            else let sz' = (if found + sz > rend then rend - found else sz)
              in case lmm_alloc_gen sz' flags 0 0 found sz' lmm of
                  None \<Rightarrow> Some None
                | Some (p, lmm') \<Rightarrow> if p \<noteq> found then Some None else remove_loop blk rend found lmm')"

definition lmm_remove_free :: "u32 \<Rightarrow> u32 \<Rightarrow> lmm \<Rightarrow> lmm option option" where
  "lmm_remove_free blk block_size lmm =
     (let rend = blk + block_size in if \<not> rend > blk then Some None else remove_loop blk rend blk lmm)"

declare remove_loop.simps [code]

text \<open>A range that covers the end of one free block and the start of the next.\<close>

lemma remove_sample:
  "lmm_remove_free 0x100400 0x2C00 sample_lmm = Some (Some
     [\<lparr>reg_nodes = [(0x100000, 0x400), (0x103000, 0x3000)], reg_min = 0x100000, reg_max = 0x200000,
       reg_flags = 0, reg_pri = 1, reg_free = 0x3400\<rparr>])"
  by code_simp

end
