(* ===== verification/Userlib.thy ===== *)
theory Userlib
  imports Kernel_State
begin

text \<open>
  The thread library of user programs, \<^verbatim>\<open>user/libthread\<close>: spinning mutexes (\<^verbatim>\<open>mutex.c\<close>), condition variables
  (\<^verbatim>\<open>cond_var.c\<close>), semaphores (\<^verbatim>\<open>sem.c\<close>), reader/writer locks (\<^verbatim>\<open>rwlock.c\<close>), the locked \<^verbatim>\<open>malloc\<close> (\<^verbatim>\<open>malloc.c\<close>); \<^verbatim>\<open>thread.c\<close> is
  in \<open>Userthread\<close>.  An operation is a resumption as in the kernel; a user thread can be preempted between
  any two accesses to shared memory, so every access begins with a point where the others may run (\<open>preempt\<close>).

  The library's \<^verbatim>\<open>list.c\<close> is a copy of a part of the kernel's, so its lists are those of \<open>Link_List\<close>.  The
  system calls appear with the effect the kernel gives them: \<^verbatim>\<open>deschedule\<close> parks the caller, \<^verbatim>\<open>make_runnable\<close>
  takes a thread out of the parked ones.  Where \<^verbatim>\<open>_malloc\<close> finds memory is left open: the field \<open>answers\<close> holds
  the addresses it will return, and it fails when there are none left.
\<close>

section \<open>The state\<close>

datatype ucond = Program_cond nat | Rw_readers nat | Rw_writers nat | Sem_cond nat | Tcb_waiting nat

datatype umutex = Program_mutex nat | Rw_mutex nat | Sem_mutex nat | Tcb_mutex nat | Cv_mutex ucond | Tcb_lock | Heap_mutex

datatype unode = Waiting_head ucond | Blocked_link nat | Tcb_head | Tcb_link nat

record blocked_thread =
  bt_tid :: int
  reject :: int

record rwlock_t =
  rw_type :: int
  num_writers :: int
  curr_readers :: int

record sem_t =
  sem_count :: int
  sem_valid :: int

record tcb_t =
  tcb_id :: int
  exited :: int
  stack_base :: nat
  tcb_status :: u32

record ustate =
  uvalue :: "umutex \<Rightarrow> int"
  ustatus :: "ucond \<Rightarrow> int"
  ulinks :: "unode link_heap"
  blocked_threads :: "nat \<Rightarrow> blocked_thread"
  rwlocks :: "nat \<Rightarrow> rwlock_t"
  sems :: "nat \<Rightarrow> sem_t"
  tcbs :: "nat \<Rightarrow> tcb_t"
  heap_initialized :: bool
  answers :: "nat list"
  parked :: "int set"
  user_stack_size :: nat

abbreviation upd_rwlock :: "nat \<Rightarrow> (rwlock_t \<Rightarrow> rwlock_t) \<Rightarrow> ustate \<Rightarrow> ustate" where
  "upd_rwlock r f s \<equiv> s\<lparr>rwlocks := (rwlocks s)(r := f (rwlocks s r))\<rparr>"

abbreviation upd_sem :: "nat \<Rightarrow> (sem_t \<Rightarrow> sem_t) \<Rightarrow> ustate \<Rightarrow> ustate" where
  "upd_sem r f s \<equiv> s\<lparr>sems := (sems s)(r := f (sems s r))\<rparr>"

abbreviation upd_tcb :: "nat \<Rightarrow> (tcb_t \<Rightarrow> tcb_t) \<Rightarrow> ustate \<Rightarrow> ustate" where
  "upd_tcb a f s \<equiv> s\<lparr>tcbs := (tcbs s)(a := f (tcbs s a))\<rparr>"

abbreviation upd_blocked :: "nat \<Rightarrow> (blocked_thread \<Rightarrow> blocked_thread) \<Rightarrow> ustate \<Rightarrow> ustate" where
  "upd_blocked a f s \<equiv> s\<lparr>blocked_threads := (blocked_threads s)(a := f (blocked_threads s a))\<rparr>"

abbreviation upd_ulinks :: "(unode link_heap \<Rightarrow> unode link_heap) \<Rightarrow> ustate \<Rightarrow> ustate" where
  "upd_ulinks f s \<equiv> s\<lparr>ulinks := f (ulinks s)\<rparr>"

abbreviation set_uvalue :: "umutex \<Rightarrow> int \<Rightarrow> ustate \<Rightarrow> ustate" where
  "set_uvalue m v s \<equiv> s\<lparr>uvalue := (uvalue s)(m := v)\<rparr>"

text \<open>An access to shared memory: the others may run before it.\<close>

definition preempt :: "(unit, ustate) kop" where
  "preempt = kswitch id"

definition uread :: "(ustate \<Rightarrow> 'a) \<Rightarrow> ('a, ustate) kop" where
  "uread f = kthen preempt (kgets f)"

definition uwrite :: "(ustate \<Rightarrow> ustate) \<Rightarrow> (unit, ustate) kop" where
  "uwrite f = kthen preempt (kmodify f)"

abbreviation (input) U_ERR_INVAL :: int where "U_ERR_INVAL \<equiv> - 1"
abbreviation (input) U_ERR_NOMEM :: int where "U_ERR_NOMEM \<equiv> - 3"
abbreviation (input) U_MUTEX_VALID :: int where "U_MUTEX_VALID \<equiv> 1"
abbreviation (input) U_MUTEX_INVALID :: int where "U_MUTEX_INVALID \<equiv> 0"
abbreviation (input) U_COND_VALID :: int where "U_COND_VALID \<equiv> 1"
abbreviation (input) U_COND_INVALID :: int where "U_COND_INVALID \<equiv> 0"
abbreviation (input) RWLOCK_READ :: int where "RWLOCK_READ \<equiv> 0"
abbreviation (input) RWLOCK_WRITE :: int where "RWLOCK_WRITE \<equiv> 1"
abbreviation (input) RWLOCK_FREE :: int where "RWLOCK_FREE \<equiv> 2"
abbreviation (input) RWLOCK_INVALID :: int where "RWLOCK_INVALID \<equiv> - 1"

section \<open>Mutexes\<close>

definition test_and_unset :: "umutex \<Rightarrow> (int, ustate) kop" where
  "test_and_unset m = kthen preempt (\<lambda>s. Ok (uvalue s m) (set_uvalue m 0 s))"

definition test_and_set :: "umutex \<Rightarrow> (int, ustate) kop" where
  "test_and_set m = kthen preempt (\<lambda>s. Ok (uvalue s m) (set_uvalue m 1 s))"

definition umutex_init :: "umutex option \<Rightarrow> (int, ustate) kop" where
  "umutex_init mp = (case mp of
      None \<Rightarrow> kret U_ERR_INVAL
    | Some m \<Rightarrow> kthen (uwrite (set_uvalue m U_MUTEX_VALID)) (kret 0))"

definition umutex_destroy :: "umutex option \<Rightarrow> (unit, ustate) kop" where
  "umutex_destroy mp = (case mp of
      None \<Rightarrow> kret ()
    | Some m \<Rightarrow> uwrite (set_uvalue m U_MUTEX_INVALID))"

definition umutex_lock :: "umutex \<Rightarrow> (unit, ustate) kop" where
  "umutex_lock m = kbind (test_and_unset m) (\<lambda>v.
     kbind (kwhile (\<lambda>v _. v = 0) (\<lambda>_. test_and_unset m) v) (\<lambda>_. kret ()))"

definition umutex_unlock :: "umutex \<Rightarrow> (unit, ustate) kop" where
  "umutex_unlock m = kbind (test_and_set m) (\<lambda>_. kret ())"

section \<open>The locked heap\<close>

definition u_init_mutex :: "(unit, ustate) kop" where
  "u_init_mutex = kbind (umutex_init (Some Heap_mutex)) (\<lambda>_. uwrite (\<lambda>s. s\<lparr>heap_initialized := True\<rparr>))"

definition raw_malloc :: "(nat, ustate) kop" where
  "raw_malloc = kthen preempt (\<lambda>s. case answers s of [] \<Rightarrow> Ok 0 s | a # as \<Rightarrow> Ok a (s\<lparr>answers := as\<rparr>))"

definition umalloc :: "(nat, ustate) kop" where
  "umalloc = kbind (uread heap_initialized) (\<lambda>i.
     kthen (kwhen (\<not> i) u_init_mutex)
     (kthen (umutex_lock Heap_mutex)
     (kbind raw_malloc (\<lambda>allocated.
      kthen (umutex_unlock Heap_mutex) (kret allocated)))))"

definition ufree :: "nat \<Rightarrow> (unit, ustate) kop" where
  "ufree buf = kbind (uread heap_initialized) (\<lambda>i. kseq
     [kwhen (\<not> i) u_init_mutex, umutex_lock Heap_mutex, preempt, umutex_unlock Heap_mutex])"

section \<open>Waiting and waking\<close>

text \<open>\<^verbatim>\<open>deschedule(&t->reject)\<close> and \<^verbatim>\<open>make_runnable\<close>, as system calls of the thread \<open>tid\<close>.\<close>

definition udeschedule :: "int \<Rightarrow> nat \<Rightarrow> (unit, ustate) kop" where
  "udeschedule tid t = kthen preempt (\<lambda>s.
     if reject (blocked_threads s t) \<noteq> 0 then Ok () s
     else kthen (kmodify (\<lambda>s. s\<lparr>parked := insert tid (parked s)\<rparr>))
       (kwhile (\<lambda>_ s. tid \<in> parked s) (\<lambda>_. preempt) ()) s)"

definition umake_runnable :: "int \<Rightarrow> (int, ustate) kop" where
  "umake_runnable tid = kthen preempt (\<lambda>s.
     if tid \<notin> parked s then Ok ERR_INVAL s else Ok 0 (s\<lparr>parked := parked s - {tid}\<rparr>))"

abbreviation (input) die :: "(unit, ustate) kop" where "die \<equiv> \<lambda>s. Gone s"

section \<open>Condition variables\<close>

definition ucond_init :: "ucond option \<Rightarrow> (int, ustate) kop" where
  "ucond_init cvp = (case cvp of
      None \<Rightarrow> kret U_ERR_INVAL
    | Some cv \<Rightarrow> kthen (uwrite (\<lambda>s. s\<lparr>ustatus := (ustatus s)(cv := U_COND_VALID)\<rparr>))
        (kbind (umutex_init (Some (Cv_mutex cv))) (\<lambda>r.
          if r < 0 then kret U_ERR_INVAL
          else kthen (uwrite (upd_ulinks (init_head (Waiting_head cv)))) (kret 0))))"

definition ucond_destroy :: "ucond option \<Rightarrow> (unit, ustate) kop" where
  "ucond_destroy cvp = (case cvp of
      None \<Rightarrow> kret ()
    | Some cv \<Rightarrow> kseq [umutex_destroy (Some (Cv_mutex cv)), uwrite (\<lambda>s. s\<lparr>ustatus := (ustatus s)(cv := U_COND_INVALID)\<rparr>)])"

definition ucond_wait :: "int \<Rightarrow> ucond \<Rightarrow> umutex \<Rightarrow> (unit, ustate) kop" where
  "ucond_wait tid cv mp = kbind (uread (\<lambda>s. ustatus s cv)) (\<lambda>st.
     if st = U_COND_INVALID then kret ()
     else kbind umalloc (\<lambda>t. kseq
       [kwhen (t = 0) die,
        uwrite (upd_blocked t (\<lambda>b. b\<lparr>bt_tid := tid\<rparr>)),
        uwrite (upd_blocked t (\<lambda>b. b\<lparr>reject := 0\<rparr>)),
        umutex_lock (Cv_mutex cv),
        uwrite (upd_ulinks (add_to_tail (Blocked_link t) (Waiting_head cv))),
        umutex_unlock (Cv_mutex cv),
        umutex_unlock mp,
        udeschedule tid t,
        umutex_lock mp,
        umutex_lock (Cv_mutex cv),
        uwrite (upd_ulinks (del_entry (Blocked_link t))),
        ufree t,
        umutex_unlock (Cv_mutex cv)]))"

text \<open>The structure around a link; a list head is not in one.\<close>

fun uentry :: "unode \<Rightarrow> nat option" where
  "uentry (Blocked_link t) = Some t"
| "uentry (Tcb_link a) = Some a"
| "uentry _ = None"

definition wake_blocked :: "unode \<Rightarrow> (unit, ustate) kop" where
  "wake_blocked n = kbind (uread (\<lambda>s. bt_tid (blocked_threads s (the (uentry n))))) (\<lambda>next_tid.
     kthen (uwrite (upd_blocked (the (uentry n)) (\<lambda>b. b\<lparr>reject := 1\<rparr>)))
     (kbind (umake_runnable next_tid) (\<lambda>_. kret ())))"

definition ucond_signal :: "ucond \<Rightarrow> (unit, ustate) kop" where
  "ucond_signal cv = kbind (uread (\<lambda>s. ustatus s cv)) (\<lambda>st.
     if st = U_COND_INVALID then kret ()
     else kthen (umutex_lock (Cv_mutex cv))
       (kbind (uread (\<lambda>s. get_first (Waiting_head cv) (ulinks s))) (\<lambda>waiting_thread. kseq
         [case waiting_thread of None \<Rightarrow> kret () | Some n \<Rightarrow> wake_blocked n,
          umutex_unlock (Cv_mutex cv)])))"

definition ucond_broadcast :: "ucond \<Rightarrow> (unit, ustate) kop" where
  "ucond_broadcast cv = kbind (uread (\<lambda>s. ustatus s cv)) (\<lambda>st.
     if st = U_COND_INVALID then kret ()
     else kthen (umutex_lock (Cv_mutex cv))
       (kbind (uread (\<lambda>s. get_first (Waiting_head cv) (ulinks s))) (\<lambda>first.
         kbind (kwhile (\<lambda>w _. w \<noteq> None \<and> w \<noteq> Some (Waiting_head cv))
             (\<lambda>w. kthen (wake_blocked (the w)) (uread (\<lambda>s. Some (nxt (ulinks s) (the w))))) first)
           (\<lambda>_. umutex_unlock (Cv_mutex cv)))))"

text \<open>
  The loop around a call of \<^verbatim>\<open>cond_wait\<close>.  The fields its condition reads are accessed only with the mutex held, so
  they are read together, as is a field that is incremented or decremented.
\<close>

definition while_waiting :: "(ustate \<Rightarrow> bool) \<Rightarrow> (unit, ustate) kop \<Rightarrow> (unit, ustate) kop" where
  "while_waiting c wait = kthen preempt (kwhile (\<lambda>_. c) (\<lambda>_. kthen wait preempt) ())"

section \<open>Semaphores\<close>

definition usem_init :: "nat option \<Rightarrow> int \<Rightarrow> (int, ustate) kop" where
  "usem_init semp count = (case semp of
      None \<Rightarrow> kret (- 1)
    | Some r \<Rightarrow> if count \<le> 0 then kret (- 1)
        else kbind (umutex_init (Some (Sem_mutex r))) (\<lambda>_. kbind (ucond_init (Some (Sem_cond r))) (\<lambda>_.
          kthen (kseq [uwrite (upd_sem r (\<lambda>m. m\<lparr>sem_count := count\<rparr>)), uwrite (upd_sem r (\<lambda>m. m\<lparr>sem_valid := 1\<rparr>))])
            (kret 0))))"

definition usem_wait :: "int \<Rightarrow> nat option \<Rightarrow> (unit, ustate) kop" where
  "usem_wait tid semp = (case semp of
      None \<Rightarrow> kret ()
    | Some r \<Rightarrow> kbind (uread (\<lambda>s. sem_valid (sems s r))) (\<lambda>v. if v = 0 then kret ()
        else kseq
          [umutex_lock (Sem_mutex r),
           while_waiting (\<lambda>s. sem_count (sems s r) = 0) (ucond_wait tid (Sem_cond r) (Sem_mutex r)),
           uwrite (upd_sem r (\<lambda>m. m\<lparr>sem_count := sem_count m - 1\<rparr>)),
           umutex_unlock (Sem_mutex r)]))"

definition usem_signal :: "nat option \<Rightarrow> (unit, ustate) kop" where
  "usem_signal semp = (case semp of
      None \<Rightarrow> kret ()
    | Some r \<Rightarrow> kbind (uread (\<lambda>s. sem_valid (sems s r))) (\<lambda>v. if v = 0 then kret ()
        else kseq
          [umutex_lock (Sem_mutex r),
           uwrite (upd_sem r (\<lambda>m. m\<lparr>sem_count := sem_count m + 1\<rparr>)),
           ucond_signal (Sem_cond r),
           umutex_unlock (Sem_mutex r)]))"

definition usem_destroy :: "nat \<Rightarrow> (unit, ustate) kop" where
  "usem_destroy r = uwrite (upd_sem r (\<lambda>m. m\<lparr>sem_valid := 0\<rparr>))"

section \<open>Reader/writer locks\<close>

definition rwlock_init :: "nat \<Rightarrow> (int, ustate) kop" where
  "rwlock_init r = kbind (umutex_init (Some (Rw_mutex r))) (\<lambda>_. kbind (ucond_init (Some (Rw_readers r))) (\<lambda>_.
     kbind (ucond_init (Some (Rw_writers r))) (\<lambda>_. kthen (kseq
       [uwrite (upd_rwlock r (\<lambda>l. l\<lparr>rw_type := RWLOCK_FREE\<rparr>)),
        uwrite (upd_rwlock r (\<lambda>l. l\<lparr>num_writers := 0\<rparr>)),
        uwrite (upd_rwlock r (\<lambda>l. l\<lparr>curr_readers := 0\<rparr>))]) (kret 0))))"

text \<open>The conditions of the loops of \<^verbatim>\<open>rwlock_lock\<close>.\<close>

definition writer_waits :: "nat \<Rightarrow> ustate \<Rightarrow> bool" where
  "writer_waits r s \<longleftrightarrow> rw_type (rwlocks s r) \<noteq> RWLOCK_FREE \<and> curr_readers (rwlocks s r) > 0"

definition reader_waits :: "nat \<Rightarrow> ustate \<Rightarrow> bool" where
  "reader_waits r s \<longleftrightarrow> rw_type (rwlocks s r) = RWLOCK_WRITE \<or> num_writers (rwlocks s r) > 0"

definition rwlock_lock :: "int \<Rightarrow> nat option \<Rightarrow> int \<Rightarrow> (unit, ustate) kop" where
  "rwlock_lock tid lock type = (case lock of
      None \<Rightarrow> kret ()
    | Some r \<Rightarrow> if type \<noteq> RWLOCK_READ \<and> type \<noteq> RWLOCK_WRITE then kret ()
      else kseq
        [umutex_lock (Rw_mutex r),
         if type = RWLOCK_WRITE then kseq
           [uwrite (upd_rwlock r (\<lambda>l. l\<lparr>num_writers := num_writers l + 1\<rparr>)),
            while_waiting (writer_waits r) (ucond_wait tid (Rw_writers r) (Rw_mutex r)),
            uwrite (upd_rwlock r (\<lambda>l. l\<lparr>rw_type := RWLOCK_WRITE\<rparr>))]
         else kseq
           [while_waiting (reader_waits r) (ucond_wait tid (Rw_readers r) (Rw_mutex r)),
            uwrite (upd_rwlock r (\<lambda>l. l\<lparr>curr_readers := curr_readers l + 1\<rparr>)),
            uwrite (upd_rwlock r (\<lambda>l. l\<lparr>rw_type := RWLOCK_READ\<rparr>))],
         umutex_unlock (Rw_mutex r)])"

definition rwlock_unlock :: "nat option \<Rightarrow> (unit, ustate) kop" where
  "rwlock_unlock lock = (case lock of
      None \<Rightarrow> kret ()
    | Some r \<Rightarrow> kseq
        [umutex_lock (Rw_mutex r),
         kbind (uread (\<lambda>s. rw_type (rwlocks s r))) (\<lambda>type.
           if type = RWLOCK_WRITE then kseq
             [uwrite (upd_rwlock r (\<lambda>l. l\<lparr>num_writers := num_writers l - 1\<rparr>)),
              uwrite (upd_rwlock r (\<lambda>l. l\<lparr>rw_type := RWLOCK_FREE\<rparr>)),
              ucond_broadcast (Rw_readers r),
              ucond_signal (Rw_writers r)]
           else if type = RWLOCK_READ then kthen
             (uwrite (upd_rwlock r (\<lambda>l. l\<lparr>curr_readers := curr_readers l - 1\<rparr>)))
             (kbind (uread (\<lambda>s. curr_readers (rwlocks s r))) (\<lambda>n. kwhen (n = 0) (kseq
               [uwrite (upd_rwlock r (\<lambda>l. l\<lparr>rw_type := RWLOCK_FREE\<rparr>)),
                ucond_broadcast (Rw_readers r),
                ucond_signal (Rw_writers r)])))
           else kret ()),
         umutex_unlock (Rw_mutex r)])"

definition rwlock_destroy :: "nat \<Rightarrow> (unit, ustate) kop" where
  "rwlock_destroy r = uwrite (upd_rwlock r (\<lambda>l. l\<lparr>rw_type := RWLOCK_INVALID\<rparr>))"

definition rwlock_downgrade :: "nat option \<Rightarrow> (unit, ustate) kop" where
  "rwlock_downgrade lock = (case lock of
      None \<Rightarrow> kret ()
    | Some r \<Rightarrow> kthen (umutex_lock (Rw_mutex r))
        (kbind (uread (\<lambda>s. rw_type (rwlocks s r))) (\<lambda>type.
          if type \<noteq> RWLOCK_WRITE then umutex_unlock (Rw_mutex r)
          else kseq
            [uwrite (upd_rwlock r (\<lambda>l. l\<lparr>num_writers := num_writers l - 1\<rparr>)),
             uwrite (upd_rwlock r (\<lambda>l. l\<lparr>curr_readers := curr_readers l + 1\<rparr>)),
             uwrite (upd_rwlock r (\<lambda>l. l\<lparr>rw_type := RWLOCK_READ\<rparr>)),
             ucond_broadcast (Rw_readers r),
             umutex_unlock (Rw_mutex r)])))"

section \<open>Runs without interference\<close>

lemma completes_Ok_iff [simp]: "completes R (Ok y s) x t \<longleftrightarrow> x = y \<and> t = s"
  by (auto intro: completes.intros elim: completes.cases)

lemma completes_Stop [simp]: "\<not> completes R (Stop e) x t"
  by (auto elim: completes.cases)

lemma completes_Blocked_iff: "completes R (Blocked s k) x t \<longleftrightarrow> (\<exists>s'. R s s' \<and> completes R (k s') x t)"
  by (auto intro: completes.intros elim: completes.cases)

lemma completes_obindD:
  assumes "completes R (obind m f) y t"
  shows "\<exists>x u. completes R m x u \<and> completes R (f x u) y t"
proof -
  have "\<forall>m. n = obind m f \<longrightarrow> (\<exists>x u. completes R m x u \<and> completes R (f x u) y t)" if "completes R n y t" for n
    using that
  proof (induction rule: completes.induct)
    case (completes_Ok x s)
    show ?case
    proof (intro allI impI)
      fix m
      assume "Ok x s = obind m f"
      then obtain z u where "m = Ok z u" "f z u = Ok x s" by (metis obind_Ok_iff)
      then show "\<exists>z u. completes R m z u \<and> completes R (f z u) x s" by auto
    qed
  next
    case (completes_Blocked s s' k x s'')
    show ?case
    proof (intro allI impI)
      fix m
      assume e: "Blocked s k = obind m f"
      show "\<exists>z u. completes R m z u \<and> completes R (f z u) x s''"
      proof (cases m)
        case (Ok z u)
        then have "f z u = Blocked s k" using e by simp
        then show ?thesis
          using Ok completes_Blocked.hyps by (intro exI [of _ z] exI [of _ u]) (auto simp: completes_Blocked_iff)
      next
        case (Blocked v l)
        then have k: "s = v" "k s' = obind (l s') f" using e by simp_all
        then obtain z u where "completes R (l s') z u" "completes R (f z u) x s''"
          using completes_Blocked.IH by blast
        then show ?thesis
          using Blocked k(1) completes_Blocked.hyps(1) by (auto simp: completes_Blocked_iff)
      next
        case (Stop e')
        then show ?thesis using e by simp
      qed
    qed
  qed
  then show ?thesis using assms by blast
qed

abbreviation alone :: "('a, 's) outcome \<Rightarrow> 'a \<Rightarrow> 's \<Rightarrow> bool" where
  "alone \<equiv> completes (=)"

lemma alone_Blocked [simp]: "alone (Blocked s k) x t \<longleftrightarrow> alone (k s) x t"
  by (simp add: completes_Blocked_iff)

lemma alone_unique: "alone m x t \<Longrightarrow> alone m y u \<Longrightarrow> y = x \<and> u = t"
  by (induction rule: completes.induct) auto

lemma alone_obind: "alone m x u \<Longrightarrow> alone (obind m f) y t \<longleftrightarrow> alone (f x u) y t"
  by (induction rule: completes.induct) simp_all

lemma alone_result: "alone m x u \<Longrightarrow> alone m y t \<longleftrightarrow> y = x \<and> t = u"
  using alone_unique [of m x u y t] by auto

lemmas step_defs = preempt_def uread_def uwrite_def kop_defs

lemma lock_alone:
  assumes "uvalue s m \<noteq> 0"
  shows "alone (umutex_lock m s) () (set_uvalue m 0 s)"
  using assms by (simp add: umutex_lock_def test_and_unset_def step_defs kwhile_unfold)

lemma unlock_alone: "alone (umutex_unlock m s) () (set_uvalue m 1 s)"
  by (simp add: umutex_unlock_def test_and_set_def step_defs)

lemmas lock_run [simp] = lock_alone [THEN alone_obind] lock_alone [THEN alone_result]
lemmas unlock_run [simp] = unlock_alone [THEN alone_obind] unlock_alone [THEN alone_result]

section \<open>Invariants under interference\<close>

text \<open>
  \<open>keeps I m\<close>: whenever the others keep \<open>I\<close> while the operation is interrupted, it keeps \<open>I\<close> itself; \<open>steady I f\<close>
  is this for an operation started where \<open>I\<close> holds.
\<close>

coinductive keeps :: "('s \<Rightarrow> bool) \<Rightarrow> ('a, 's) outcome \<Rightarrow> bool" for I where
  keeps_Ok: "I s \<Longrightarrow> keeps I (Ok x s)"
| keeps_Blocked: "I s \<Longrightarrow> (\<forall>s'. I s' \<longrightarrow> keeps I (k s')) \<Longrightarrow> keeps I (Blocked s k)"
| keeps_Stop: "keeps I (Stop e)"

inductive_simps keeps_simps [simp]: "keeps I (Ok x s)" "keeps I (Blocked s k)" "keeps I (Stop e)"

definition steady :: "('s \<Rightarrow> bool) \<Rightarrow> ('a, 's) kop \<Rightarrow> bool" where
  "steady I f \<longleftrightarrow> (\<forall>s. I s \<longrightarrow> keeps I (f s))"

lemma keeps_completes: "completes R m x t \<Longrightarrow> keeps I m \<Longrightarrow> (\<And>s s'. R s s' \<Longrightarrow> I s \<Longrightarrow> I s') \<Longrightarrow> I t"
  by (induction rule: completes.induct) auto

lemma keeps_obind:
  assumes "keeps I m" "\<And>x. steady I (f x)"
  shows "keeps I (obind m f)"
  using assms(1)
proof (coinduction arbitrary: m)
  case keeps
  show ?case
  proof (cases m)
    case (Ok x s)
    then have "keeps I (f x s)" using keeps assms(2) by (simp add: steady_def)
    then show ?thesis using Ok by (cases "f x s") auto
  next
    case (Blocked s k)
    then show ?thesis using keeps by auto
  qed simp
qed

lemma unroll_keeps:
  assumes "unroll c b m = Some m'" "keeps I m" "\<And>x. steady I (b x)"
  shows "keeps I m'"
proof -
  have "(\<forall>x. steady I (b x)) \<longrightarrow> keeps I m \<longrightarrow> keeps I m'"
    by (rule unroll.raw_induct [where P = "\<lambda>c b m m'. (\<forall>x. steady I (b x)) \<longrightarrow> keeps I m \<longrightarrow> keeps I m'", OF _ assms(1)])
      (auto simp: steady_def split: outcome.splits if_splits)
  then show ?thesis using assms(2,3) by blast
qed

lemma unroll_exit: "unroll c b m = Some m' \<Longrightarrow> \<forall>x s. m' = Ok x s \<longrightarrow> \<not> c x s"
  by (rule unroll.raw_induct [where P = "\<lambda>c b m m'. \<forall>x s. m' = Ok x s \<longrightarrow> \<not> c x s"])
    (fastforce split: outcome.splits if_splits)+

lemma keeps_kwhile_from:
  assumes "keeps I m" "\<And>x. steady I (b x)"
  shows "keeps I (kwhile_from c b m)"
  using assms(1)
proof (coinduction arbitrary: m)
  case keeps
  show ?case
  proof (cases "unroll c b m")
    case None
    then have "kwhile_from c b m = Diverges" by (subst kwhile_from.code) simp
    then show ?thesis by simp
  next
    case (Some m')
    then have "keeps I m'" using unroll_keeps [OF _ keeps assms(2)] by simp
    moreover have "kwhile_from c b m = (case m' of Ok x s \<Rightarrow> Ok x s
        | Blocked s k \<Rightarrow> Blocked s (\<lambda>s'. kwhile_from c b (k s')) | Stop e \<Rightarrow> Stop e)"
      using Some by (subst kwhile_from.code) simp
    ultimately show ?thesis by (cases m') auto
  qed
qed

lemma kwhile_exit:
  assumes "completes R (kwhile_from c b m) y t"
  shows "\<not> c y t"
proof -
  have "\<forall>m. n = kwhile_from c b m \<longrightarrow> \<not> c y t" if "completes R n y t" for n
    using that
  proof (induction rule: completes.induct)
    case (completes_Ok x s)
    show ?case
    proof (intro allI impI)
      fix m
      assume e: "Ok x s = kwhile_from c b m"
      show "\<not> c x s"
      proof (cases "unroll c b m")
        case None
        then show ?thesis using e by (subst (asm) kwhile_from.code) simp
      next
        case (Some m')
        then show ?thesis using e unroll_exit [OF Some] by (subst (asm) kwhile_from.code) (cases m'; simp)
      qed
    qed
  next
    case (completes_Blocked s s' k x s'')
    show ?case
    proof (intro allI impI)
      fix m
      assume e: "Blocked s k = kwhile_from c b m"
      show "\<not> c x s''"
      proof (cases "unroll c b m")
        case None
        then show ?thesis using e by (subst (asm) kwhile_from.code) simp
      next
        case (Some m')
        then show ?thesis using e completes_Blocked.IH by (subst (asm) kwhile_from.code) (cases m'; auto)
      qed
    qed
  qed
  then show ?thesis using assms by blast
qed

lemma loop_never_exits:
  assumes "completes R (kwhile c b x s) y t" "I s" "\<And>x. steady I (b x)" "\<And>s s'. R s s' \<Longrightarrow> I s \<Longrightarrow> I s'"
  shows "I t \<and> \<not> c y t"
proof -
  have "keeps I (kwhile_from c b (Ok x s))" using assms(2,3) by (intro keeps_kwhile_from) simp_all
  then show ?thesis
    using assms(1,4) keeps_completes [of R "kwhile c b x s" y t I] kwhile_exit [of R c b "Ok x s" y t] by (simp add: kwhile_def)
qed

lemma steady_kwhile: "(\<And>x. steady I (b x)) \<Longrightarrow> steady I (kwhile c b x)"
  unfolding steady_def kwhile_def by (intro allI impI keeps_kwhile_from) (simp_all add: steady_def)

lemma steady_kbind: "steady I m \<Longrightarrow> (\<And>x. steady I (f x)) \<Longrightarrow> steady I (kbind m f)"
  unfolding kbind_def steady_def [of I "\<lambda>s. obind (m s) f"] by (intro allI impI keeps_obind) (simp_all add: steady_def)

lemma steady_kthen: "steady I m \<Longrightarrow> steady I n \<Longrightarrow> steady I (kthen m n)"
  unfolding kthen_def by (rule steady_kbind)

lemma steady_pure: "steady I (kret x)" "steady I (kgets f)" "(\<And>s. I s \<Longrightarrow> I (h s)) \<Longrightarrow> steady I (kmodify h)"
  by (simp_all add: steady_def kop_defs)

lemma steady_basic:
  "steady I preempt" "steady I (uread g)" "steady I (\<lambda>s. Gone s)"
  "(\<And>s. I s \<Longrightarrow> I (h s)) \<Longrightarrow> steady I (uwrite h)"
  by (simp_all add: steady_def step_defs)

lemma steady_kseq: "\<forall>m \<in> set ms. steady I m \<Longrightarrow> steady I (kseq ms)"
  by (induction ms rule: kseq.induct) (auto intro: steady_kbind steady_pure)

lemma steady_cases: "(b \<Longrightarrow> steady I m) \<Longrightarrow> (\<not> b \<Longrightarrow> steady I n) \<Longrightarrow> steady I (if b then m else n)" "(b \<Longrightarrow> steady I f) \<Longrightarrow> steady I (kwhen b f)"
  by (simp_all add: kwhen_def steady_pure)

lemmas steady_intros = steady_pure steady_basic steady_kwhile steady_kbind steady_kthen steady_cases

lemma steady_xchg:
  "(\<And>s. I s \<Longrightarrow> I (set_uvalue m 0 s)) \<Longrightarrow> steady I (umutex_lock m)"
  "(\<And>s. I s \<Longrightarrow> I (set_uvalue m 1 s)) \<Longrightarrow> steady I (umutex_unlock m)"
  unfolding umutex_lock_def umutex_unlock_def test_and_unset_def test_and_set_def
  by (intro steady_intros; simp add: steady_def)+

text \<open>Waiting does not touch the reader/writer locks.\<close>

lemma steady_wait: "steady (\<lambda>s. J (rwlocks s)) (ucond_wait tid cv mp)"
proof -
  let ?I = "\<lambda>s. J (rwlocks s)"
  have init: "steady ?I u_init_mutex"
    unfolding u_init_mutex_def umutex_init_def option.case by (intro steady_intros) simp_all
  have "steady ?I raw_malloc"
    unfolding raw_malloc_def by (intro steady_intros) (simp add: steady_def split: list.split)
  then have m: "steady ?I umalloc"
    unfolding umalloc_def by (intro steady_intros steady_xchg init) simp_all
  have f: "steady ?I (ufree t)" for t
    unfolding ufree_def by (intro steady_intros steady_kseq) (auto intro!: steady_intros steady_xchg init)
  have d: "steady ?I (udeschedule tid t)" for t
  proof -
    have "steady ?I (kthen (kmodify (\<lambda>s. s\<lparr>parked := insert tid (parked s)\<rparr>)) (kwhile (\<lambda>_ s. tid \<in> parked s) (\<lambda>_. preempt) ()))"
      by (intro steady_intros) simp
    then show ?thesis unfolding udeschedule_def by (intro steady_kthen steady_basic) (simp add: steady_def)
  qed
  show ?thesis
    unfolding ucond_wait_def by (intro steady_intros m steady_kseq) (auto intro!: steady_intros steady_xchg f d)
qed

lemma waits_for_ever:
  assumes "completes R (while_waiting c wait s) x t" "I s" "\<And>s. I s \<Longrightarrow> c s" "steady I wait" "\<And>s s'. R s s' \<Longrightarrow> I s \<Longrightarrow> I s'"
  shows False
proof -
  obtain u where u: "I u" "completes R (kwhile (\<lambda>_. c) (\<lambda>_. kthen wait preempt) () u) x t"
    using assms(1,2,5) by (auto simp: while_waiting_def step_defs completes_Blocked_iff)
  have "I t \<and> \<not> c t"
    by (rule loop_never_exits [OF u(2,1) steady_kthen [OF assms(4) steady_basic(1)] assms(5)])
  then show False using assms(3) [of t] by simp
qed

lemma read_lock_starves:
  assumes "0 < num_writers (rwlocks s r)" "\<And>u v. R u v \<Longrightarrow> 0 < num_writers (rwlocks u r) \<Longrightarrow> 0 < num_writers (rwlocks v r)"
  shows "\<not> completes R (rwlock_lock tid (Some r) RWLOCK_READ s) x t"
proof
  let ?I = "\<lambda>s. 0 < num_writers (rwlocks s r)"
  let ?w = "while_waiting (reader_waits r) (ucond_wait tid (Rw_readers r) (Rw_mutex r))"
  assume "completes R (rwlock_lock tid (Some r) RWLOCK_READ s) x t"
  then have "completes R (obind (umutex_lock (Rw_mutex r) s) (\<lambda>_. kbind (kbind ?w (\<lambda>_. kseq
      [uwrite (upd_rwlock r (\<lambda>l. l\<lparr>curr_readers := curr_readers l + 1\<rparr>)), uwrite (upd_rwlock r (\<lambda>l. l\<lparr>rw_type := RWLOCK_READ\<rparr>))]))
      (\<lambda>_. umutex_unlock (Rw_mutex r)))) x t"
    by (simp add: rwlock_lock_def kbind_def)
  from completes_obindD [OF this] obtain u where u: "completes R (umutex_lock (Rw_mutex r) s) () u"
    "completes R (kbind (kbind ?w (\<lambda>_. kseq
      [uwrite (upd_rwlock r (\<lambda>l. l\<lparr>curr_readers := curr_readers l + 1\<rparr>)), uwrite (upd_rwlock r (\<lambda>l. l\<lparr>rw_type := RWLOCK_READ\<rparr>))]))
      (\<lambda>_. umutex_unlock (Rw_mutex r)) u) x t" by auto
  have "keeps ?I (umutex_lock (Rw_mutex r) s)"
    using steady_xchg(1) [of ?I "Rw_mutex r"] assms(1) by (simp add: steady_def)
  then have i: "?I u" using keeps_completes [OF u(1)] assms(2) by blast
  from completes_obindD [OF u(2) [unfolded kbind_def]] obtain z y where "completes R (obind (?w u) (\<lambda>_. kseq
      [uwrite (upd_rwlock r (\<lambda>l. l\<lparr>curr_readers := curr_readers l + 1\<rparr>)), uwrite (upd_rwlock r (\<lambda>l. l\<lparr>rw_type := RWLOCK_READ\<rparr>))])) z y"
    by blast
  from completes_obindD [OF this] obtain y v where "completes R (?w u) y v" by blast
  then show False
    by (rule waits_for_ever [where I = ?I]) (use i assms(2) steady_wait [of "\<lambda>l. 0 < num_writers (l r)"] in \<open>auto simp: reader_waits_def\<close>)
qed

lemma wake_nobody:
  assumes "dlist (ulinks s) (Waiting_head cv) []" "uvalue s (Cv_mutex cv) = 1" "ustatus s cv = U_COND_VALID"
  shows "alone (ucond_signal cv s) () s" "alone (ucond_broadcast cv s) () s"
  using assms by (simp_all add: ucond_signal_def ucond_broadcast_def step_defs dlist_first kwhile_unfold fun_upd_idem)

lemma signal_first:
  assumes "dlist (ulinks s) (Waiting_head cv) (Blocked_link a # ns)" "uvalue s (Cv_mutex cv) = 1" "ustatus s cv = U_COND_VALID"
  shows "alone (ucond_signal cv s) () (s\<lparr>blocked_threads := (blocked_threads s)(a := blocked_threads s a\<lparr>reject := 1\<rparr>),
    parked := parked s - {bt_tid (blocked_threads s a)}\<rparr>)"
proof -
  have "(uvalue s)(Cv_mutex cv := 1) = uvalue s" using assms(2) by (simp add: fun_upd_idem)
  then show ?thesis
    using assms by (simp add: ucond_signal_def wake_blocked_def umake_runnable_def step_defs dlist_first)
qed

lemma heap_alone:
  assumes "heap_initialized s" "uvalue s Heap_mutex = 1"
  shows "alone (ufree b s) () s" "answers s = a # as \<Longrightarrow> alone (umalloc s) a (s\<lparr>answers := as\<rparr>)"
  using assms by (simp_all add: ufree_def umalloc_def raw_malloc_def step_defs fun_upd_idem)

lemmas wake_nobody_run [simp] = wake_nobody(1) [THEN alone_obind] wake_nobody(1) [THEN alone_result]
  wake_nobody(2) [THEN alone_obind] wake_nobody(2) [THEN alone_result]

text \<open>
  A writer is admitted while another writer holds the lock.  \<^verbatim>\<open>rwlock_lock\<close> makes a writer wait only while the
  lock is not free \<^emph>\<open>and\<close> has readers, and a writer is not counted as a reader; so the second call returns, without
  waiting, and the only trace is the number of writers.
\<close>

lemma rwlock_admits_second_writer:
  assumes "uvalue s (Rw_mutex r) = 1" "rw_type (rwlocks s r) = RWLOCK_WRITE" "curr_readers (rwlocks s r) = 0"
  shows "completes (=) (rwlock_lock tid (Some r) RWLOCK_WRITE s) ()
    (upd_rwlock r (\<lambda>l. l\<lparr>num_writers := num_writers l + 1, rw_type := RWLOCK_WRITE\<rparr>) s)"
proof -
  have "(uvalue s)(Rw_mutex r := 1) = uvalue s" using assms(1) by (simp add: fun_upd_idem)
  then show ?thesis
    using assms by (simp add: rwlock_lock_def while_waiting_def step_defs kwhile_unfold writer_waits_def)
qed

text \<open>
  C37: After two writers have held the lock together, no reader ever gets it.  The first unlock marks the lock as
  free, the second one then finds a free lock and leaves the number of writers at one; a later request to read
  does not return, whatever the others do, as long as none of them brings the number of writers back to zero.
\<close>

theorem rwlock_readers_starve:
  assumes "rwlocks s r = \<lparr>rw_type = RWLOCK_FREE, num_writers = 0, curr_readers = 0\<rparr>"
    and "uvalue s (Rw_mutex r) = 1" "uvalue s (Cv_mutex (Rw_readers r)) = 1" "uvalue s (Cv_mutex (Rw_writers r)) = 1"
    and "ustatus s (Rw_readers r) = U_COND_VALID" "ustatus s (Rw_writers r) = U_COND_VALID"
    and "dlist (ulinks s) (Waiting_head (Rw_readers r)) []" "dlist (ulinks s) (Waiting_head (Rw_writers r)) []"
  shows "\<exists>s1 s2 s3 s4. completes (=) (rwlock_lock t1 (Some r) RWLOCK_WRITE s) () s1 \<and>
      completes (=) (rwlock_lock t2 (Some r) RWLOCK_WRITE s1) () s2 \<and>
      completes (=) (rwlock_unlock (Some r) s2) () s3 \<and> completes (=) (rwlock_unlock (Some r) s3) () s4 \<and>
      rwlocks s4 r = \<lparr>rw_type = RWLOCK_FREE, num_writers = 1, curr_readers = 0\<rparr> \<and>
      (\<forall>R tid x t. (\<forall>u v. R u v \<longrightarrow> 0 < num_writers (rwlocks u r) \<longrightarrow> 0 < num_writers (rwlocks v r)) \<longrightarrow>
        \<not> completes R (rwlock_lock tid (Some r) RWLOCK_READ s4) x t)"
proof -
  let ?s = "\<lambda>l. s\<lparr>rwlocks := (rwlocks s)(r := l)\<rparr>"
  let ?l1 = "\<lparr>rw_type = RWLOCK_WRITE, num_writers = 1, curr_readers = 0\<rparr>" and ?l2 = "\<lparr>rw_type = RWLOCK_WRITE, num_writers = 2, curr_readers = 0\<rparr>"
    and ?l3 = "\<lparr>rw_type = RWLOCK_FREE, num_writers = 1, curr_readers = 0\<rparr>"
  have u: "(uvalue s)(Rw_mutex r := 1) = uvalue s" using assms(2) by (simp add: fun_upd_idem)
  note d = rwlock_lock_def rwlock_unlock_def while_waiting_def step_defs kwhile_unfold writer_waits_def
  have "alone (rwlock_lock t1 (Some r) RWLOCK_WRITE s) () (?s ?l1)"
    using assms u by (simp add: d)
  moreover have "alone (rwlock_lock t2 (Some r) RWLOCK_WRITE (?s ?l1)) () (?s ?l2)"
    using assms u by (simp add: d)
  moreover have "alone (rwlock_unlock (Some r) (?s ?l2)) () (?s ?l3)"
    using assms u by (simp add: d obind_assoc)
  moreover have "alone (rwlock_unlock (Some r) (?s ?l3)) () (?s ?l3)"
    using assms u by (simp add: d)
  moreover have "\<forall>R tid x t. (\<forall>u v. R u v \<longrightarrow> 0 < num_writers (rwlocks u r) \<longrightarrow> 0 < num_writers (rwlocks v r)) \<longrightarrow>
      \<not> completes R (rwlock_lock tid (Some r) RWLOCK_READ (?s ?l3)) x t"
    by (intro allI impI read_lock_starves) simp_all
  ultimately show ?thesis
    by - (rule exI [of _ "?s ?l1"], rule exI [of _ "?s ?l2"], rule exI [of _ "?s ?l3"], rule exI [of _ "?s ?l3"], simp)
qed

text \<open>
  C38: Signals are lost.  \<^verbatim>\<open>cond_signal\<close> wakes the first waiting thread but leaves it in the queue until that thread
  has run again, so a second signal that comes earlier finds the same thread and wakes nobody, although others wait.
\<close>

theorem cond_signal_wakes_same_thread:
  assumes "dlist (ulinks s) (Waiting_head cv) (Blocked_link a # ns)" "uvalue s (Cv_mutex cv) = 1" "ustatus s cv = U_COND_VALID"
  shows "\<exists>s1 s2. completes (=) (ucond_signal cv s) () s1 \<and> parked s1 = parked s - {bt_tid (blocked_threads s a)} \<and>
    completes (=) (ucond_signal cv s1) () s2 \<and> parked s2 = parked s1 \<and> dlist (ulinks s2) (Waiting_head cv) (Blocked_link a # ns)"
proof -
  let ?s = "s\<lparr>blocked_threads := (blocked_threads s)(a := blocked_threads s a\<lparr>reject := 1\<rparr>),
    parked := parked s - {bt_tid (blocked_threads s a)}\<rparr>"
  have "alone (ucond_signal cv s) () ?s" by (rule signal_first [OF assms])
  moreover have "alone (ucond_signal cv ?s) () ?s" using signal_first [of ?s cv a ns] assms by simp
  ultimately show ?thesis using assms(1) by (intro exI [of _ ?s]) simp
qed

section \<open>Witnesses\<close>

definition fresh_program :: ustate where
  "fresh_program = \<lparr>uvalue = (\<lambda>_. 1), ustatus = (\<lambda>_. 1), ulinks = \<lparr>nxt = id, prv = id\<rparr>,
     blocked_threads = (\<lambda>_. \<lparr>bt_tid = 0, reject = 0\<rparr>),
     rwlocks = (\<lambda>_. \<lparr>rw_type = RWLOCK_FREE, num_writers = 0, curr_readers = 0\<rparr>),
     sems = (\<lambda>_. \<lparr>sem_count = 1, sem_valid = 1\<rparr>),
     tcbs = (\<lambda>_. \<lparr>tcb_id = 0, exited = 0, stack_base = 0, tcb_status = 0\<rparr>),
     heap_initialized = True, answers = [0x1000, 0x2000], parked = {}, user_stack_size = 0x1000\<rparr>"

lemma fresh_program_simps [simp]:
  "uvalue fresh_program m = 1" "ustatus fresh_program cv = 1" "dlist (ulinks fresh_program) q []"
  "rwlocks fresh_program r = \<lparr>rw_type = RWLOCK_FREE, num_writers = 0, curr_readers = 0\<rparr>"
  by (simp_all add: fresh_program_def dlist_def)

theorem rwlock_readers_starve_witness:
  "\<exists>s1 s2 s3 s4. completes (=) (rwlock_lock 5 (Some 1) RWLOCK_WRITE fresh_program) () s1 \<and>
     completes (=) (rwlock_lock 6 (Some 1) RWLOCK_WRITE s1) () s2 \<and> completes (=) (rwlock_unlock (Some 1) s2) () s3 \<and>
     completes (=) (rwlock_unlock (Some 1) s3) () s4 \<and> (\<forall>x t. \<not> completes (=) (rwlock_lock 7 (Some 1) RWLOCK_READ s4) x t)"
proof -
  from rwlock_readers_starve [of fresh_program 1 5 6, OF fresh_program_simps(4,1,1,1,2,2,3,3)] obtain s1 s2 s3 s4 where
    r: "alone (rwlock_lock 5 (Some 1) RWLOCK_WRITE fresh_program) () s1" "alone (rwlock_lock 6 (Some 1) RWLOCK_WRITE s1) () s2"
      "alone (rwlock_unlock (Some 1) s2) () s3" "alone (rwlock_unlock (Some 1) s3) () s4"
    and n: "\<forall>R tid x t. (\<forall>u v. R u v \<longrightarrow> 0 < num_writers (rwlocks u 1) \<longrightarrow> 0 < num_writers (rwlocks v 1)) \<longrightarrow>
        \<not> completes R (rwlock_lock tid (Some 1) RWLOCK_READ s4) x t"
    by (elim exE conjE) (rule that)
  from n [rule_format, of "(=)" 7] have "\<forall>x t. \<not> alone (rwlock_lock 7 (Some 1) RWLOCK_READ s4) x t" by blast
  then show ?thesis using r by blast
qed

theorem cond_signal_wakes_same_thread_witness:
  "\<exists>s s1 s2. parked s = {5, 6} \<and> completes (=) (ucond_signal (Program_cond 1) s) () s1 \<and> parked s1 = {6} \<and>
     completes (=) (ucond_signal (Program_cond 1) s1) () s2 \<and> parked s2 = {6}"
proof -
  let ?q = "Waiting_head (Program_cond 1)"
  let ?s = "fresh_program\<lparr>ulinks := add_to_tail (Blocked_link 0x2000) ?q (add_to_tail (Blocked_link 0x1000) ?q (ulinks fresh_program)),
    blocked_threads := (\<lambda>a. \<lparr>bt_tid = (if a = 0x1000 then 5 else 6), reject = 0\<rparr>), parked := {5, 6}\<rparr>"
  have "dlist (add_to_tail (Blocked_link 0x1000) ?q (ulinks fresh_program)) ?q [Blocked_link 0x1000]"
    using dlist_add_to_tail [of "ulinks fresh_program" ?q "[]" "Blocked_link 0x1000"] by simp
  from dlist_add_to_tail [OF this, of "Blocked_link 0x2000"]
  have "dlist (ulinks ?s) ?q [Blocked_link 0x1000, Blocked_link 0x2000]" by simp
  from cond_signal_wakes_same_thread [OF this] show ?thesis by - (rule exI [of _ ?s], auto)
qed

end
