(* ===== verification/Userthread.thy ===== *)
theory Userthread
  imports Userlib
begin

text \<open>
  The threads of the user library, \<^verbatim>\<open>user/libthread/thread.c\<close>: the list of thread control blocks, the creation of
  threads, \<^verbatim>\<open>thr_exit\<close> and \<^verbatim>\<open>thr_join\<close>.  A control block is named by its address.  The system calls \<^verbatim>\<open>swexn\<close> and
  \<^verbatim>\<open>set_status\<close> change nothing here; \<^verbatim>\<open>thread_fork\<close> is a parameter, the operation that gives the new thread's
  identifier; \<^verbatim>\<open>vanish\<close> does not return.
\<close>

section \<open>Thread control blocks\<close>

abbreviation (input) vanish :: "('a, ustate) kop" where "vanish \<equiv> \<lambda>s. Gone s"

definition find_tcb :: "int \<Rightarrow> (nat option, ustate) kop" where
  "find_tcb tid = kbind (uread (\<lambda>s. get_first Tcb_head (ulinks s))) (\<lambda>p.
     kbind (kwhile
       (\<lambda>p s. p \<noteq> None \<and> p \<noteq> Some Tcb_head \<and> tcb_id (tcbs s (the (uentry (the p)))) \<noteq> tid)
       (\<lambda>p. uread (\<lambda>s. Some (nxt (ulinks s) (the p)))) p) (\<lambda>p.
     kret (case p of None \<Rightarrow> None | Some n \<Rightarrow> uentry n)))"

definition init_tcb :: "nat \<Rightarrow> (nat option, ustate) kop" where
  "init_tcb base = kbind umalloc (\<lambda>tcb.
     if tcb = 0 then kret None
     else kthen (kseq [uwrite (upd_tcb tcb (\<lambda>t. t\<lparr>stack_base := base\<rparr>)), uwrite (upd_tcb tcb (\<lambda>t. t\<lparr>exited := 0\<rparr>))])
       (kbind (ucond_init (Some (Tcb_waiting tcb))) (\<lambda>cond_ret.
         if cond_ret < 0 then kthen (ufree tcb) (kret None)
         else kbind (umutex_init (Some (Tcb_mutex tcb))) (\<lambda>mutex_ret.
           if mutex_ret < 0 then kthen (ufree tcb) (kret None) else kret (Some tcb)))))"

definition add_tcb :: "int \<Rightarrow> nat \<Rightarrow> (unit, ustate) kop" where
  "add_tcb tid tcb = kseq
     [uwrite (upd_tcb tcb (\<lambda>t. t\<lparr>tcb_id := tid\<rparr>)), uwrite (upd_ulinks (add_to_tail (Tcb_link tcb) Tcb_head))]"

definition remove_tcb :: "nat \<Rightarrow> (unit, ustate) kop" where
  "remove_tcb tcb = kseq
     [uwrite (upd_ulinks (del_entry (Tcb_link tcb))),
      umutex_destroy (Some (Tcb_mutex tcb)),
      ucond_destroy (Some (Tcb_waiting tcb)),
      ufree tcb]"

section \<open>The operations\<close>

abbreviation (input) STACK_PADDING :: "nat \<Rightarrow> nat" where
  "STACK_PADDING sz \<equiv> (if sz mod 4 = 0 then 0 else 4 - sz mod 4)"

definition thr_init :: "int \<Rightarrow> nat \<Rightarrow> (int, ustate) kop" where
  "thr_init self sz = kthen (uwrite (\<lambda>s. s\<lparr>user_stack_size := sz + STACK_PADDING sz\<rparr>))
     (kbind (umutex_init (Some Tcb_lock)) (\<lambda>ret_val.
       if ret_val < 0 then kret ret_val
       else kthen (uwrite (upd_ulinks (init_head Tcb_head)))
         (kbind (init_tcb 0) (\<lambda>tcb. case tcb of
             None \<Rightarrow> kret U_ERR_INVAL
           | Some t \<Rightarrow> kthen (add_tcb self t) (kret 0)))))"

definition thr_create :: "(nat \<Rightarrow> (int, ustate) kop) \<Rightarrow> (int, ustate) kop" where
  "thr_create thread_fork = kbind umalloc (\<lambda>base.
     if base = 0 then kret U_ERR_NOMEM
     else kbind (init_tcb 0) (\<lambda>tcb. case tcb of
         None \<Rightarrow> kret U_ERR_INVAL
       | Some t \<Rightarrow> kthen (umutex_lock Tcb_lock)
           (kbind (uread user_stack_size) (\<lambda>sz. kbind (thread_fork (base + sz)) (\<lambda>tid.
             kthen (kseq [add_tcb tid t, umutex_unlock Tcb_lock]) (kret tid))))))"

text \<open>\<open>thr_join\<close> returns its result and, with it, the status that is stored through a non-null \<^verbatim>\<open>statusp\<close>.\<close>

definition thr_join :: "int \<Rightarrow> int \<Rightarrow> bool \<Rightarrow> (int \<times> u32 option, ustate) kop" where
  "thr_join self tid statusp =
     (if tid < 0 then kret (U_ERR_INVAL, None)
      else kthen (umutex_lock Tcb_lock) (kbind (find_tcb tid) (\<lambda>tcb.
        kthen (umutex_unlock Tcb_lock) (case tcb of
            None \<Rightarrow> kret (U_ERR_INVAL, None)
          | Some t \<Rightarrow> kthen (umutex_lock (Tcb_mutex t))
              (kthen (while_waiting (\<lambda>s. exited (tcbs s t) \<noteq> 1) (ucond_wait self (Tcb_waiting t) (Tcb_mutex t)))
              (kbind (if statusp then kbind (uread (\<lambda>s. tcb_status (tcbs s t))) (\<lambda>v. kret (Some v)) else kret None) (\<lambda>status.
                kthen (kseq [umutex_lock Tcb_lock, remove_tcb t, umutex_unlock Tcb_lock])
                  (kret (0, status)))))))))"

definition thr_exit :: "int \<Rightarrow> u32 \<Rightarrow> (unit, ustate) kop" where
  "thr_exit self ret = kthen (umutex_lock Tcb_lock) (kbind (find_tcb self) (\<lambda>tcb.
     kthen (umutex_unlock Tcb_lock) (case tcb of
         None \<Rightarrow> vanish
       | Some t \<Rightarrow> kseq
           [umutex_lock (Tcb_mutex t),
            uwrite (upd_tcb t (\<lambda>b. b\<lparr>exited := 1\<rparr>)),
            uwrite (upd_tcb t (\<lambda>b. b\<lparr>tcb_status := ret\<rparr>)),
            ucond_signal (Tcb_waiting t),
            umutex_unlock (Tcb_mutex t),
            kbind (uread (\<lambda>s. stack_base (tcbs s t))) (\<lambda>b. kwhen (b \<noteq> 0) (ufree b)),
            vanish])))"

section \<open>Joining a thread that exits\<close>

lemma find_tcb_loop:
  assumes "ring_seg (ulinks s) n (map Tcb_link as) Tcb_head"
  shows "alone (kbind (kwhile
      (\<lambda>p s. p \<noteq> None \<and> p \<noteq> Some Tcb_head \<and> tcb_id (tcbs s (the (uentry (the p)))) \<noteq> tid)
      (\<lambda>p. uread (\<lambda>s. Some (nxt (ulinks s) (the p)))) (Some (nxt (ulinks s) n)))
      (\<lambda>p. kret (case p of None \<Rightarrow> None | Some n \<Rightarrow> uentry n)) s)
    (find (\<lambda>a. tcb_id (tcbs s a) = tid) as) s"
  using assms
proof (induction as arbitrary: n)
  case Nil
  then show ?case by (simp add: step_defs kwhile_unfold)
next
  case (Cons a as)
  then show ?case
    by (subst kbind_def, subst kwhile_unfold) (auto simp: step_defs)
qed

lemma find_tcb_alone:
  assumes "dlist (ulinks s) Tcb_head (map Tcb_link as)"
  shows "alone (find_tcb tid s) (find (\<lambda>a. tcb_id (tcbs s a) = tid) as) s"
proof (cases as)
  case Nil
  then have "get_first Tcb_head (ulinks s) = None" using assms by (simp add: dlist_first)
  then show ?thesis using Nil by (simp add: find_tcb_def step_defs kwhile_unfold)
next
  case (Cons a bs)
  then have "get_first Tcb_head (ulinks s) = Some (nxt (ulinks s) Tcb_head)" using assms by (simp add: dlist_def get_first_def)
  then show ?thesis
    using find_tcb_loop [of s Tcb_head as tid] assms by (simp add: find_tcb_def dlist_def step_defs)
qed

text \<open>\<open>exits m s\<close>: run alone, the operation ends the thread in the state \<open>s\<close>.\<close>

inductive exits :: "('a, 's) outcome \<Rightarrow> 's \<Rightarrow> bool" where
  exits_Gone: "exits (Gone s) s"
| exits_Blocked: "exits (k s) t \<Longrightarrow> exits (Blocked s k) t"

inductive_simps exits_simps [simp]: "exits (Ok x s) t" "exits (Blocked s k) t" "exits (Gone s) t"

lemma exits_obind: "alone m x u \<Longrightarrow> exits (obind m f) t \<longleftrightarrow> exits (f x u) t"
  by (induction rule: completes.induct) simp_all

lemmas exits_run = lock_alone [THEN exits_obind] unlock_alone [THEN exits_obind] find_tcb_alone [THEN exits_obind]
  signal_first [THEN exits_obind] heap_alone(1) [THEN exits_obind]

text \<open>No mutex of the program is held, and its heap is initialised.\<close>

definition quiet :: "ustate \<Rightarrow> bool" where
  "quiet s \<longleftrightarrow> (\<forall>m. uvalue s m = 1) \<and> heap_initialized s"

lemma exit_wakes_joiner:
  assumes "quiet s" "dlist (ulinks s) Tcb_head (map Tcb_link as)" "find (\<lambda>a. tcb_id (tcbs s a) = tid) as = Some a"
    and "dlist (ulinks s) (Waiting_head (Tcb_waiting a)) (Blocked_link t # ns)" "ustatus s (Tcb_waiting a) = U_COND_VALID"
  shows "exits (thr_exit tid v s) (s\<lparr>tcbs := (tcbs s)(a := (tcbs s a)\<lparr>exited := 1, tcb_status := v\<rparr>),
    blocked_threads := (blocked_threads s)(t := blocked_threads s t\<lparr>reject := 1\<rparr>),
    parked := parked s - {bt_tid (blocked_threads s t)}\<rparr>)"
proof -
  have "(uvalue s)(m := 1) = uvalue s" for m using assms(1) by (simp add: quiet_def fun_upd_idem)
  then show ?thesis
    using assms by (cases "stack_base (tcbs s a) = 0") (simp_all add: thr_exit_def quiet_def exits_run step_defs)
qed

text \<open>Steps during which the others do nothing, when they may do nothing.\<close>

lemma calm: "alone m x u \<Longrightarrow> \<forall>s. R s s \<Longrightarrow> completes R m x u"
  by (induction rule: completes.induct) (auto simp: completes_Blocked_iff)

lemma calm_kbind: "\<forall>s. R s s \<Longrightarrow> alone (m s) x u \<Longrightarrow> completes R (f x u) y t \<Longrightarrow> completes R (kbind m f s) y t"
  unfolding kbind_def by (rule completes_obind [OF calm])

lemma completes_kthen: "completes R (m s) () u \<Longrightarrow> completes R (n u) y t \<Longrightarrow> completes R (kthen m n s) y t"
  unfolding kthen_def kbind_def by (rule completes_obind)

lemma uread_alone: "alone (uread f s) (f s) s" and uwrite_alone: "alone (uwrite g s) () (g s)"
  by (simp_all add: step_defs)

lemma kseq_append: "xs \<noteq> [] \<Longrightarrow> ys \<noteq> [] \<Longrightarrow> kseq (xs @ ys) = kthen (kseq xs) (kseq ys)"
proof (induction xs rule: kseq.induct)
  case (2 m)
  then show ?case by (cases ys) (simp_all add: kthen_def)
next
  case (3 m n ms)
  then show ?case by (simp add: kthen_def kbind_def obind_assoc)
qed simp

lemma kseq_mid: "xs \<noteq> [] \<Longrightarrow> ys \<noteq> [] \<Longrightarrow> kseq (xs @ [m] @ ys) = kthen (kseq xs) (kthen m (kseq ys))"
  using kseq_append [of xs "[m] @ ys"] kseq_append [of "[m]" ys] by simp

lemma deschedule_woken:
  assumes "\<forall>s. R s s" "reject (blocked_threads s t) = 0" "R (s\<lparr>parked := insert tid (parked s)\<rparr>) v" "tid \<notin> parked v"
  shows "completes R (udeschedule tid t s) () v"
proof -
  let ?w = "kwhile (\<lambda>_ s. tid \<in> parked s) (\<lambda>_. preempt) ()" and ?u = "s\<lparr>parked := insert tid (parked s)\<rparr>"
  have "?w v = Ok () v" using assms(4) by (subst kwhile_unfold) simp
  moreover have "?w ?u = Blocked ?u ?w" by (subst kwhile_unfold) (simp add: preempt_def kswitch_def kbind_def)
  ultimately have "completes R (?w ?u) () v" using assms(3) by (auto simp: completes_Blocked_iff)
  moreover have "udeschedule tid t = (\<lambda>s. Blocked s (\<lambda>s. if reject (blocked_threads s t) \<noteq> 0 then Ok () s
      else ?w (s\<lparr>parked := insert tid (parked s)\<rparr>)))"
    by (simp add: udeschedule_def step_defs fun_eq_iff)
  ultimately show ?thesis using assms(1,2) by (auto simp: completes_Blocked_iff intro!: exI [of _ s])
qed

lemma cond_wait_woken:
  assumes "\<forall>s. R s s" "heap_initialized s" "uvalue s Heap_mutex = 1" "answers s = t # ans" "t \<noteq> 0"
    and "ustatus s cv \<noteq> U_COND_INVALID" "uvalue s (Cv_mutex cv) = 1"
    and "R (s\<lparr>uvalue := (uvalue s)(mp := 1), answers := ans,
        blocked_threads := (blocked_threads s)(t := blocked_threads s t\<lparr>bt_tid := tid, reject := 0\<rparr>),
        ulinks := add_to_tail (Blocked_link t) (Waiting_head cv) (ulinks s), parked := insert tid (parked s)\<rparr>) v"
    and "tid \<notin> parked v" "uvalue v mp = 1" "uvalue v (Cv_mutex cv) = 1" "mp \<noteq> Cv_mutex cv" "mp \<noteq> Heap_mutex"
    and "uvalue v Heap_mutex = 1" "heap_initialized v"
  shows "completes R (ucond_wait tid cv mp s) ()
    (v\<lparr>uvalue := (uvalue v)(mp := 0), ulinks := del_entry (Blocked_link t) (ulinks v)\<rparr>)"
proof -
  let ?u = "s\<lparr>uvalue := (uvalue s)(mp := 1), answers := ans,
        blocked_threads := (blocked_threads s)(t := blocked_threads s t\<lparr>bt_tid := tid, reject := 0\<rparr>),
        ulinks := add_to_tail (Blocked_link t) (Waiting_head cv) (ulinks s)\<rparr>"
    and ?v = "v\<lparr>uvalue := (uvalue v)(mp := 0), ulinks := del_entry (Blocked_link t) (ulinks v)\<rparr>"
  let ?pre = "\<lambda>t. [kwhen (t = 0) (\<lambda>s. Gone s), uwrite (upd_blocked t (\<lambda>b. b\<lparr>bt_tid := tid\<rparr>)), uwrite (upd_blocked t (\<lambda>b. b\<lparr>reject := 0\<rparr>)),
        umutex_lock (Cv_mutex cv), uwrite (upd_ulinks (add_to_tail (Blocked_link t) (Waiting_head cv))),
        umutex_unlock (Cv_mutex cv), umutex_unlock mp]"
    and ?post = "\<lambda>t. [umutex_lock mp, umutex_lock (Cv_mutex cv), uwrite (upd_ulinks (del_entry (Blocked_link t))),
        ufree t, umutex_unlock (Cv_mutex cv)]"
  have "(uvalue s)(Cv_mutex cv := 1) = uvalue s" using assms(7) by (simp add: fun_upd_idem)
  then have "alone (kseq (?pre t) (s\<lparr>answers := ans\<rparr>)) () ?u"
    using assms(5,7,12) by (simp add: step_defs)
  then have pre: "completes R (kseq (?pre t) (s\<lparr>answers := ans\<rparr>)) () ?u" by (rule calm) (rule assms(1))
  have d: "completes R (udeschedule tid t ?u) () v"
    using assms(1,8,9) by (intro deschedule_woken) simp_all
  have "(uvalue v)(mp := 0, Cv_mutex cv := 1) = (uvalue v)(mp := 0)" using assms(11,12) by (simp add: fun_upd_idem)
  then have "alone (kseq (?post t) v) () ?v"
    using assms(10-15) by (simp add: step_defs heap_alone(1) [THEN alone_obind])
  then have post: "completes R (kseq (?post t) v) () ?v" by (rule calm) (rule assms(1))
  have e: "kseq (?pre t @ [udeschedule tid t] @ ?post t) = kthen (kseq (?pre t)) (kthen (udeschedule tid t) (kseq (?post t)))" for t
    by (rule kseq_mid) simp_all
  have eq: "ucond_wait tid cv mp = kbind (uread (\<lambda>s. ustatus s cv)) (\<lambda>st. if st = 0 then kret () else kbind umalloc (\<lambda>t.
      kseq (?pre t @ [udeschedule tid t] @ ?post t)))"
    unfolding ucond_wait_def append.simps ..
  have run: "completes R (kseq (?pre t @ [udeschedule tid t] @ ?post t) (s\<lparr>answers := ans\<rparr>)) () ?v"
    unfolding e by (rule completes_kthen, rule pre, rule completes_kthen, rule d, rule post)
  have m: "alone (umalloc s) t (s\<lparr>answers := ans\<rparr>)" by (rule heap_alone(2) [OF assms(2-4)])
  show ?thesis
    unfolding eq
    by (rule calm_kbind, rule assms(1), rule uread_alone, subst if_not_P, rule assms(6), rule calm_kbind, rule assms(1), rule m, rule run)
qed

lemma wait_once:
  assumes "\<forall>s. R s s" "c s" "completes R (wait s) () w" "\<not> c w"
  shows "completes R (while_waiting c wait s) () w"
proof -
  let ?w = "kwhile (\<lambda>_. c) (\<lambda>_. kthen wait preempt) ()"
  have p: "alone (preempt s) () s" for s by (simp add: preempt_def kswitch_def)
  have "?w w = Ok () w" using assms(4) by (subst kwhile_unfold) simp
  moreover have "completes R (kthen wait preempt s) () w"
    by (rule completes_kthen, rule assms(3), rule calm, rule p, rule assms(1))
  moreover have "?w s = obind (kthen wait preempt s) (\<lambda>_. ?w)"
    using assms(2) by (subst kwhile_unfold) (simp add: kbind_def fun_eq_iff)
  ultimately have "completes R (?w s) () w" by (auto intro: completes_obind)
  then show ?thesis
    unfolding while_waiting_def by (rule completes_kthen [rotated]) (rule calm, rule p, rule assms(1))
qed

lemma remove_tcb_alone:
  assumes "heap_initialized s" "uvalue s Heap_mutex = 1"
  shows "alone (remove_tcb a s) () (s\<lparr>ulinks := del_entry (Tcb_link a) (ulinks s),
    uvalue := (uvalue s)(Tcb_mutex a := 0, Cv_mutex (Tcb_waiting a) := 0), ustatus := (ustatus s)(Tcb_waiting a := 0)\<rparr>)"
  using assms by (simp add: remove_tcb_def umutex_destroy_def ucond_destroy_def step_defs heap_alone(1) [THEN alone_result])

lemma join_exited:
  assumes "heap_initialized s" "uvalue s Heap_mutex = 1" "uvalue s Tcb_lock = 1"
    and "dlist (ulinks s) Tcb_head (map Tcb_link as)" "a \<in> set as" "tcb_status (tcbs s a) = v"
  shows "\<exists>s'. alone (kbind (kbind (uread (\<lambda>s. tcb_status (tcbs s a))) (\<lambda>v. kret (Some v))) (\<lambda>v.
      kthen (kseq [umutex_lock Tcb_lock, remove_tcb a, umutex_unlock Tcb_lock]) (kret (0 :: int, v))) s) (0, Some v) s' \<and>
    dlist (ulinks s') Tcb_head (map Tcb_link (remove1 a as))"
proof -
  obtain xs ys where as: "as = xs @ a # ys" using assms(5) by (meson split_list)
  have "inj Tcb_link" by (simp add: inj_on_def)
  then have "distinct as" using dlist_distinct [OF assms(4)] by (simp add: distinct_map)
  then have "remove1 a as = xs @ ys" using as by (simp add: remove1_append)
  moreover have "dlist (del_entry (Tcb_link a) (ulinks s)) Tcb_head (map Tcb_link (xs @ ys))"
    using dlist_del_entry [of "ulinks s" Tcb_head "map Tcb_link xs" "Tcb_link a" "map Tcb_link ys"] assms(4) as by simp
  ultimately show ?thesis
    using assms(1-3,6) by (simp add: step_defs obind_assoc remove_tcb_alone [THEN alone_obind])
qed



end
