(* ===== verification/Spec2Isabelle.thy ===== *)
theory Spec2Isabelle
  imports Kernel_Main Lmm_Range Userthread
begin

text \<open>
  A verification development for a small x86 kernel.

  The kernel under \<^verbatim>\<open>src/kern\<close> schedules threads round robin (\<^verbatim>\<open>core/scheduler.c\<close>,
  \<^verbatim>\<open>core/context.c\<close>), keeps every queue as an intrusive doubly linked ring (\<^verbatim>\<open>list/list.c\<close>), and
  builds locks, condition variables, tasks, virtual memory and system calls on top of them.

  \<^item> \<open>Prelude\<close>: types and error codes.
  \<^item> \<open>Link_List\<close>: \<^verbatim>\<open>list.c\<close> over an explicit heap of \<^verbatim>\<open>next\<close>/\<^verbatim>\<open>prev\<close> pointers.
  \<^item> \<open>Kernel_State\<close>: threads, tasks, the static variables and registers.
  \<^item> \<open>Scheduler\<close>: run queue, sleep queue lookup, context switch.
\<close>

end
